(* ===== verification/Zbx_Prelude.thy ===== *)
theory Zbx_Prelude
  imports Main "HOL-Library.Word" "HOL-Library.Code_Target_Numeral"
begin

text \<open>
  Shared vocabulary of the development: machine types, the result type of
  fallible Rust code (an error value, a panic, or a bounded recursion that ran
  out of steps), the sequencing combinators for it, checked slices, and
  big-endian byte strings with their numeric reading.
\<close>

type_synonym byte = "8 word"
type_synonym bytes = "byte list"
type_synonym address = bytes
type_synonym u32 = "32 word"
type_synonym u64 = "64 word"
type_synonym u128 = "128 word"

named_theorems res_simps
named_theorems clean_intros

section \<open>Results\<close>

text \<open>A Rust function returning \<^verbatim>\<open>Result<T, E>\<close> ends with a value, with an error of
  type E, or by unwinding (index out of range, failed assertion, overflow check).
  \<open>OutOfFuel\<close> only arises in functions with an explicit recursion bound.\<close>

datatype 'e fault = Err 'e | Panic | OutOfFuel

type_synonym ('e, 'a) res = "'e fault + 'a"

definition rbind :: "('e, 'a) res \<Rightarrow> ('a \<Rightarrow> ('e, 'b) res) \<Rightarrow> ('e, 'b) res" where
  "rbind m f = (case m of Inl e \<Rightarrow> Inl e | Inr x \<Rightarrow> f x)"

definition map_err :: "('e \<Rightarrow> 'f) \<Rightarrow> ('e, 'a) res \<Rightarrow> ('f, 'a) res" where
  "map_err g m = (case m of
     Inl (Err e) \<Rightarrow> Inl (Err (g e))
   | Inl Panic \<Rightarrow> Inl Panic
   | Inl OutOfFuel \<Rightarrow> Inl OutOfFuel
   | Inr x \<Rightarrow> Inr x)"

definition ok_or :: "'e \<Rightarrow> 'a option \<Rightarrow> ('e, 'a) res" where
  "ok_or e x = (case x of None \<Rightarrow> Inl (Err e) | Some v \<Rightarrow> Inr v)"

text \<open>A result is clean when the code returned: with a value or with an error of its type.\<close>

definition clean :: "('e, 'a) res \<Rightarrow> bool" where
  "clean m \<longleftrightarrow> m \<noteq> Inl Panic \<and> m \<noteq> Inl OutOfFuel"

lemma rbind_simps [simp]:
  "rbind (Inr x) f = f x"
  "rbind (Inl e) f = Inl e"
  by (simp_all add: rbind_def)

lemma rbind_eq_Inr [res_simps]:
  "rbind m f = Inr y \<longleftrightarrow> (\<exists>x. m = Inr x \<and> f x = Inr y)"
  by (cases m) auto

lemma rbind_eq_Inl [res_simps]:
  "rbind m f = Inl e \<longleftrightarrow> m = Inl e \<or> (\<exists>x. m = Inr x \<and> f x = Inl e)"
  by (cases m) auto

lemma rbind_cong [fundef_cong]:
  assumes "m = m'" and "\<And>x. m' = Inr x \<Longrightarrow> f x = f' x"
  shows "rbind m f = rbind m' f'"
  using assms by (cases m') auto

lemma rbind_assoc: "rbind (rbind m f) g = rbind m (\<lambda>x. rbind (f x) g)"
  by (cases m) auto

lemma map_err_simps [simp]:
  "map_err g (Inr x) = Inr x"
  "map_err g (Inl (Err e)) = Inl (Err (g e))"
  "map_err g (Inl Panic) = Inl Panic"
  "map_err g (Inl OutOfFuel) = Inl OutOfFuel"
  by (simp_all add: map_err_def)

lemma map_err_eq_Inr [simp]: "map_err g m = Inr y \<longleftrightarrow> m = Inr y"
  by (auto simp: map_err_def split: sum.splits fault.splits)

lemma map_err_eq_Panic [simp]: "map_err g m = Inl Panic \<longleftrightarrow> m = Inl Panic"
  by (auto simp: map_err_def split: sum.splits fault.splits)

lemma map_err_eq_OutOfFuel [simp]: "map_err g m = Inl OutOfFuel \<longleftrightarrow> m = Inl OutOfFuel"
  by (auto simp: map_err_def split: sum.splits fault.splits)

lemma ok_or_simps [simp]:
  "ok_or e (Some v) = Inr v"
  "ok_or e None = Inl (Err e)"
  by (simp_all add: ok_or_def)

primrec mapM_res :: "('a \<Rightarrow> ('e, 'b) res) \<Rightarrow> 'a list \<Rightarrow> ('e, 'b list) res" where
  "mapM_res f [] = Inr []"
| "mapM_res f (x # xs) = rbind (f x) (\<lambda>y. rbind (mapM_res f xs) (\<lambda>ys. Inr (y # ys)))"

lemma mapM_res_cong [fundef_cong]:
  assumes "xs = ys" and "\<And>x. x \<in> set ys \<Longrightarrow> f x = g x"
  shows "mapM_res f xs = mapM_res g ys"
  using assms(2) unfolding assms(1) by (induction ys) auto

lemma mapM_res_map:
  "(\<And>x. x \<in> set xs \<Longrightarrow> f x = Inr (g x)) \<Longrightarrow> mapM_res f xs = Inr (map g xs)"
  by (induction xs) auto

lemma mapM_res_eq_Inr: "mapM_res f xs = Inr ys \<longleftrightarrow> list_all2 (\<lambda>x y. f x = Inr y) xs ys"
  by (induction xs arbitrary: ys) (auto simp: rbind_eq_Inr list_all2_Cons1)

lemma clean_simps [simp]:
  "clean (Inr x)" "clean (Inl (Err e))" "\<not> clean (Inl Panic)" "\<not> clean (Inl OutOfFuel)"
  by (simp_all add: clean_def)

lemma clean_rbind [clean_intros]:
  "clean m \<Longrightarrow> (\<And>x. m = Inr x \<Longrightarrow> clean (f x)) \<Longrightarrow> clean (rbind m f)"
  by (cases m) (auto simp: clean_def)

lemma clean_map_err [simp]: "clean (map_err g m) \<longleftrightarrow> clean m"
  by (simp add: clean_def)

lemma clean_ok_or [simp]: "clean (ok_or e x)"
  by (cases x) auto

lemma clean_if [clean_intros]:
  "(b \<Longrightarrow> clean x) \<Longrightarrow> (\<not> b \<Longrightarrow> clean y) \<Longrightarrow> clean (if b then x else y)"
  by simp

lemma clean_let [clean_intros]: "clean (f x) \<Longrightarrow> clean (Let x f)"
  by simp

section \<open>Computations with a mutable receiver\<close>

text \<open>A method taking \<^verbatim>\<open>&mut self\<close> may change the receiver and then fail; the state
  reached is kept in either case.\<close>

type_synonym ('s, 'e, 'a) st = "'s \<Rightarrow> ('e, 'a) res \<times> 's"

definition sret :: "'a \<Rightarrow> ('s, 'e, 'a) st" where
  "sret x s = (Inr x, s)"

definition sfail :: "'e fault \<Rightarrow> ('s, 'e, 'a) st" where
  "sfail e s = (Inl e, s)"

definition sget :: "('s \<Rightarrow> 'a) \<Rightarrow> ('s, 'e, 'a) st" where
  "sget f s = (Inr (f s), s)"

definition smod :: "('s \<Rightarrow> 's) \<Rightarrow> ('s, 'e, unit) st" where
  "smod f s = (Inr (), f s)"

definition slift :: "('e, 'a) res \<Rightarrow> ('s, 'e, 'a) st" where
  "slift m s = (m, s)"

definition sbind :: "('s, 'e, 'a) st \<Rightarrow> ('a \<Rightarrow> ('s, 'e, 'b) st) \<Rightarrow> ('s, 'e, 'b) st" where
  "sbind m f s = (case m s of (Inl e, s') \<Rightarrow> (Inl e, s') | (Inr x, s') \<Rightarrow> f x s')"

lemma sbind_cong [fundef_cong]:
  assumes "s = s'" and "m s' = m' s'" and "\<And>x t. m' s' = (Inr x, t) \<Longrightarrow> f x t = f' x t"
  shows "sbind m f s = sbind m' f' s'"
  using assms by (auto simp: sbind_def split: prod.splits sum.splits)

lemma sbind_eq_Inr [res_simps]:
  "sbind m f s = (Inr y, t) \<longleftrightarrow> (\<exists>x s'. m s = (Inr x, s') \<and> f x s' = (Inr y, t))"
  by (auto simp: sbind_def split: prod.splits sum.splits)

lemma sbind_assoc: "sbind (sbind m f) g = sbind m (\<lambda>x. sbind (f x) g)"
  by (rule ext) (auto simp: sbind_def split: prod.splits sum.splits)

lemma sbind_pure [simp]:
  "sbind (sret x) f = f x"
  "sbind (slift (Inr x)) f = f x"
  "sbind (slift (Inl e)) f = sfail e"
  "sbind (sfail e) f = sfail e"
  "slift (Inr x) = sret x"
  "slift (Inl e) = sfail e"
  by (auto simp: sbind_def sret_def slift_def sfail_def)

definition then_st :: "('s, 'e, 'a) st \<Rightarrow> ('s, 'e, 'b) st \<Rightarrow> ('s, 'e, 'b) st" where
  "then_st m n = sbind m (\<lambda>_. n)"

lemma sbind_if: "sbind (if b then m else n) f = (if b then sbind m f else sbind n f)"
  by simp

lemma sbind_then: "sbind (then_st m n) f = then_st m (sbind n f)"
  by (simp add: then_st_def sbind_assoc)

lemma sbind_cases:
  assumes "sbind m f s = (r, t)"
  obtains (fail) e where "m s = (Inl e, t)" "r = Inl e"
  | (ok) x u where "m s = (Inr x, u)" "f x u = (r, t)"
  using assms by (auto simp: sbind_def split: prod.splits sum.splits)

lemma then_cases:
  assumes "then_st m n s = (r, t)"
  obtains (fail) e where "m s = (Inl e, t)" "r = Inl e"
  | (ok) x u where "m s = (Inr x, u)" "n u = (r, t)"
  using assms unfolding then_st_def by (rule sbind_cases)

text \<open>A relation between the state before and after, kept by every outcome.\<close>

definition rel_st :: "('s \<Rightarrow> 's \<Rightarrow> bool) \<Rightarrow> ('s, 'e, 'a) st \<Rightarrow> bool" where
  "rel_st R m \<longleftrightarrow> (\<forall>s. R s (snd (m s)))"

lemma rel_st_sbind:
  assumes "transp R" and "rel_st R m" and "\<And>x. rel_st R (f x)"
  shows "rel_st R (sbind m f)"
  using assms unfolding rel_st_def sbind_def transp_def
  by (auto split: prod.splits sum.splits) (metis snd_conv)+

section \<open>Checked slices\<close>

text \<open>\<open>&xs[i..j]\<close>: panics when \<open>i > j\<close> or \<open>j > len\<close>.\<close>

definition slice_chk :: "'a list \<Rightarrow> nat \<Rightarrow> nat \<Rightarrow> ('e, 'a list) res" where
  "slice_chk xs i j = (if i \<le> j \<and> j \<le> length xs then Inr (take (j - i) (drop i xs)) else Inl Panic)"

definition index_chk :: "'a list \<Rightarrow> nat \<Rightarrow> ('e, 'a) res" where
  "index_chk xs i = (if i < length xs then Inr (xs ! i) else Inl Panic)"

lemma slice_chk_mid [simp]:
  "slice_chk (xs @ ys @ zs) (length xs) (length xs + length ys) = Inr ys"
  by (simp add: slice_chk_def)

lemma slice_chk_eq_Inr [res_simps]:
  "slice_chk xs i j = Inr ys \<longleftrightarrow> i \<le> j \<and> j \<le> length xs \<and> ys = take (j - i) (drop i xs)"
  by (auto simp: slice_chk_def)

lemma index_chk_eq_Inr [res_simps]:
  "index_chk xs i = Inr x \<longleftrightarrow> i < length xs \<and> x = xs ! i"
  by (auto simp: index_chk_def)

lemma clean_slice [clean_intros]:
  "i \<le> j \<Longrightarrow> j \<le> length xs \<Longrightarrow> clean (slice_chk xs i j)"
  by (simp add: slice_chk_def)

section \<open>Big-endian byte strings\<close>

primrec be_val :: "bytes \<Rightarrow> nat" where
  "be_val [] = 0"
| "be_val (b # bs) = unat b * 256 ^ length bs + be_val bs"

primrec be_bytes :: "nat \<Rightarrow> nat \<Rightarrow> bytes" where
  "be_bytes 0 n = []"
| "be_bytes (Suc k) n = of_nat (n div 256 ^ k) # be_bytes k n"

lemma unat_byte_less [simp]: "unat (b :: byte) < 256"
  using unsigned_less [of b, where 'a = nat] by simp

lemma unat_of_nat_byte [simp]: "unat (of_nat n :: byte) = n mod 256"
  by (simp add: unat_of_nat)

lemma be_val_less: "be_val bs < 256 ^ length bs"
proof (induction bs)
  case (Cons b bs)
  have "unat b * 256 ^ length bs + be_val bs < unat b * 256 ^ length bs + 256 ^ length bs"
    using Cons by simp
  also have "\<dots> = (unat b + 1) * 256 ^ length bs" by (simp add: algebra_simps)
  also have "\<dots> \<le> 256 * 256 ^ length bs"
    using unat_byte_less [of b] by (intro mult_right_mono) linarith+
  finally show ?case by simp
qed simp

lemma be_val_append: "be_val (xs @ ys) = be_val xs * 256 ^ length ys + be_val ys"
  by (induction xs) (simp_all add: power_add algebra_simps)

lemma length_be_bytes [simp]: "length (be_bytes k n) = k"
  by (induction k) simp_all

lemma be_val_be_bytes: "be_val (be_bytes k n) = n mod 256 ^ k"
proof (induction k)
  case (Suc k)
  have "n mod 256 ^ Suc k = 256 ^ k * (n div 256 ^ k mod 256) + n mod 256 ^ k"
    using mod_mult2_eq [of n "256 ^ k" 256] by (simp add: mult.commute)
  then show ?case using Suc by simp
qed simp

lemma be_bytes_mod: "be_bytes k (n mod 256 ^ k) = be_bytes k n"
proof -
  have "j \<le> k \<Longrightarrow> be_bytes j (n mod 256 ^ k) = be_bytes j n" for j
  proof (induction j)
    case (Suc j)
    obtain d where k: "k = j + Suc d" using Suc.prems less_iff_Suc_add by (metis Suc_le_lessD add_Suc_right)
    have "n mod 256 ^ k div 256 ^ j = n div 256 ^ j mod 256 ^ Suc d"
      unfolding k power_add by (simp add: mod_mult2_eq)
    then have "(n mod 256 ^ k div 256 ^ j) mod 256 = n div 256 ^ j mod 256"
      by (simp add: mod_mod_cancel)
    then have "(of_nat (n mod 256 ^ k div 256 ^ j) :: byte) = of_nat (n div 256 ^ j)"
      by (metis unat_of_nat_byte word_unat_eq_iff)
    then show ?case using Suc by simp
  qed simp
  then show ?thesis by simp
qed

lemma be_bytes_add_high: "be_bytes k (m * 256 ^ k + n) = be_bytes k n"
  using be_bytes_mod [of k "m * 256 ^ k + n"] be_bytes_mod [of k n] by simp

lemma be_bytes_be_val: "be_bytes (length bs) (be_val bs) = bs"
proof (induction bs)
  case (Cons b bs)
  then show ?case
    using be_val_less [of bs] by (simp add: be_bytes_add_high)
qed simp

lemma be_val_inject: "length xs = length ys \<Longrightarrow> be_val xs = be_val ys \<Longrightarrow> xs = ys"
  by (metis be_bytes_be_val)

lemma be_val_dropWhile_zero [simp]: "be_val (dropWhile (\<lambda>b. b = 0) bs) = be_val bs"
  by (induction bs) auto

lemma be_val_replicate_zero [simp]: "be_val (replicate n 0) = 0"
  by (induction n) auto

lemma be_val_eq_0_iff: "be_val bs = 0 \<longleftrightarrow> (\<forall>b\<in>set bs. b = 0)"
  by (induction bs) (auto simp: unat_eq_0)

text \<open>Accumulating \<open>(v << 8) | b\<close> reads a big-endian number at the width of \<open>v\<close>.\<close>

unbundle bit_operations_syntax

lemma shl8_or_byte:
  fixes v :: "'w::len word" and b :: byte
  assumes "8 \<le> LENGTH('w)"
  shows "push_bit 8 v OR ucast b = v * 256 + ucast b"
proof -
  have "push_bit 8 v + ucast b = push_bit 8 v OR ucast b"
    by (rule disjunctive_add) (auto simp: bit_simps dest: bit_imp_le_length)
  then show ?thesis by (simp add: push_bit_eq_mult)
qed

section \<open>Byte strings in order\<close>

text \<open>The order of byte arrays is lexicographic.\<close>

fun bytes_less :: "bytes \<Rightarrow> bytes \<Rightarrow> bool" where
  "bytes_less [] ys = (ys \<noteq> [])"
| "bytes_less (x # xs) [] = False"
| "bytes_less (x # xs) (y # ys) = (x < y \<or> x = y \<and> bytes_less xs ys)"

end
