(* ===== verification/Rlp.thy ===== *)
theory Rlp
  imports Zbx_Prelude
begin

text \<open>
  The crate \<^verbatim>\<open>zbx-rlp\<close>: the stream encoder with its 9-byte list placeholders
  (\<^verbatim>\<open>encode.rs\<close>, \<^verbatim>\<open>stream.rs\<close>) and the zero-copy decoder (\<^verbatim>\<open>decode.rs\<close>).  A view
  \<^verbatim>\<open>Rlp<'a>\<close> is the byte list it points to; a \<^verbatim>\<open>usize\<close> is a natural number, with the
  checks at \<open>2 ^ 64\<close> written out where the code makes them.  The reference
  encoding of an item tree is \<open>rlp_enc\<close>; the stream refines it and the decoder
  inverts it.
\<close>

section \<open>Errors and helpers\<close>

datatype rlp_error =
    UnexpectedEnd nat
  | InvalidLeadingByte byte
  | NonCanonical
  | LengthMismatch nat nat
  | ItemCountMismatch
  | RlpOverflow
  | ExpectedString
  | ExpectedList
  | RlpCustom string

definition usize_max :: nat where
  "usize_max = 2 ^ 64"

definition checked_add_usize :: "nat \<Rightarrow> nat \<Rightarrow> nat option" where
  "checked_add_usize a b = (if a + b < usize_max then Some (a + b) else None)"

section \<open>Encoder\<close>

text \<open>The top of the \<^verbatim>\<open>list_stack\<close> vector is the head of the list.\<close>

record rlp_stream =
  buf :: bytes
  list_stack :: "nat list"

definition rlp_new :: rlp_stream where
  "rlp_new = \<lparr>buf = [], list_stack = []\<rparr>"

definition begin_list :: "rlp_stream \<Rightarrow> rlp_stream" where
  "begin_list s = s\<lparr>list_stack := length (buf s) # list_stack s, buf := buf s @ replicate 9 0\<rparr>"

definition rlp_new_list :: "nat \<Rightarrow> rlp_stream" where
  "rlp_new_list n = begin_list rlp_new"

definition minimal_bytes :: "u64 \<Rightarrow> bytes" where
  "minimal_bytes n =
     (let bs = be_bytes 8 (unat n);
          leading = length (takeWhile (\<lambda>b. b = 0) bs)
      in drop leading bs)"

definition encode_string :: "rlp_stream \<Rightarrow> bytes \<Rightarrow> rlp_stream" where
  "encode_string s data =
     (let n = length data in
      if n = 0 then s\<lparr>buf := buf s @ [0x80]\<rparr>
      else if n = 1 \<and> data ! 0 < 0x80 then s\<lparr>buf := buf s @ [data ! 0]\<rparr>
      else if n \<le> 55 then s\<lparr>buf := buf s @ [0x80 + of_nat n] @ data\<rparr>
      else let len_bytes = minimal_bytes (of_nat n)
           in s\<lparr>buf := buf s @ [0xb7 + of_nat (length len_bytes)] @ len_bytes @ data\<rparr>)"

definition rlp_append :: "rlp_stream \<Rightarrow> bytes \<Rightarrow> rlp_stream" where
  "rlp_append s data = encode_string s data"

definition rlp_append_raw :: "rlp_stream \<Rightarrow> bytes \<Rightarrow> rlp_stream" where
  "rlp_append_raw s data = s\<lparr>buf := buf s @ data\<rparr>"

definition list_prefix :: "nat \<Rightarrow> bytes" where
  "list_prefix content_len =
     (if content_len \<le> 55 then [0xc0 + of_nat content_len]
      else let len_bytes = minimal_bytes (of_nat content_len)
           in (0xf7 + of_nat (length len_bytes)) # len_bytes)"

definition finalize_unbounded_list :: "rlp_stream \<Rightarrow> ('e, rlp_stream) res" where
  "finalize_unbounded_list s = (case list_stack s of
     [] \<Rightarrow> Inl Panic
   | start # rest \<Rightarrow>
      let content_start = start + 9 in
      if length (buf s) < content_start then Inl Panic
      else
       (let content_len = length (buf s) - content_start;
            prefix = list_prefix content_len
        in if length prefix = 9
           then Inr \<lparr>buf = take start (buf s) @ prefix @ drop (start + length prefix) (buf s),
                     list_stack = rest\<rparr>
           else let content = drop content_start (buf s)
                in Inr \<lparr>buf = take start (buf s) @ prefix @ content, list_stack = rest\<rparr>))"

lemma finalize_pops:
  "finalize_unbounded_list s = Inr t \<Longrightarrow> length (list_stack t) < length (list_stack s)"
  by (auto simp: finalize_unbounded_list_def Let_def split: list.splits if_splits)

function rlp_out :: "rlp_stream \<Rightarrow> ('e, bytes) res" where
  "rlp_out s = (if list_stack s = [] then Inr (buf s)
                else rbind (finalize_unbounded_list s) (\<lambda>t. rlp_out t))"
  by pat_completeness auto
termination
  by (relation "measure (\<lambda>s. length (list_stack s))") (auto dest: finalize_pops)

declare rlp_out.simps [simp del]

definition encode_bytes_item :: "bytes \<Rightarrow> ('e, bytes) res" where
  "encode_bytes_item data = rlp_out (rlp_append rlp_new data)"

text \<open>The \<^verbatim>\<open>Encodable\<close> instances of the integer types.\<close>

definition encode_u8_into :: "rlp_stream \<Rightarrow> byte \<Rightarrow> rlp_stream" where
  "encode_u8_into s v = encode_string s [v]"

definition encode_u64_into :: "rlp_stream \<Rightarrow> u64 \<Rightarrow> rlp_stream" where
  "encode_u64_into s v =
     (if v = 0 then s\<lparr>buf := buf s @ [0x80]\<rparr>
      else encode_string s (minimal_bytes v))"

definition encode_u128_into :: "rlp_stream \<Rightarrow> u128 \<Rightarrow> rlp_stream" where
  "encode_u128_into s v =
     (if v = 0 then s\<lparr>buf := buf s @ [0x80]\<rparr>
      else let b = be_bytes 16 (unat v);
               skip = length (takeWhile (\<lambda>x. x = 0) b)
           in encode_string s (drop skip b))"

definition encode_u256 :: "bytes \<Rightarrow> ('e, bytes) res" where
  "encode_u256 v = rlp_out (rlp_append rlp_new (drop (length (takeWhile (\<lambda>b. b = 0) v)) v))"

definition encode_list :: "bytes list \<Rightarrow> ('e, bytes) res" where
  "encode_list items = rlp_out (foldl rlp_append (rlp_new_list (length items)) items)"

section \<open>Decoder\<close>

definition is_data :: "bytes \<Rightarrow> bool" where
  "is_data d = (case d of [] \<Rightarrow> False | b # _ \<Rightarrow> b < 0xc0)"

definition is_list :: "bytes \<Rightarrow> bool" where
  "is_list d = (case d of [] \<Rightarrow> False | b # _ \<Rightarrow> b \<ge> 0xc0)"

text \<open>On a 64-bit target \<^verbatim>\<open>checked_shl(8)\<close> never fails; bits shifted out are lost.\<close>

definition decode_length :: "bytes \<Rightarrow> (rlp_error, nat) res" where
  "decode_length bs =
     (if bs = [] then Inl (Err (UnexpectedEnd 0))
      else if hd bs = 0 then Inl (Err RlpOverflow)
      else Inr (unat (foldl (\<lambda>v b. push_bit 8 v OR ucast b) (0 :: u64) bs)))"

definition item_length :: "bytes \<Rightarrow> nat \<Rightarrow> (rlp_error, nat) res" where
  "item_length data pos =
     (if pos \<ge> length data then Inl (Err (UnexpectedEnd pos))
      else
       (let b = data ! pos in
        rbind
         (if b < 0x80 then Inr 1
          else if b < 0xb8 then Inr (1 + unat (b - 0x80))
          else if b < 0xc0 then
            (let len_bytes = unat (b - 0xb7) in
             if pos + 1 + len_bytes > length data then Inl (Err (UnexpectedEnd (pos + 1 + len_bytes)))
             else rbind (slice_chk data (pos + 1) (pos + 1 + len_bytes)) (\<lambda>lb.
                  rbind (decode_length lb) (\<lambda>len.
                  ok_or RlpOverflow (Option.bind (checked_add_usize 1 len_bytes)
                                      (\<lambda>x. checked_add_usize x len)))))
          else if b < 0xf8 then Inr (1 + unat (b - 0xc0))
          else
            (let len_bytes = unat (b - 0xf7) in
             if pos + 1 + len_bytes > length data then Inl (Err (UnexpectedEnd (pos + 1 + len_bytes)))
             else rbind (slice_chk data (pos + 1) (pos + 1 + len_bytes)) (\<lambda>lb.
                  rbind (decode_length lb) (\<lambda>len.
                  ok_or RlpOverflow (Option.bind (checked_add_usize 1 len_bytes)
                                      (\<lambda>x. checked_add_usize x len))))))
         (\<lambda>item_len.
            rbind (ok_or RlpOverflow (checked_add_usize pos item_len)) (\<lambda>end_pos.
            if end_pos > length data then Inl (Err (UnexpectedEnd end_pos))
            else Inr item_len))))"

definition split_payload :: "bytes \<Rightarrow> (rlp_error, bytes \<times> bytes) res" where
  "split_payload data =
     (if data = [] then Inl (Err (UnexpectedEnd 0))
      else
       (let b = data ! 0 in
        if b < 0x80 then rbind (slice_chk data 0 1) (\<lambda>p. rbind (slice_chk data 1 (length data)) (\<lambda>r. Inr (p, r)))
        else if b < 0xb8 then
          (let len = unat (b - 0x80) in
           if 1 + len > length data then Inl (Err (UnexpectedEnd (1 + len)))
           else rbind (slice_chk data 1 (1 + len)) (\<lambda>p.
                rbind (slice_chk data (1 + len) (length data)) (\<lambda>r. Inr (p, r))))
        else if b < 0xc0 then
          (let len_bytes = unat (b - 0xb7) in
           if 1 + len_bytes > length data then Inl (Err (UnexpectedEnd (1 + len_bytes)))
           else rbind (slice_chk data 1 (1 + len_bytes)) (\<lambda>lb.
                rbind (decode_length lb) (\<lambda>len.
                rbind (ok_or RlpOverflow (Option.bind (checked_add_usize 1 len_bytes)
                                           (\<lambda>x. checked_add_usize x len))) (\<lambda>end_pos.
                if end_pos > length data then Inl (Err (UnexpectedEnd end_pos))
                else rbind (slice_chk data (1 + len_bytes) end_pos) (\<lambda>p.
                     rbind (slice_chk data end_pos (length data)) (\<lambda>r. Inr (p, r)))))))
        else Inl (Err ExpectedString)))"

definition list_payload :: "bytes \<Rightarrow> (rlp_error, bytes \<times> bytes) res" where
  "list_payload data =
     (if data = [] then Inr ([], [])
      else
       (let b = data ! 0 in
        if b < 0xc0 then Inl (Err ExpectedList)
        else if b < 0xf8 then
          (let len = unat (b - 0xc0) in
           if 1 + len > length data then Inl (Err (UnexpectedEnd (1 + len)))
           else rbind (slice_chk data 1 (1 + len)) (\<lambda>p.
                rbind (slice_chk data (1 + len) (length data)) (\<lambda>r. Inr (p, r))))
        else
          (let len_bytes = unat (b - 0xf7) in
           if 1 + len_bytes > length data then Inl (Err (UnexpectedEnd (1 + len_bytes)))
           else rbind (slice_chk data 1 (1 + len_bytes)) (\<lambda>lb.
                rbind (decode_length lb) (\<lambda>len.
                rbind (ok_or RlpOverflow (Option.bind (checked_add_usize 1 len_bytes)
                                           (\<lambda>x. checked_add_usize x len))) (\<lambda>end_pos.
                if end_pos > length data then Inl (Err (UnexpectedEnd end_pos))
                else rbind (slice_chk data (1 + len_bytes) end_pos) (\<lambda>p.
                     rbind (slice_chk data end_pos (length data)) (\<lambda>r. Inr (p, r)))))))))"

definition as_bytes :: "bytes \<Rightarrow> (rlp_error, bytes) res" where
  "as_bytes data = rbind (split_payload data) (\<lambda>(p, r). Inr p)"

lemma item_length_bounds:
  assumes "item_length data pos = Inr n"
  shows "0 < n" and "pos + n \<le> length data"
  using assms
  by (auto simp: item_length_def Let_def res_simps ok_or_def checked_add_usize_def
           split: if_splits option.splits bind_splits)

function item_count_loop :: "bytes \<Rightarrow> nat \<Rightarrow> nat \<Rightarrow> (rlp_error, nat) res" where
  "item_count_loop lb pos count =
     (if pos < length lb
      then rbind (item_length lb pos) (\<lambda>item_len. item_count_loop lb (pos + item_len) (count + 1))
      else Inr count)"
  by pat_completeness auto
termination
  by (relation "measure (\<lambda>(lb, pos, count). length lb - pos)") (auto dest: item_length_bounds)

function rlp_at_loop :: "bytes \<Rightarrow> nat \<Rightarrow> nat \<Rightarrow> nat \<Rightarrow> (rlp_error, bytes) res" where
  "rlp_at_loop lb n pos idx =
     (if pos < length lb
      then rbind (item_length lb pos) (\<lambda>item_len.
             if idx = n then slice_chk lb pos (pos + item_len)
             else rlp_at_loop lb n (pos + item_len) (idx + 1))
      else Inl (Err ItemCountMismatch))"
  by pat_completeness auto
termination
  by (relation "measure (\<lambda>(lb, n, pos, idx). length lb - pos)") (auto dest: item_length_bounds)

declare item_count_loop.simps [simp del] rlp_at_loop.simps [simp del]

definition item_count :: "bytes \<Rightarrow> (rlp_error, nat) res" where
  "item_count data =
     (if data = [] then Inr 0
      else if data ! 0 < 0xc0 then Inr 0
      else rbind (list_payload data) (\<lambda>(lb, r). item_count_loop lb 0 0))"

definition rlp_at :: "bytes \<Rightarrow> nat \<Rightarrow> (rlp_error, bytes) res" where
  "rlp_at data n = rbind (list_payload data) (\<lambda>(lb, r). rlp_at_loop lb n 0 0)"

definition decode_u64 :: "bytes \<Rightarrow> (rlp_error, u64) res" where
  "decode_u64 data = rbind (as_bytes data) (\<lambda>bs.
     if length bs > 8 then Inl (Err RlpOverflow)
     else Inr (foldl (\<lambda>v b. push_bit 8 v OR ucast b) 0 bs))"

definition val_at_bytes :: "bytes \<Rightarrow> nat \<Rightarrow> (rlp_error, bytes) res" where
  "val_at_bytes data idx = rbind (rlp_at data idx) as_bytes"

definition val_at_u64 :: "bytes \<Rightarrow> nat \<Rightarrow> (rlp_error, u64) res" where
  "val_at_u64 data idx = rbind (rlp_at data idx) decode_u64"

section \<open>Reference encoding\<close>

datatype rlp_item = RStr bytes | RList "rlp_item list"

definition be_min :: "nat \<Rightarrow> bytes" where
  "be_min n = dropWhile (\<lambda>b. b = 0) (be_bytes 8 n)"

definition rlp_header :: "byte \<Rightarrow> byte \<Rightarrow> nat \<Rightarrow> bytes" where
  "rlp_header short long n =
     (if n < 56 then [short + of_nat n]
      else (long + of_nat (length (be_min n))) # be_min n)"

definition enc_str :: "bytes \<Rightarrow> bytes" where
  "enc_str s = (if length s = 1 \<and> hd s < 0x80 then s else rlp_header 0x80 0xb7 (length s) @ s)"

fun rlp_enc :: "rlp_item \<Rightarrow> bytes" where
  "rlp_enc (RStr s) = enc_str s"
| "rlp_enc (RList xs) =
     (let payload = concat (map rlp_enc xs) in rlp_header 0xc0 0xf7 (length payload) @ payload)"

section \<open>Lengths and headers\<close>

lemma drop_takeWhile_length: "drop (length (takeWhile P xs)) xs = dropWhile P xs"
  by (induction xs) auto

lemma minimal_bytes_be_min: "n < usize_max \<Longrightarrow> minimal_bytes (of_nat n) = be_min n"
  by (simp add: minimal_bytes_def be_min_def drop_takeWhile_length unat_of_nat usize_max_def)

lemma be_min_val: "n < usize_max \<Longrightarrow> be_val (be_min n) = n"
  by (simp add: be_min_def be_val_be_bytes usize_max_def)

lemma length_be_min_le: "length (be_min n) \<le> 8"
  unfolding be_min_def by (metis length_be_bytes length_dropWhile_le)

lemma be_min_nonempty: "0 < n \<Longrightarrow> n < usize_max \<Longrightarrow> be_min n \<noteq> []"
  using be_min_val [of n] by auto

lemma hd_be_min: "be_min n \<noteq> [] \<Longrightarrow> hd (be_min n) \<noteq> 0"
  unfolding be_min_def by (metis (mono_tags) hd_dropWhile)

lemma foldl_shl8:
  fixes v :: u64
  shows "foldl (\<lambda>v b. push_bit 8 v OR ucast b) v bs = v * 256 ^ length bs + of_nat (be_val bs)"
proof (induction bs arbitrary: v)
  case (Cons b bs)
  have "push_bit 8 v OR ucast b = v * 256 + ucast b" by (rule shl8_or_byte) simp
  then show ?case by (simp add: Cons.IH algebra_simps)
qed simp

lemma unat_foldl_shl8:
  assumes "length bs \<le> 8"
  shows "unat (foldl (\<lambda>v b. push_bit 8 v OR ucast b) (0 :: u64) bs) = be_val bs"
proof -
  have "be_val bs < 256 ^ length bs" by (rule be_val_less)
  also have "\<dots> \<le> (256 :: nat) ^ 8" using assms by (intro power_increasing) auto
  finally show ?thesis by (simp add: foldl_shl8 unat_of_nat)
qed

lemma decode_length_be_min:
  assumes "0 < n" and "n < usize_max"
  shows "decode_length (be_min n) = Inr n"
  using assms be_min_nonempty hd_be_min length_be_min_le
  by (simp add: decode_length_def unat_foldl_shl8 be_min_val)

lemma header_bytes:
  assumes "n < 56"
  shows "unat (0x80 + of_nat n :: byte) = 128 + n" and "unat (0xc0 + of_nat n :: byte) = 192 + n"
    and "unat (0xb7 + of_nat n :: byte) = 183 + n"
  using assms by (simp_all add: unat_word_ariths unat_of_nat)

lemma header_byte_f7:
  assumes "n \<le> 8"
  shows "unat (0xf7 + of_nat n :: byte) = 247 + n"
  using assms by (simp add: unat_word_ariths unat_of_nat)

lemma byte_less_iff: "(b :: byte) < c \<longleftrightarrow> unat b < unat c"
  by (rule word_less_nat_alt)

lemmas header_simps = header_bytes header_byte_f7 byte_less_iff

lemma checked_adds:
  "a + b + c < usize_max \<Longrightarrow>
   Option.bind (checked_add_usize a b) (\<lambda>x. checked_add_usize x c) = Some (a + b + c)"
  by (simp add: checked_add_usize_def)

lemma be_min_length_pos:
  "56 \<le> n \<Longrightarrow> n < usize_max \<Longrightarrow> 0 < length (be_min n)"
  using be_min_nonempty [of n] by simp

lemma item_length_header:
  assumes total: "length (pre @ rlp_header s l (length p) @ p @ suf) < usize_max"
    and sl: "s = 0x80 \<and> l = 0xb7 \<or> s = 0xc0 \<and> l = 0xf7"
  shows "item_length (pre @ rlp_header s l (length p) @ p @ suf) (length pre)
         = Inr (length (rlp_header s l (length p)) + length p)"
proof (cases "length p < 56")
  case True
  then show ?thesis using sl total
    by (elim disjE)
      (simp_all add: item_length_def rlp_header_def nth_append header_simps checked_add_usize_def)
next
  case False
  define mb where "mb = be_min (length p)"
  have len: "length p < usize_max" using total by simp
  have mb: "length mb \<le> 8" "0 < length mb" "decode_length mb = Inr (length p)"
    using False len length_be_min_le be_min_length_pos [of "length p"] decode_length_be_min [of "length p"]
    by (fastforce simp: mb_def)+
  have tot: "length pre + (1 + length mb + length p) < usize_max"
    using total False by (simp add: rlp_header_def mb_def)
  have small: "length mb < 56" using mb by simp
  show ?thesis using sl mb tot small
    by (elim disjE)
      (simp_all add: item_length_def rlp_header_def False nth_append header_simps checked_adds
                     slice_chk_def checked_add_usize_def flip: mb_def)
qed

lemma split_payload_header:
  assumes total: "length (rlp_header 0x80 0xb7 (length p) @ p @ suf) < usize_max"
  shows "split_payload (rlp_header 0x80 0xb7 (length p) @ p @ suf) = Inr (p, suf)"
proof (cases "length p < 56")
  case True
  then show ?thesis
    by (simp add: split_payload_def rlp_header_def header_simps slice_chk_def)
next
  case False
  define mb where "mb = be_min (length p)"
  have len: "length p < usize_max" using total by simp
  have mb: "length mb \<le> 8" "0 < length mb" "decode_length mb = Inr (length p)"
    using False len length_be_min_le be_min_length_pos [of "length p"] decode_length_be_min [of "length p"]
    by (fastforce simp: mb_def)+
  have tot: "1 + length mb + length p < usize_max"
    using total False by (simp add: rlp_header_def mb_def)
  then show ?thesis using mb
    by (simp add: split_payload_def rlp_header_def False header_simps checked_adds slice_chk_def
             flip: mb_def)
qed

lemma list_payload_header:
  assumes total: "length (rlp_header 0xc0 0xf7 (length p) @ p @ suf) < usize_max"
  shows "list_payload (rlp_header 0xc0 0xf7 (length p) @ p @ suf) = Inr (p, suf)"
proof (cases "length p < 56")
  case True
  then show ?thesis
    by (simp add: list_payload_def rlp_header_def header_simps slice_chk_def)
next
  case False
  define mb where "mb = be_min (length p)"
  have len: "length p < usize_max" using total by simp
  have mb: "length mb \<le> 8" "0 < length mb" "decode_length mb = Inr (length p)"
    using False len length_be_min_le be_min_length_pos [of "length p"] decode_length_be_min [of "length p"]
    by (fastforce simp: mb_def)+
  have tot: "1 + length mb + length p < usize_max"
    using total False by (simp add: rlp_header_def mb_def)
  then show ?thesis using mb
    by (simp add: list_payload_def rlp_header_def False header_simps checked_adds slice_chk_def
             flip: mb_def)
qed

section \<open>The stream refines the reference encoding\<close>

lemma buf_encode_string:
  "length d < usize_max \<Longrightarrow> encode_string s d = s\<lparr>buf := buf s @ enc_str d\<rparr>"
  by (cases "d = []")
    (auto simp: encode_string_def enc_str_def rlp_header_def Let_def minimal_bytes_be_min hd_conv_nth
                length_Suc_conv)

lemma list_prefix_header:
  "n < usize_max \<Longrightarrow> list_prefix n = rlp_header 0xc0 0xf7 n"
  by (auto simp: list_prefix_def rlp_header_def minimal_bytes_be_min Let_def)

lemma finalize_list:
  assumes "length content < usize_max"
  shows "finalize_unbounded_list \<lparr>buf = pre @ replicate 9 0 @ content, list_stack = length pre # st\<rparr>
         = Inr \<lparr>buf = pre @ rlp_header 0xc0 0xf7 (length content) @ content, list_stack = st\<rparr>"
  using assms by (simp add: finalize_unbounded_list_def list_prefix_header Let_def)

text \<open>Writing an item tree through the stream interface.\<close>

fun emit :: "rlp_stream \<Rightarrow> rlp_item \<Rightarrow> ('e, rlp_stream) res"
and emits :: "rlp_stream \<Rightarrow> rlp_item list \<Rightarrow> ('e, rlp_stream) res" where
  "emit s (RStr d) = Inr (rlp_append s d)"
| "emit s (RList xs) = rbind (emits (begin_list s) xs) finalize_unbounded_list"
| "emits s [] = Inr s"
| "emits s (x # xs) = rbind (emit s x) (\<lambda>t. emits t xs)"

lemma length_enc_str_ge: "length d \<le> length (enc_str d)"
  by (simp add: enc_str_def)

lemma emits_enc:
  assumes "\<And>x s. x \<in> set xs \<Longrightarrow> length (rlp_enc x) < usize_max \<Longrightarrow>
             emit s x = (Inr (s\<lparr>buf := buf s @ rlp_enc x\<rparr>) :: ('e, rlp_stream) res)"
    and "length (concat (map rlp_enc xs)) < usize_max"
  shows "emits s xs = (Inr (s\<lparr>buf := buf s @ concat (map rlp_enc xs)\<rparr>) :: ('e, rlp_stream) res)"
  using assms by (induction xs arbitrary: s) auto

lemma emit_enc:
  "length (rlp_enc x) < usize_max \<Longrightarrow>
   emit s x = (Inr (s\<lparr>buf := buf s @ rlp_enc x\<rparr>) :: ('e, rlp_stream) res)"
proof (induction x arbitrary: s)
  case (RStr d)
  then have "length d < usize_max" using length_enc_str_ge [of d] by simp
  then show ?case by (simp add: rlp_append_def buf_encode_string)
next
  case (RList xs)
  then have small: "length (concat (map rlp_enc xs)) < usize_max" by (simp add: Let_def)
  have "emits (begin_list s) xs
        = (Inr ((begin_list s)\<lparr>buf := buf (begin_list s) @ concat (map rlp_enc xs)\<rparr>) :: ('e, rlp_stream) res)"
    by (rule emits_enc) (use RList.IH small in auto)
  then show ?case
    by (cases s) (simp add: begin_list_def Let_def finalize_list [OF small])
qed

section \<open>Walking an encoded list\<close>

lemma rlp_enc_nonempty: "rlp_enc x \<noteq> []"
  by (cases x) (auto simp: enc_str_def rlp_header_def Let_def)

lemma item_length_enc:
  assumes "length (pre @ rlp_enc x @ suf) < usize_max"
  shows "item_length (pre @ rlp_enc x @ suf) (length pre) = Inr (length (rlp_enc x))"
proof (cases x)
  case (RStr d)
  show ?thesis
  proof (cases "length d = 1 \<and> hd d < 0x80")
    case True
    then obtain b where "d = [b]" "b < 0x80" by (cases d) auto
    then show ?thesis using assms
      by (simp add: RStr enc_str_def item_length_def checked_add_usize_def)
  next
    case False
    then have "rlp_enc x = rlp_header 0x80 0xb7 (length d) @ d" using RStr by (auto simp: enc_str_def)
    then show ?thesis using assms item_length_header [of pre "0x80" "0xb7" d suf] by simp
  qed
next
  case (RList xs)
  then show ?thesis
    using assms item_length_header [of pre "0xc0" "0xf7" "concat (map rlp_enc xs)" suf]
    by (simp add: Let_def)
qed

lemma item_count_loop_enc:
  assumes "length (pre @ concat (map rlp_enc xs)) < usize_max"
  shows "item_count_loop (pre @ concat (map rlp_enc xs)) (length pre) c = Inr (c + length xs)"
  using assms
proof (induction xs arbitrary: pre c)
  case Nil
  then show ?case by (simp add: item_count_loop.simps)
next
  case (Cons x xs)
  have "item_count_loop ((pre @ rlp_enc x) @ concat (map rlp_enc xs)) (length (pre @ rlp_enc x)) (c + 1)
        = Inr (c + 1 + length xs)"
    using Cons.prems by (intro Cons.IH) simp
  then show ?case
    using Cons.prems rlp_enc_nonempty [of x] item_length_enc [of pre x "concat (map rlp_enc xs)"]
    by (subst item_count_loop.simps) simp
qed

lemma rlp_at_loop_enc:
  assumes "length (pre @ concat (map rlp_enc xs)) < usize_max" and "idx \<le> n"
  shows "rlp_at_loop (pre @ concat (map rlp_enc xs)) n (length pre) idx
         = (if n < idx + length xs then Inr (rlp_enc (xs ! (n - idx))) else Inl (Err ItemCountMismatch))"
  using assms
proof (induction xs arbitrary: pre idx)
  case Nil
  then show ?case by (simp add: rlp_at_loop.simps)
next
  case (Cons x xs)
  note len = item_length_enc [of pre x "concat (map rlp_enc xs)"]
  show ?case
  proof (cases "idx = n")
    case True
    then show ?thesis using Cons.prems rlp_enc_nonempty [of x] len
      by (subst rlp_at_loop.simps) simp
  next
    case False
    have "rlp_at_loop ((pre @ rlp_enc x) @ concat (map rlp_enc xs)) n (length (pre @ rlp_enc x)) (idx + 1)
        = (if n < idx + 1 + length xs then Inr (rlp_enc (xs ! (n - (idx + 1)))) else Inl (Err ItemCountMismatch))"
      using Cons.prems False by (intro Cons.IH) auto
    then show ?thesis using Cons.prems rlp_enc_nonempty [of x] len False
      by (subst rlp_at_loop.simps) (auto simp: nth_Cons')
  qed
qed

lemma list_payload_enc:
  assumes "length (rlp_enc (RList xs) @ suf) < usize_max"
  shows "list_payload (rlp_enc (RList xs) @ suf) = Inr (concat (map rlp_enc xs), suf)"
  using assms list_payload_header [of "concat (map rlp_enc xs)" suf] by (simp add: Let_def)

lemma enc_list_head:
  assumes "length (rlp_enc (RList xs)) < usize_max"
  shows "rlp_enc (RList xs) \<noteq> []" and "\<not> rlp_enc (RList xs) ! 0 < 0xc0" and "is_list (rlp_enc (RList xs))"
proof -
  have "\<not> hd (rlp_enc (RList xs)) < 0xc0"
    using assms length_be_min_le [of "length (concat (map rlp_enc xs))"]
    by (simp add: Let_def rlp_header_def header_simps)
  then show "\<not> rlp_enc (RList xs) ! 0 < 0xc0" "is_list (rlp_enc (RList xs))"
    using rlp_enc_nonempty [of "RList xs"]
    by (auto simp: hd_conv_nth is_list_def split: list.splits simp del: rlp_enc.simps)
qed (rule rlp_enc_nonempty)

lemma enc_str_head:
  assumes "length (enc_str d) < usize_max"
  shows "enc_str d \<noteq> []" and "\<not> is_list (enc_str d)"
proof -
  show ne: "enc_str d \<noteq> []" using rlp_enc_nonempty [of "RStr d"] by simp
  have "hd (enc_str d) < 0xc0"
  proof (cases "length d = 1 \<and> hd d < 0x80")
    case True
    then show ?thesis by (auto simp: enc_str_def byte_less_iff)
  next
    case False
    then show ?thesis
      using assms length_be_min_le [of "length d"]
      by (auto simp: enc_str_def rlp_header_def header_simps)
  qed
  then show "\<not> is_list (enc_str d)" using ne by (auto simp: is_list_def split: list.splits)
qed

lemma split_payload_enc_str:
  assumes "length (enc_str d @ suf) < usize_max"
  shows "split_payload (enc_str d @ suf) = Inr (d, suf)"
proof (cases "length d = 1 \<and> hd d < 0x80")
  case True
  then obtain b where "d = [b]" "b < 0x80" by (cases d) auto
  then show ?thesis by (simp add: enc_str_def split_payload_def slice_chk_def)
next
  case False
  then have "enc_str d = rlp_header 0x80 0xb7 (length d) @ d" by (auto simp: enc_str_def)
  then show ?thesis using assms split_payload_header [of d suf] by simp
qed

lemma as_bytes_enc_str:
  "length (enc_str d) < usize_max \<Longrightarrow> as_bytes (enc_str d) = Inr d"
  using split_payload_enc_str [of d "[]"] by (simp add: as_bytes_def)

lemma item_count_enc_list:
  "length (rlp_enc (RList xs)) < usize_max \<Longrightarrow> item_count (rlp_enc (RList xs)) = Inr (length xs)"
  using list_payload_enc [of xs "[]"] enc_list_head [of xs] item_count_loop_enc [of "[]" xs 0]
  by (simp add: item_count_def del: rlp_enc.simps) (simp add: Let_def)

lemma rlp_at_enc_list:
  "length (rlp_enc (RList xs)) < usize_max \<Longrightarrow>
   rlp_at (rlp_enc (RList xs)) n =
     (if n < length xs then Inr (rlp_enc (xs ! n)) else Inl (Err ItemCountMismatch))"
  using list_payload_enc [of xs "[]"] rlp_at_loop_enc [of "[]" xs 0 n]
  by (simp add: rlp_at_def del: rlp_enc.simps) (simp add: Let_def)

lemma item_count_enc_str:
  "length (enc_str d) < usize_max \<Longrightarrow> item_count (enc_str d) = Inr 0"
  using enc_str_head [of d] by (auto simp: item_count_def is_list_def hd_conv_nth split: list.splits)

lemma length_rlp_enc_nth_le:
  assumes "n < length xs"
  shows "length (rlp_enc (xs ! n)) \<le> length (rlp_enc (RList xs))"
proof -
  have "length (rlp_enc (xs ! n)) \<le> length (concat (map rlp_enc xs))"
    using assms by (auto simp: length_concat intro!: member_le_sum_list)
  then show ?thesis by (simp add: Let_def)
qed

section \<open>Robustness on arbitrary input\<close>

lemma checked_adds_le:
  "ok_or e (Option.bind (checked_add_usize a b) (\<lambda>x. checked_add_usize x c)) = Inr n \<Longrightarrow> n = a + b + c"
  by (auto simp: ok_or_def checked_add_usize_def split: option.splits bind_splits if_splits)

lemma clean_decode_length [clean_intros]: "clean (decode_length bs)"
  by (simp add: decode_length_def)

lemma clean_item_length [clean_intros]: "clean (item_length data pos)"
  unfolding item_length_def by (intro clean_intros) auto

lemma clean_split_payload [clean_intros]: "clean (split_payload d)"
  unfolding split_payload_def
  by (intro clean_intros) (auto dest: checked_adds_le simp: Suc_le_eq)

lemma clean_list_payload [clean_intros]: "clean (list_payload d)"
  unfolding list_payload_def
  by (intro clean_intros) (auto dest: checked_adds_le)

lemma clean_item_count_loop [clean_intros]: "clean (item_count_loop lb pos c)"
proof (induction lb pos c rule: item_count_loop.induct)
  case (1 lb pos c)
  then show ?case by (subst item_count_loop.simps) (auto intro!: clean_intros)
qed

lemma clean_rlp_at_loop [clean_intros]: "clean (rlp_at_loop lb n pos idx)"
proof (induction lb n pos idx rule: rlp_at_loop.induct)
  case (1 lb n pos idx)
  then show ?case
    by (subst rlp_at_loop.simps) (auto intro!: clean_intros dest: item_length_bounds)
qed

lemma clean_as_bytes [clean_intros]: "clean (as_bytes d)"
  unfolding as_bytes_def by (auto intro!: clean_intros)

lemma clean_item_count [clean_intros]: "clean (item_count d)"
  unfolding item_count_def by (auto intro!: clean_intros)

lemma clean_rlp_at [clean_intros]: "clean (rlp_at d n)"
  unfolding rlp_at_def by (auto intro!: clean_intros)

lemma clean_decode_u64 [clean_intros]: "clean (decode_u64 d)"
  unfolding decode_u64_def by (auto intro!: clean_intros)

lemma clean_val_at_bytes [clean_intros]: "clean (val_at_bytes d n)"
  unfolding val_at_bytes_def by (auto intro!: clean_intros)

lemma rlp_at_loop_slice:
  "rlp_at_loop lb n pos idx = Inr r \<Longrightarrow> r \<noteq> [] \<and> (\<exists>pre suf. lb = pre @ r @ suf)"
proof (induction lb n pos idx rule: rlp_at_loop.induct)
  case (1 lb n pos idx)
  from "1.prems" obtain il where il: "pos < length lb" "item_length lb pos = Inr il"
    and rest: "if idx = n then slice_chk lb pos (pos + il) = Inr r
               else rlp_at_loop lb n (pos + il) (idx + 1) = Inr r"
    by (subst (asm) rlp_at_loop.simps) (auto simp: res_simps split: if_splits)
  show ?case
  proof (cases "idx = n")
    case True
    then have "r = take il (drop pos lb)" using rest by (simp add: res_simps)
    moreover have "lb = take pos lb @ take il (drop pos lb) @ drop il (drop pos lb)"
      by (metis append_take_drop_id)
    ultimately show ?thesis using item_length_bounds [OF il(2)] il(1) by auto
  next
    case False
    then show ?thesis using "1.IH" [OF il(1) il(2) False] rest by simp
  qed
qed

lemma list_payload_slice:
  "list_payload d = Inr (p, r) \<Longrightarrow> length p < length d \<or> d = []"
  by (auto simp: list_payload_def Let_def res_simps ok_or_def checked_add_usize_def
           split: if_splits option.splits bind_splits)

lemma rlp_at_shorter:
  assumes "rlp_at d n = Inr r"
  shows "length r < length d" and "r \<noteq> []"
proof -
  obtain p q where p: "list_payload d = Inr (p, q)" and r: "rlp_at_loop p n 0 0 = Inr r"
    using assms by (auto simp: rlp_at_def res_simps)
  obtain pre suf where s: "r \<noteq> []" "p = pre @ r @ suf" using rlp_at_loop_slice [OF r] by blast
  show "r \<noteq> []" by (rule s(1))
  have "d \<noteq> []" using p s by (auto simp: list_payload_def)
  then show "length r < length d" using list_payload_slice [OF p] s by auto
qed





section \<open>Properties\<close>

lemma minimal_bytes_val: "be_val (minimal_bytes v) = unat v"
proof -
  have "unat v < 256 ^ 8" using unsigned_less [of v, where 'a = nat] by simp
  then show ?thesis
    unfolding minimal_bytes_def Let_def drop_takeWhile_length be_val_dropWhile_zero be_val_be_bytes
    by (rule mod_less)
qed

lemma minimal_bytes_zero: "minimal_bytes 0 = []"
  by code_simp

lemma length_minimal_bytes_le: "length (minimal_bytes v) \<le> 8"
  by (simp add: minimal_bytes_def Let_def)

lemma rlp_enc_inj_aux:
  "length (rlp_enc x) < usize_max \<Longrightarrow> rlp_enc x = rlp_enc y \<Longrightarrow> x = y"
proof (induction x arbitrary: y)
  case (RStr d)
  show ?case
  proof (cases y)
    case (RStr e)
    then show ?thesis using RStr.prems as_bytes_enc_str [of d] as_bytes_enc_str [of e] by simp
  next
    case (RList ys)
    then show ?thesis using RStr.prems enc_list_head(3) [of ys] enc_str_head(2) [of d]
      by (simp del: rlp_enc.simps(2))
  qed
next
  case (RList xs)
  show ?case
  proof (cases y)
    case (RStr d)
    then show ?thesis using RList.prems enc_list_head(3) [of xs] enc_str_head(2) [of d]
      by (simp del: rlp_enc.simps(2))
  next
    case y: (RList ys)
    have ylen: "length (rlp_enc (RList ys)) < usize_max" using RList.prems y by simp
    have len: "length xs = length ys"
      using item_count_enc_list [OF RList.prems(1)] item_count_enc_list [OF ylen] RList.prems(2) y by simp
    have "xs ! n = ys ! n" if n: "n < length xs" for n
    proof (rule RList.IH)
      show "xs ! n \<in> set xs" using n by simp
      show "length (rlp_enc (xs ! n)) < usize_max"
        using RList.prems(1) length_rlp_enc_nth_le [OF n] by simp
      show "rlp_enc (xs ! n) = rlp_enc (ys ! n)"
        using rlp_at_enc_list [OF RList.prems(1), of n] rlp_at_enc_list [OF ylen, of n] RList.prems(2) y n len
        by simp
    qed
    then show ?thesis using len y by (simp add: nth_equalityI)
  qed
qed

text \<open>C14. Writing any item tree through the stream (\<^verbatim>\<open>begin_list\<close>, \<^verbatim>\<open>append\<close>,
  \<^verbatim>\<open>finalize_unbounded_list\<close>, \<^verbatim>\<open>out\<close>), however deeply lists are nested, yields the
  reference RLP encoding of the tree: the 9-byte placeholders are all replaced by the
  shortest header.\<close>

theorem rlp_stream_encodes:
  assumes "length (rlp_enc x) < usize_max"
  shows "rbind (emit rlp_new x) rlp_out = Inr (rlp_enc x)"
  using assms by (simp add: emit_enc rlp_new_def rlp_out.simps)

theorem rlp_stream_encodes_witness:
  "rbind (emit rlp_new (RList [RStr [1], RList [RStr []]])) rlp_out
   = (Inr [0xc3, 1, 0xc1, 0x80] :: (rlp_error, bytes) res)"
proof -
  have e: "rlp_enc (RList [RStr [1], RList [RStr []]]) = [0xc3, 1, 0xc1, 0x80]" by code_simp
  then have "length (rlp_enc (RList [RStr [1], RList [RStr []]])) < usize_max"
    by (simp add: usize_max_def del: rlp_enc.simps)
  from rlp_stream_encodes [OF this] show ?thesis by (simp only: e)
qed

lemma u64_encode_decode: "rbind (rlp_out (encode_u64_into rlp_new v)) decode_u64 = Inr v"
proof -
  have len: "length (minimal_bytes v) < usize_max"
    using length_minimal_bytes_le [of v] by (simp add: usize_max_def)
  have "encode_u64_into rlp_new v = \<lparr>buf = enc_str (minimal_bytes v), list_stack = []\<rparr>"
    by (cases "v = 0")
      (simp_all add: encode_u64_into_def buf_encode_string len rlp_new_def minimal_bytes_zero enc_str_def
                     rlp_header_def)
  moreover have "length (enc_str (minimal_bytes v)) < usize_max"
    using length_minimal_bytes_le [of v] by (simp add: enc_str_def rlp_header_def usize_max_def)
  moreover have "foldl (\<lambda>v b. push_bit 8 v OR ucast b) (0 :: u64) (minimal_bytes v) = v"
    using unat_foldl_shl8 [OF length_minimal_bytes_le [of v]] minimal_bytes_val [of v]
    by (simp add: word_unat_eq_iff)
  ultimately show ?thesis
    using length_minimal_bytes_le [of v] as_bytes_enc_str [of "minimal_bytes v"]
    by (simp add: rlp_out.simps decode_u64_def)
qed

text \<open>C16. The decoder inverts the encoder on lists: \<^verbatim>\<open>item_count\<close> is the number of items,
  \<^verbatim>\<open>at(n)\<close> is exactly the encoding of the n-th item, and an index past the end is
  \<^verbatim>\<open>ItemCountMismatch\<close>.  Every 64-bit integer survives encoding by its \<^verbatim>\<open>Encodable\<close>
  instance and decoding by its \<^verbatim>\<open>Decodable\<close> instance.\<close>

theorem rlp_list_roundtrip:
  assumes "length (rlp_enc (RList xs)) < usize_max"
  shows "item_count (rlp_enc (RList xs)) = Inr (length xs) \<and>
         (\<forall>n. rlp_at (rlp_enc (RList xs)) n =
            (if n < length xs then Inr (rlp_enc (xs ! n)) else Inl (Err ItemCountMismatch))) \<and>
         rbind (rlp_out (encode_u64_into rlp_new v)) decode_u64 = Inr v"
  using item_count_enc_list [OF assms] rlp_at_enc_list [OF assms] u64_encode_decode by blast

theorem rlp_list_roundtrip_witness:
  "item_count [0xc3, 1, 0xc1, 0x80] = Inr 2 \<and> rlp_at [0xc3, 1, 0xc1, 0x80] 1 = Inr [0xc1, 0x80] \<and>
   rbind (rlp_out (encode_u64_into rlp_new 4660)) decode_u64 = Inr 4660"
proof -
  let ?xs = "[RStr [1], RList [RStr []]]"
  have e: "rlp_enc (RList ?xs) = [0xc3, 1, 0xc1, 0x80]" "rlp_enc (RList [RStr []]) = [0xc1, 0x80]"
    by code_simp+
  then have "length (rlp_enc (RList ?xs)) < usize_max"
    by (simp add: usize_max_def del: rlp_enc.simps)
  from rlp_list_roundtrip [OF this, of 4660] show ?thesis
    using e by (simp del: rlp_enc.simps)
qed



end
