(* ===== verification/Mpt_Spec.thy ===== *)
theory Mpt_Spec
  imports Zbx_Prelude
begin

text \<open>
  The abstract Merkle Patricia tree behind \<^verbatim>\<open>zbx-trie\<close>: a tree without hashes and without a
  database.  Lookup, insertion and deletion are the path algorithms of the crate on
  this tree; the theory shows that they implement a map, that they keep the tree
  canonical, and that a canonical tree is determined by its map.
\<close>

section \<open>Trees and operations\<close>

datatype mpt = MEmpty | MLeaf bytes bytes | MExt bytes mpt | MBranch "mpt list" "bytes option"

fun mlookup :: "mpt \<Rightarrow> bytes \<Rightarrow> bytes option" where
  "mlookup MEmpty k = None"
| "mlookup (MLeaf p v) k = (if k = p then Some v else None)"
| "mlookup (MExt p t) k =
     (if take (length p) k = p then mlookup t (drop (length p) k) else None)"
| "mlookup (MBranch ts bv) [] = bv"
| "mlookup (MBranch ts bv) (x # k) = (if unat x < length ts then mlookup (ts ! unat x) k else None)"

fun lcp :: "bytes \<Rightarrow> bytes \<Rightarrow> nat" where
  "lcp (x # xs) (y # ys) = (if x = y then Suc (lcp xs ys) else 0)"
| "lcp _ _ = 0"

definition mext :: "bytes \<Rightarrow> mpt \<Rightarrow> mpt" where
  "mext p t = (if p = [] then t else MExt p t)"

definition place_leaf :: "bytes \<Rightarrow> bytes \<Rightarrow> mpt list \<times> bytes option \<Rightarrow> mpt list \<times> bytes option" where
  "place_leaf q v = (\<lambda>(ts, bv). case q of [] \<Rightarrow> (ts, Some v) | x # q' \<Rightarrow> (ts[unat x := MLeaf q' v], bv))"

definition place_ext :: "bytes \<Rightarrow> mpt \<Rightarrow> mpt list \<times> bytes option \<Rightarrow> mpt list \<times> bytes option" where
  "place_ext q c = (\<lambda>(ts, bv). case q of [] \<Rightarrow> (ts, bv) | x # q' \<Rightarrow> (ts[unat x := mext q' c], bv))"

definition mbranch :: "bytes \<Rightarrow> mpt list \<times> bytes option \<Rightarrow> mpt" where
  "mbranch p = (\<lambda>(ts, bv). mext p (MBranch ts bv))"

definition no_children :: "mpt list \<times> bytes option" where
  "no_children = (replicate 16 MEmpty, None)"

fun minsert :: "mpt \<Rightarrow> bytes \<Rightarrow> bytes \<Rightarrow> mpt" where
  "minsert MEmpty k v = MLeaf k v"
| "minsert (MLeaf p w) k v =
     (if k = p then MLeaf p v
      else let cp = lcp k p in
           mbranch (take cp k) (place_leaf (drop cp k) v (place_leaf (drop cp p) w no_children)))"
| "minsert (MExt p c) k v =
     (let cp = lcp k p in
      if cp = length p then MExt p (minsert c (drop cp k) v)
      else mbranch (take cp k) (place_leaf (drop cp k) v (place_ext (drop cp p) c no_children)))"
| "minsert (MBranch ts bv) [] v = MBranch ts (Some v)"
| "minsert (MBranch ts bv) (x # k) v = MBranch (ts[unat x := minsert (ts ! unat x) k v]) bv"

fun mconcat :: "bytes \<Rightarrow> mpt \<Rightarrow> mpt" where
  "mconcat p MEmpty = MEmpty"
| "mconcat p (MLeaf q v) = MLeaf (p @ q) v"
| "mconcat p (MExt q t) = MExt (p @ q) t"
| "mconcat p (MBranch ts bv) = MExt p (MBranch ts bv)"

definition occupied :: "mpt list \<Rightarrow> nat list" where
  "occupied ts = filter (\<lambda>i. ts ! i \<noteq> MEmpty) [0..<length ts]"

definition mcollapse :: "mpt list \<Rightarrow> bytes option \<Rightarrow> mpt" where
  "mcollapse ts bv =
     (case (occupied ts, bv) of
        ([], None) \<Rightarrow> MEmpty
      | ([], Some v) \<Rightarrow> MLeaf [] v
      | ([i], None) \<Rightarrow> mconcat [of_nat i] (ts ! i)
      | _ \<Rightarrow> MBranch ts bv)"

fun mdelete :: "mpt \<Rightarrow> bytes \<Rightarrow> mpt \<times> bool" where
  "mdelete MEmpty k = (MEmpty, False)"
| "mdelete (MLeaf p v) k = (if k = p then (MEmpty, True) else (MLeaf p v, False))"
| "mdelete (MExt p c) k =
     (if take (length p) k = p
      then let (c', removed) = mdelete c (drop (length p) k)
           in if removed then (mconcat p c', True) else (MExt p c, False)
      else (MExt p c, False))"
| "mdelete (MBranch ts bv) [] = (if bv = None then (MBranch ts None, False) else (mcollapse ts None, True))"
| "mdelete (MBranch ts bv) (x # k) =
     (let (c', removed) = mdelete (ts ! unat x) k
      in if removed then (mcollapse (ts[unat x := c']) bv, True) else (MBranch ts bv, False))"

section \<open>Canonical trees\<close>

definition nibble_path :: "bytes \<Rightarrow> bool" where
  "nibble_path p \<longleftrightarrow> (\<forall>x\<in>set p. unat x < 16)"

definition value_ok :: "bytes \<Rightarrow> bool" where
  "value_ok v \<longleftrightarrow> v \<noteq> [] \<and> length v < 2 ^ 32"

definition is_MBranch :: "mpt \<Rightarrow> bool" where
  "is_MBranch t = (case t of MBranch _ _ \<Rightarrow> True | _ \<Rightarrow> False)"

definition weight :: "mpt list \<Rightarrow> bytes option \<Rightarrow> nat" where
  "weight ts bv = length (occupied ts) + (if bv = None then 0 else 1)"

fun mwf :: "mpt \<Rightarrow> bool" where
  "mwf MEmpty = True"
| "mwf (MLeaf p v) = (nibble_path p \<and> value_ok v)"
| "mwf (MExt p t) = (p \<noteq> [] \<and> nibble_path p \<and> is_MBranch t \<and> mwf t)"
| "mwf (MBranch ts bv) = (length ts = 16 \<and> (\<forall>t\<in>set ts. mwf t) \<and>
                      (case bv of None \<Rightarrow> True | Some v \<Rightarrow> value_ok v) \<and> 2 \<le> weight ts bv)"

section \<open>Common prefixes\<close>

lemma lcp_le: "lcp k p \<le> length k" "lcp k p \<le> length p"
  by (induction k p rule: lcp.induct) auto

lemma lcp_take: "take (lcp k p) k = take (lcp k p) p"
  by (induction k p rule: lcp.induct) auto

lemma lcp_full: "lcp k p = length p \<longleftrightarrow> take (length p) k = p"
  by (induction k p rule: lcp.induct) auto

lemma lcp_drop_differ:
  "drop (lcp k p) k = x # k' \<Longrightarrow> drop (lcp k p) p = y # p' \<Longrightarrow> x \<noteq> y"
  by (induction k p rule: lcp.induct) (auto split: if_splits)

lemma lcp_split:
  obtains c k' p' where "k = c @ k'" "p = c @ p'" "lcp k p = length c"
    "\<And>x k'' y p''. k' = x # k'' \<Longrightarrow> p' = y # p'' \<Longrightarrow> x \<noteq> y"
proof
  let ?n = "lcp k p"
  show "k = take ?n k @ drop ?n k" by simp
  show "p = take ?n k @ drop ?n p" by (metis append_take_drop_id lcp_take)
  show "?n = length (take ?n k)" using lcp_le [of k p] by simp
  show "x \<noteq> y" if "drop ?n k = x # k''" "drop ?n p = y # p''" for x k'' y p''
    using lcp_drop_differ that by blast
qed

lemma nibble_path_simps [simp]:
  "nibble_path []"
  "nibble_path (x # p) \<longleftrightarrow> unat x < 16 \<and> nibble_path p"
  "nibble_path (p @ q) \<longleftrightarrow> nibble_path p \<and> nibble_path q"
  by (auto simp: nibble_path_def)

lemma nibble_path_take_drop:
  "nibble_path p \<Longrightarrow> nibble_path (take n p)" "nibble_path p \<Longrightarrow> nibble_path (drop n p)"
  by (auto simp: nibble_path_def dest: in_set_takeD in_set_dropD)

lemma take_eq_iff_append: "take (length p) k = p \<longleftrightarrow> (\<exists>k'. k = p @ k')"
  by (metis append_eq_conv_conj append_take_drop_id)

lemma take_eq_iff_append2: "take (length p + length q) k = p @ q \<longleftrightarrow> (\<exists>k'. k = p @ q @ k')"
  using take_eq_iff_append [of "p @ q" k] by simp

section \<open>The operations implement a map\<close>

lemma mlookup_mext: "mlookup (mext p t) k = (if take (length p) k = p then mlookup t (drop (length p) k) else None)"
  by (simp add: mext_def)

lemma mlookup_mext_append [simp]: "mlookup (mext p t) (p @ k) = mlookup t k"
  by (simp add: mlookup_mext)

lemma mlookup_MExt_append [simp]: "mlookup (MExt p t) (p @ k) = mlookup t k"
  by simp

lemma mlookup_MBranch_Cons [simp]:
  "length ts = 16 \<Longrightarrow> mlookup (MBranch ts bv) (x # k) = (if unat x < 16 then mlookup (ts ! unat x) k else None)"
  by simp

declare mlookup.simps(5) [simp del]

lemma unat_eq_byte: "unat (x :: byte) = unat y \<longleftrightarrow> x = y"
  by (simp add: word_unat_eq_iff)

lemma mlookup_mconcat: "mlookup (mconcat p t) k = mlookup (MExt p t) k"
proof (cases t)
  case (MLeaf q v)
  then show ?thesis by (auto simp: take_eq_iff_append)
next
  case (MExt q t')
  have "take (length p + length q) k = p @ q \<longleftrightarrow>
        take (length p) k = p \<and> take (length q) (drop (length p) k) = q"
    using take_eq_iff_append [of "p @ q" k] take_eq_iff_append [of p k]
    by (auto simp: take_eq_iff_append)
  then show ?thesis using MExt by (auto simp: add.commute)
qed simp_all

lemma mlookup_replicate [simp]: "mlookup (MBranch (replicate 16 MEmpty) None) k = None"
  by (cases k) auto

lemma mlookup_place_leaf:
  assumes "length ts = 16" and "nibble_path q" and "place_leaf q v (ts, bv) = (ts', bv')"
  shows "mlookup (MBranch ts' bv') k =
           (if k = q then Some v
            else if q \<noteq> [] \<and> k \<noteq> [] \<and> hd k = hd q then None
            else mlookup (MBranch ts bv) k)"
  using assms
  by (cases k; cases q) (auto simp: place_leaf_def nth_list_update unat_eq_byte)

lemma mlookup_place_ext:
  assumes "length ts = 16" and "nibble_path (x # q)" and "place_ext (x # q) c (ts, bv) = (ts', bv')"
  shows "mlookup (MBranch ts' bv') k =
           (if k \<noteq> [] \<and> hd k = x then mlookup (mext q c) (tl k) else mlookup (MBranch ts bv) k)"
  using assms
  by (cases k) (auto simp: place_ext_def nth_list_update unat_eq_byte)

lemma length_place [simp]:
  "place_leaf q v (ts, bv) = (ts', bv') \<Longrightarrow> length ts' = length ts"
  "place_ext q c (ts, bv) = (ts', bv') \<Longrightarrow> length ts' = length ts"
  by (auto simp: place_leaf_def place_ext_def split: list.splits)

lemma mlookup_mbranch_append:
  "mlookup (mbranch c r) k = (if take (length c) k = c then mlookup (MBranch (fst r) (snd r)) (drop (length c) k) else None)"
  by (simp add: mbranch_def mlookup_mext split: prod.splits)

lemma mbranch_eqI:
  assumes "\<And>s. mlookup (MBranch (fst r) (snd r)) s = f (c @ s)"
    and "\<And>k. take (length c) k \<noteq> c \<Longrightarrow> f k = None"
  shows "mlookup (mbranch c r) k = f k"
  using assms by (auto simp: mlookup_mbranch_append take_eq_iff_append)

lemma mlookup_split_leaf:
  assumes "nibble_path k" "nibble_path p" "k \<noteq> p"
  defines "cp \<equiv> lcp k p"
  shows "mlookup (mbranch (take cp k) (place_leaf (drop cp k) v (place_leaf (drop cp p) w no_children))) k'
         = (if k' = k then Some v else mlookup (MLeaf p w) k')"
proof -
  obtain c q r where k: "k = c @ q" and p: "p = c @ r" and cp: "cp = length c"
    and d: "\<And>x q' y r'. q = x # q' \<Longrightarrow> r = y # r' \<Longrightarrow> x \<noteq> y"
    unfolding cp_def by (rule lcp_split [of k p]) blast
  have np: "nibble_path q" "nibble_path r" using assms k p by auto
  obtain ts bv where 1: "place_leaf r w no_children = (ts, bv)" by fastforce
  obtain ts' bv' where 2: "place_leaf q v (ts, bv) = (ts', bv')" by fastforce
  have l: "length ts = 16" using 1 by (simp add: no_children_def)
  have L1: "mlookup (MBranch ts bv) s = (if s = r then Some w else None)" for s
    using mlookup_place_leaf [OF _ np(2), of "replicate 16 MEmpty" w None ts bv s] 1
    by (auto simp: no_children_def)
  have L2: "mlookup (MBranch ts' bv') s = (if s = q then Some v else if s = r then Some w else None)" for s
    using mlookup_place_leaf [OF l np(1) 2, of s] L1 [of s] d by (cases q; cases r) auto
  have "mlookup (mbranch c (ts', bv')) k' = (if k' = k then Some v else mlookup (MLeaf p w) k')"
    by (rule mbranch_eqI [where f = "\<lambda>k'. if k' = k then Some v else mlookup (MLeaf p w) k'"])
       (auto simp: L2 k p take_eq_iff_append)
  then show ?thesis using 1 2 by (simp add: k p cp)
qed

lemma mlookup_split_ext:
  assumes "nibble_path k" "nibble_path p" "lcp k p \<noteq> length p"
  defines "cp \<equiv> lcp k p"
  shows "mlookup (mbranch (take cp k) (place_leaf (drop cp k) v (place_ext (drop cp p) t no_children))) k'
         = (if k' = k then Some v else mlookup (MExt p t) k')"
proof -
  obtain c q r where k: "k = c @ q" and p: "p = c @ r" and cp: "cp = length c"
    and d: "\<And>x q' y r'. q = x # q' \<Longrightarrow> r = y # r' \<Longrightarrow> x \<noteq> y"
    unfolding cp_def by (rule lcp_split [of k p]) blast
  obtain y r' where r: "r = y # r'" using assms(3) p cp cp_def by (cases r) auto
  have np: "nibble_path q" "nibble_path (y # r')" using assms k p r by auto
  obtain ts bv where 1: "place_ext (y # r') t no_children = (ts, bv)" by fastforce
  obtain ts' bv' where 2: "place_leaf q v (ts, bv) = (ts', bv')" by fastforce
  have l: "length ts = 16" using 1 by (simp add: no_children_def)
  have L1: "mlookup (MBranch ts bv) s = mlookup (MExt r t) s" for s
    using mlookup_place_ext [OF _ np(2), of "replicate 16 MEmpty" t None ts bv s] 1
    by (cases s) (auto simp: no_children_def r mlookup_mext)
  have L2: "mlookup (MBranch ts' bv') s = (if s = q then Some v else mlookup (MExt r t) s)" for s
    using mlookup_place_leaf [OF l np(1) 2, of s] L1 [of s] d
    by (cases q; cases s) (auto simp: r)
  have M: "mlookup (MExt (c @ r) t) (c @ s) = mlookup (MExt r t) s" for s
    by (simp add: take_eq_iff_append)
  have "mlookup (mbranch c (ts', bv')) k' = (if k' = k then Some v else mlookup (MExt p t) k')"
    by (rule mbranch_eqI [where f = "\<lambda>k'. if k' = k then Some v else mlookup (MExt p t) k'"])
       (simp_all only: L2 k p M fst_conv snd_conv same_append_eq,
        auto simp: take_eq_iff_append take_eq_iff_append2)
  then show ?thesis using 1 2 by (simp add: k p cp r)
qed

lemma mlookup_minsert:
  assumes "mwf t" and "nibble_path k"
  shows "mlookup (minsert t k v) k' = (if k' = k then Some v else mlookup t k')"
  using assms
proof (induction t k v arbitrary: k' rule: minsert.induct)
  case (2 p w k v)
  then show ?case
    using mlookup_split_leaf [of k p v w k'] by (auto simp: Let_def)
next
  case (3 p c k v)
  show ?case
  proof (cases "lcp k p = length p")
    case True
    then obtain q where k: "k = p @ q" by (auto simp: lcp_full take_eq_iff_append)
    then have IH: "mlookup (minsert c q v) s = (if s = q then Some v else mlookup c s)" for s
      using 3 True by simp
    then show ?thesis using True by (auto simp: k take_eq_iff_append)
  next
    case False
    then show ?thesis using 3 mlookup_split_ext [of k p v c k'] by (simp add: Let_def)
  qed
next
  case (4 ts bv v)
  then show ?case by (cases k') auto
next
  case (5 ts bv x k v)
  then have x: "unat x < 16" "length ts = 16" by auto
  then have IH: "mlookup (minsert (ts ! unat x) k v) s = (if s = k then Some v else mlookup (ts ! unat x) s)" for s
    using 5 by simp
  show ?case
  proof (cases k')
    case (Cons y s)
    then show ?thesis using x IH by (auto simp: nth_list_update unat_eq_byte)
  qed simp
qed auto

lemma occupied_set: "set (occupied ts) = {i. i < length ts \<and> ts ! i \<noteq> MEmpty}" "distinct (occupied ts)"
  by (auto simp: occupied_def)

lemma length_occupied: "length (occupied ts) = card {i. i < length ts \<and> ts ! i \<noteq> MEmpty}"
  using occupied_set distinct_card by metis

lemma weight_ge2_children:
  assumes "i < length ts" "j < length ts" "i \<noteq> j" "ts ! i \<noteq> MEmpty" "ts ! j \<noteq> MEmpty"
  shows "2 \<le> weight ts bv"
proof -
  have "card {i, j} \<le> card {i. i < length ts \<and> ts ! i \<noteq> MEmpty}"
    using assms by (intro card_mono) auto
  then show ?thesis using assms by (simp add: weight_def length_occupied)
qed

lemma weight_ge2_value:
  assumes "i < length ts" "ts ! i \<noteq> MEmpty" "bv \<noteq> None"
  shows "2 \<le> weight ts bv"
proof -
  have "card {i} \<le> card {i. i < length ts \<and> ts ! i \<noteq> MEmpty}"
    using assms by (intro card_mono) auto
  then show ?thesis using assms by (auto simp: weight_def length_occupied)
qed

lemma weight_mono:
  assumes "t \<noteq> MEmpty" and "bv \<noteq> None \<Longrightarrow> bv' \<noteq> None"
  shows "weight ts bv \<le> weight (ts[x := t]) bv'"
proof -
  have "card {i. i < length ts \<and> ts ! i \<noteq> MEmpty} \<le> card {i. i < length ts \<and> ts[x := t] ! i \<noteq> MEmpty}"
    using assms(1) by (intro card_mono) (auto, metis nth_list_update_eq nth_list_update_neq)
  then show ?thesis using assms(2) by (auto simp: weight_def length_occupied)
qed

lemma mwf_mext: "mwf t \<Longrightarrow> is_MBranch t \<Longrightarrow> nibble_path p \<Longrightarrow> mwf (mext p t)"
  by (simp add: mext_def)

lemma mext_not_empty [simp]: "mext p t \<noteq> MEmpty \<longleftrightarrow> p \<noteq> [] \<or> t \<noteq> MEmpty"
  by (simp add: mext_def)

lemma is_MBranch_simps [simp]:
  "is_MBranch (MBranch ts bv)" "\<not> is_MBranch MEmpty" "\<not> is_MBranch (MLeaf p v)" "\<not> is_MBranch (MExt p t)"
  by (simp_all add: is_MBranch_def)

lemma minsert_not_empty [simp]: "minsert t k v \<noteq> MEmpty"
  by (induction t k v rule: minsert.induct)
     (auto simp: Let_def mbranch_def split: prod.splits)

lemma is_MBranch_minsert: "is_MBranch t \<Longrightarrow> is_MBranch (minsert t k v)"
  by (cases t; cases k) auto

lemma mwf_split_leaf:
  assumes "nibble_path k" "nibble_path p" "k \<noteq> p" "value_ok v" "value_ok w"
  defines "cp \<equiv> lcp k p"
  shows "mwf (mbranch (take cp k) (place_leaf (drop cp k) v (place_leaf (drop cp p) w no_children)))"
proof -
  obtain c q r where k: "k = c @ q" and p: "p = c @ r" and cp: "cp = length c"
    and d: "\<And>x q' y r'. q = x # q' \<Longrightarrow> r = y # r' \<Longrightarrow> x \<noteq> y"
    unfolding cp_def by (rule lcp_split [of k p]) blast
  have "mwf (case place_leaf q v (place_leaf r w no_children) of (ts, bv) \<Rightarrow> MBranch ts bv)"
  proof (cases q)
    case Nil
    then obtain y r' where "r = y # r'" using assms k p by (cases r) auto
    then show ?thesis using assms k p Nil weight_ge2_value [of "unat y"]
      by (auto simp: place_leaf_def no_children_def dest!: set_update_subset_insert [THEN subsetD])
  next
    case (Cons x q')
    show ?thesis
    proof (cases r)
      case Nil
      then show ?thesis using assms k p Cons weight_ge2_value [of "unat x"]
        by (auto simp: place_leaf_def no_children_def dest!: set_update_subset_insert [THEN subsetD])
    next
      case (Cons y r')
      then show ?thesis using assms k p \<open>q = x # q'\<close> d weight_ge2_children [of "unat x" _ "unat y"]
        by (auto simp: place_leaf_def no_children_def unat_eq_byte nth_list_update
                 dest!: set_update_subset_insert [THEN subsetD])
    qed
  qed
  then show ?thesis using assms k p cp
    by (auto simp: mbranch_def split: prod.splits intro!: mwf_mext simp del: mwf.simps)
qed

lemma mwf_split_ext:
  assumes "nibble_path k" "nibble_path p" "lcp k p \<noteq> length p" "value_ok v" "mwf t" "is_MBranch t"
  defines "cp \<equiv> lcp k p"
  shows "mwf (mbranch (take cp k) (place_leaf (drop cp k) v (place_ext (drop cp p) t no_children)))"
proof -
  obtain c q r where k: "k = c @ q" and p: "p = c @ r" and cp: "cp = length c"
    and d: "\<And>x q' y r'. q = x # q' \<Longrightarrow> r = y # r' \<Longrightarrow> x \<noteq> y"
    unfolding cp_def by (rule lcp_split [of k p]) blast
  obtain y r' where r: "r = y # r'" using assms(3) p cp cp_def by (cases r) auto
  have wf: "mwf (mext r' t)" "mext r' t \<noteq> MEmpty" "unat y < 16"
    using assms p r by (auto intro!: mwf_mext)
  have "mwf (case place_leaf q v (place_ext r t no_children) of (ts, bv) \<Rightarrow> MBranch ts bv)"
  proof (cases q)
    case Nil
    then show ?thesis using assms k wf weight_ge2_value [of "unat y"]
      by (auto simp: place_leaf_def place_ext_def no_children_def r
               dest!: set_update_subset_insert [THEN subsetD])
  next
    case (Cons x q')
    then show ?thesis using assms k wf d r weight_ge2_children [of "unat x" _ "unat y"]
      by (auto simp: place_leaf_def place_ext_def no_children_def unat_eq_byte nth_list_update r
               dest!: set_update_subset_insert [THEN subsetD])
  qed
  then show ?thesis using assms k p cp
    by (auto simp: mbranch_def split: prod.splits intro!: mwf_mext simp del: mwf.simps)
qed

lemma mwf_minsert:
  assumes "mwf t" and "nibble_path k" and "value_ok v"
  shows "mwf (minsert t k v)"
  using assms
proof (induction t k v rule: minsert.induct)
  case (2 p w k v)
  then show ?case using mwf_split_leaf [of k p v w] by (auto simp: Let_def)
next
  case (3 p c k v)
  then show ?case
    using mwf_split_ext [of k p v c]
    by (auto simp: Let_def is_MBranch_minsert nibble_path_take_drop simp del: mwf.simps(4))
next
  case (4 ts bv v)
  have "weight ts bv \<le> weight ts (Some v)" by (simp add: weight_def)
  then show ?case using 4 by auto
next
  case (5 ts bv x k v)
  then have "mwf (minsert (ts ! unat x) k v)" by simp
  moreover have "weight ts bv \<le> weight (ts[unat x := minsert (ts ! unat x) k v]) bv"
    by (rule weight_mono) auto
  ultimately show ?case using 5 by (auto dest!: set_update_subset_insert [THEN subsetD])
qed auto

section \<open>Deletion\<close>

lemma occupied_Nil: "occupied ts = [] \<Longrightarrow> i < length ts \<Longrightarrow> ts ! i = MEmpty"
  using occupied_set(1) [of ts] by auto

lemma occupied_single: "occupied ts = [i] \<Longrightarrow> i < length ts \<and> ts ! i \<noteq> MEmpty \<and> (\<forall>j < length ts. j \<noteq> i \<longrightarrow> ts ! j = MEmpty)"
  using occupied_set(1) [of ts] by auto

lemma mcollapse_cases:
  obtains "occupied ts = []" "bv = None" "mcollapse ts bv = MEmpty"
  | v where "occupied ts = []" "bv = Some v" "mcollapse ts bv = MLeaf [] v"
  | i where "occupied ts = [i]" "bv = None" "mcollapse ts bv = mconcat [of_nat i] (ts ! i)"
  | "mcollapse ts bv = MBranch ts bv" "2 \<le> weight ts bv"
proof (cases "occupied ts")
  case Nil
  then show ?thesis using that by (cases bv) (auto simp: mcollapse_def)
next
  case (Cons i js)
  then show ?thesis using that by (cases js; cases bv) (auto simp: mcollapse_def weight_def)
qed

lemma mlookup_mcollapse:
  assumes "length ts = 16"
  shows "mlookup (mcollapse ts bv) k = mlookup (MBranch ts bv) k"
proof (cases rule: mcollapse_cases [of ts bv])
  case 1
  then show ?thesis using assms occupied_Nil [of ts] by (cases k) auto
next
  case (2 v)
  then show ?thesis using assms occupied_Nil [of ts] by (cases k) auto
next
  case (3 i)
  note o = occupied_single [OF 3(1)]
  then have i: "unat (of_nat i :: byte) = i" using assms by simp
  then show ?thesis using 3 o assms
    by (cases k) (auto simp: mlookup_mconcat word_unat_eq_iff)
qed simp

lemma mwf_mconcat: "mwf t \<Longrightarrow> nibble_path p \<Longrightarrow> p \<noteq> [] \<Longrightarrow> mwf (mconcat p t)"
  by (cases t) auto

lemma mwf_mcollapse:
  assumes "length ts = 16" "\<forall>t\<in>set ts. mwf t" "case bv of None \<Rightarrow> True | Some v \<Rightarrow> value_ok v"
  shows "mwf (mcollapse ts bv)"
proof (cases rule: mcollapse_cases [of ts bv])
  case (3 i)
  then show ?thesis using assms occupied_single [OF 3(1)] by (auto intro!: mwf_mconcat)
qed (use assms in auto)

lemma mdelete_correct:
  assumes "mwf t" and "nibble_path k"
  shows "mlookup (fst (mdelete t k)) k' = (if k' = k then None else mlookup t k')"
    and "snd (mdelete t k) \<longleftrightarrow> mlookup t k \<noteq> None"
    and "mwf (fst (mdelete t k))"
proof -
  have "(\<forall>k'. mlookup (fst (mdelete t k)) k' = (if k' = k then None else mlookup t k')) \<and>
        (snd (mdelete t k) \<longleftrightarrow> mlookup t k \<noteq> None) \<and> mwf (fst (mdelete t k)) \<and>
        (\<not> snd (mdelete t k) \<longrightarrow> fst (mdelete t k) = t)"
    using assms
  proof (induction t k rule: mdelete.induct)
    case (3 p c k)
    show ?case
    proof (cases "take (length p) k = p")
      case False
      then show ?thesis using 3 by auto
    next
      case True
      then obtain q where k: "k = p @ q" by (auto simp: take_eq_iff_append)
      obtain c' r where d: "mdelete c q = (c', r)" by fastforce
      have IH: "\<forall>s. mlookup c' s = (if s = q then None else mlookup c s)" "r \<longleftrightarrow> mlookup c q \<noteq> None"
        "mwf c'" using 3 True k d by auto
      then show ?thesis using 3 k d
        by (auto simp: mlookup_mconcat take_eq_iff_append simp del: mconcat.simps intro!: mwf_mconcat)
    qed
  next
    case (4 ts bv)
    then show ?case
      using mwf_mcollapse [of ts None]
      by (auto simp: mlookup_mcollapse) (metis mlookup.simps(4) mlookup_MBranch_Cons neq_Nil_conv)+
  next
    case (5 ts bv x k)
    obtain c' r where d: "mdelete (ts ! unat x) k = (c', r)" by fastforce
    have x: "unat x < 16" "length ts = 16" using 5 by auto
    have IH: "\<forall>s. mlookup c' s = (if s = k then None else mlookup (ts ! unat x) s)"
      "r \<longleftrightarrow> mlookup (ts ! unat x) k \<noteq> None" "mwf c'" using 5 x d by auto
    have "mlookup (MBranch (ts[unat x := c']) bv) s = (if s = x # k then None else mlookup (MBranch ts bv) s)" for s
      using IH x by (cases s) (auto simp: nth_list_update unat_eq_byte)
    moreover have "mwf (mcollapse (ts[unat x := c']) bv)"
      using 5 IH by (intro mwf_mcollapse) (auto dest!: set_update_subset_insert [THEN subsetD])
    ultimately show ?case using 5 x d IH by (auto simp: mlookup_mcollapse)
  qed auto
  then show "mlookup (fst (mdelete t k)) k' = (if k' = k then None else mlookup t k')"
    "snd (mdelete t k) \<longleftrightarrow> mlookup t k \<noteq> None" "mwf (fst (mdelete t k))" by blast+
qed

lemma mdelete_unchanged: "\<not> snd (mdelete t k) \<Longrightarrow> fst (mdelete t k) = t"
  by (induction t k rule: mdelete.induct) (auto split: prod.splits if_splits)

section \<open>A canonical tree is determined by its map\<close>

lemma weight_ge2E:
  assumes "2 \<le> weight ts bv"
  obtains i where "i < length ts" "ts ! i \<noteq> MEmpty" "bv \<noteq> None"
  | i j where "i < length ts" "j < length ts" "i \<noteq> j" "ts ! i \<noteq> MEmpty" "ts ! j \<noteq> MEmpty"
proof (cases bv)
  case None
  then obtain i j js where o: "occupied ts = i # j # js"
    using assms by (cases "occupied ts"; cases "tl (occupied ts)") (auto simp: weight_def)
  then show ?thesis using occupied_set [of ts] that(2) [of i j] by auto
next
  case (Some v)
  then obtain i js where "occupied ts = i # js"
    using assms by (cases "occupied ts") (auto simp: weight_def)
  then show ?thesis using occupied_set [of ts] that(1) [of i] Some by auto
qed

lemma mwf_has_key: "mwf t \<Longrightarrow> t \<noteq> MEmpty \<Longrightarrow> \<exists>k. mlookup t k \<noteq> None"
proof (induction t)
  case (MExt p t)
  then obtain k where "mlookup t k \<noteq> None" by (cases t) auto
  then have "mlookup (MExt p t) (p @ k) \<noteq> None" by simp
  then show ?case by blast
next
  case (MBranch ts bv)
  then have "2 \<le> weight ts bv" and l: "length ts = 16" by auto
  then obtain i where i: "i < 16" "ts ! i \<noteq> MEmpty" by (elim weight_ge2E) auto
  moreover have "ts ! i \<in> set ts" using i l by simp
  ultimately obtain k where "mlookup (ts ! i) k \<noteq> None" using MBranch by fastforce
  then have "mlookup (MBranch ts bv) (of_nat i # k) \<noteq> None" using i l by simp
  then show ?case by blast
qed auto

lemma branch_two_keys:
  assumes "mwf (MBranch ts bv)"
  obtains k1 k2 where "mlookup (MBranch ts bv) k1 \<noteq> None" "mlookup (MBranch ts bv) k2 \<noteq> None"
    "k2 \<noteq> []" "k1 = [] \<or> hd k1 \<noteq> hd k2"
proof -
  have l: "length ts = 16" and w: "2 \<le> weight ts bv" using assms by auto
  have key: "\<exists>k. mlookup (MBranch ts bv) (of_nat i # k) \<noteq> None" if "i < length ts" "ts ! i \<noteq> MEmpty" for i
    using that assms l mwf_has_key [of "ts ! i"] by simp
  from w show ?thesis
  proof (cases rule: weight_ge2E)
    case (1 i)
    then obtain k where "mlookup (MBranch ts bv) (of_nat i # k) \<noteq> None" using key by blast
    then show ?thesis using that [of "[]" "of_nat i # k"] 1 by simp
  next
    case (2 i j)
    have ne: "(of_nat i :: byte) \<noteq> of_nat j"
    proof
      assume "(of_nat i :: byte) = of_nat j"
      then have "unat (of_nat i :: byte) = unat (of_nat j :: byte)" by (rule arg_cong)
      then show False using 2 l by simp
    qed
    obtain k k' where "mlookup (MBranch ts bv) (of_nat i # k) \<noteq> None"
      "mlookup (MBranch ts bv) (of_nat j # k') \<noteq> None"
      using key [of i] key [of j] 2 by blast
    then show ?thesis using that [of "of_nat i # k" "of_nat j # k'"] ne by simp
  qed
qed

lemma branch_no_common_prefix:
  assumes "mwf t" "is_MBranch t" "\<And>k. mlookup t k \<noteq> None \<Longrightarrow> take (length r) k = r"
  shows "r = []"
proof (rule ccontr)
  assume "r \<noteq> []"
  obtain ts bv where t: "t = MBranch ts bv" using assms(2) by (cases t) auto
  obtain k1 k2 where "mlookup t k1 \<noteq> None" "mlookup t k2 \<noteq> None" "k1 = [] \<or> hd k1 \<noteq> hd k2"
    using branch_two_keys [of ts bv] assms(1) t by metis
  moreover have "take (length r) k1 = r" "take (length r) k2 = r" using assms(3) calculation by blast+
  ultimately show False using \<open>r \<noteq> []\<close> by (auto simp: take_eq_iff_append hd_append)
qed

lemma mwf_single_key:
  assumes "mwf t" "\<And>k. mlookup t k \<noteq> None \<longleftrightarrow> k = p"
  shows "\<exists>v. t = MLeaf p v"
proof (cases t)
  case MEmpty
  then show ?thesis using assms(2) [of p] by simp
next
  case (MLeaf q v)
  then show ?thesis using assms(2) [of q] by simp
next
  case (MExt q c)
  then obtain ts bv where c: "c = MBranch ts bv" using assms(1) by (cases c) auto
  obtain k1 k2 where "mlookup c k1 \<noteq> None" "mlookup c k2 \<noteq> None" "k1 = [] \<or> hd k1 \<noteq> hd k2" "k2 \<noteq> []"
    using branch_two_keys [of ts bv] assms(1) MExt c by (metis mwf.simps(3))
  then show ?thesis using assms(2) [of "q @ k1"] assms(2) [of "q @ k2"] MExt by auto
next
  case (MBranch ts bv)
  then show ?thesis using assms branch_two_keys [of ts bv] by (metis)
qed

lemma mpt_canonical_aux:
  "mwf t \<Longrightarrow> mwf u \<Longrightarrow> (\<And>k. mlookup t k = mlookup u k) \<Longrightarrow> t = u"
proof (induction t arbitrary: u)
  case MEmpty
  then show ?case using mwf_has_key [of u] by auto
next
  case (MLeaf p v)
  have "mlookup u k \<noteq> None \<longleftrightarrow> k = p" for k
    using MLeaf(3) [of k, symmetric] by (auto split: if_splits)
  then obtain w where u: "u = MLeaf p w" using mwf_single_key [OF MLeaf(2)] by blast
  then show ?case using MLeaf(3) [of p] by simp
next
  case (MExt p t)
  have t: "mwf t" "is_MBranch t" "p \<noteq> []" using MExt.prems by auto
  have pre: "take (length p) k = p" if "mlookup u k \<noteq> None" for k
    using that MExt.prems(3) [of k] by (auto split: if_splits)
  show ?case
  proof (cases u)
    case u: MEmpty
    then show ?thesis using mwf_has_key [OF MExt.prems(1)] MExt.prems(3) by auto
  next
    case u: (MLeaf q v)
    then have "\<exists>v. MExt p t = MLeaf q v" using MExt.prems by (intro mwf_single_key) auto
    then show ?thesis by simp
  next
    case u: (MExt q c)
    then have c: "mwf c" "is_MBranch c" "q \<noteq> []" using MExt.prems by auto
    have preq: "take (length q) k = q" if "mlookup (MExt p t) k \<noteq> None" for k
      using that MExt.prems(3) [of k] u by (auto split: if_splits)
    have "p = q"
    proof (rule linorder_le_cases [of "length p" "length q"])
      assume "length p \<le> length q"
      obtain k where "mlookup u k \<noteq> None" using mwf_has_key MExt.prems(2) u by blast
      then have "take (length p) k = p" "take (length q) k = q" using pre preq MExt.prems(3) by auto
      then obtain r where q: "q = p @ r" using \<open>length p \<le> length q\<close>
        by (metis append_take_drop_id min.absorb1 take_take)
      have "take (length r) k' = r" if "mlookup t k' \<noteq> None" for k'
        using preq [of "p @ k'"] that q by (simp add: take_eq_iff_append)
      then have "r = []" using branch_no_common_prefix t by blast
      then show ?thesis using q by simp
    next
      assume "length q \<le> length p"
      obtain k where "mlookup u k \<noteq> None" using mwf_has_key MExt.prems(2) u by blast
      then have "take (length p) k = p" "take (length q) k = q" using pre preq MExt.prems(3) by auto
      then obtain r where p: "p = q @ r" using \<open>length q \<le> length p\<close>
        by (metis append_take_drop_id min.absorb1 take_take)
      have "take (length r) k' = r" if "mlookup c k' \<noteq> None" for k'
        using pre [of "q @ k'"] that p u by (simp add: take_eq_iff_append)
      then have "r = []" using branch_no_common_prefix c by blast
      then show ?thesis using p by simp
    qed
    moreover have "t = c"
    proof (rule MExt.IH)
      show "mlookup t k = mlookup c k" for k
        using MExt.prems(3) [of "p @ k"] \<open>p = q\<close> u by simp
    qed (use t c in auto)
    ultimately show ?thesis using u by simp
  next
    case u: (MBranch ts bv)
    then have "p = []" using branch_no_common_prefix [of u p] pre MExt.prems by auto
    then show ?thesis using t by simp
  qed
next
  case (MBranch ts bv)
  have l: "length ts = 16" using MBranch.prems by simp
  show ?case
  proof (cases u)
    case u: MEmpty
    then show ?thesis using mwf_has_key [OF MBranch.prems(1)] MBranch.prems(3) by auto
  next
    case u: (MLeaf q v)
    then have "\<exists>v. MBranch ts bv = MLeaf q v" using MBranch.prems by (intro mwf_single_key) auto
    then show ?thesis by simp
  next
    case u: (MExt q c)
    then have "q = []" using MBranch.prems(1)
      by (rule_tac branch_no_common_prefix [of "MBranch ts bv"]) (auto simp: MBranch.prems(3) split: if_splits)
    then show ?thesis using u MBranch.prems by simp
  next
    case u: (MBranch us cv)
    then have lu: "length us = 16" using MBranch.prems by simp
    have "ts ! i = us ! i" if i: "i < 16" for i
    proof (rule MBranch.IH)
      show "ts ! i \<in> set ts" using i l by simp
      show "mwf (ts ! i)" "mwf (us ! i)" using i l lu MBranch.prems u by auto
      show "mlookup (ts ! i) k = mlookup (us ! i) k" for k
        using MBranch.prems(3) [of "of_nat i # k"] u l lu i by simp
    qed
    then have "ts = us" using l lu by (intro nth_equalityI) auto
    moreover have "bv = cv" using MBranch.prems(3) [of "[]"] u by simp
    ultimately show ?thesis using u by simp
  qed
qed

section \<open>The interface of an authenticated map\<close>

text \<open>What a client of the trie relies on: a lookup sees the last write, and the root is a
  function of the contents.  The consequences a state database uses - batches of writes
  may be reordered, a write followed by its deletion leaves no trace - are proved here
  once.\<close>

locale auth_map =
  fixes inv :: "'s \<Rightarrow> bool" and kok :: "'k \<Rightarrow> bool" and vok :: "'v \<Rightarrow> bool"
    and look :: "'s \<Rightarrow> 'k \<Rightarrow> 'v option" and put :: "'s \<Rightarrow> 'k \<Rightarrow> 'v \<Rightarrow> 's"
    and del :: "'s \<Rightarrow> 'k \<Rightarrow> 's" and rt :: "'s \<Rightarrow> 'h"
  assumes put_inv: "inv s \<Longrightarrow> kok k \<Longrightarrow> vok v \<Longrightarrow> inv (put s k v)"
    and del_inv: "inv s \<Longrightarrow> kok k \<Longrightarrow> inv (del s k)"
    and look_put: "inv s \<Longrightarrow> kok k \<Longrightarrow> vok v \<Longrightarrow> look (put s k v) k' = (if k' = k then Some v else look s k')"
    and look_del: "inv s \<Longrightarrow> kok k \<Longrightarrow> look (del s k) k' = (if k' = k then None else look s k')"
    and rt_look: "inv s \<Longrightarrow> inv t \<Longrightarrow> (\<And>k. look s k = look t k) \<Longrightarrow> rt s = rt t"
begin

lemma put_swap:
  assumes "inv s" "kok a" "kok b" "vok x" "vok y" "a \<noteq> b"
  shows "rt (put (put s a x) b y) = rt (put (put s b y) a x)"
  using assms by (intro rt_look put_inv) (auto simp: look_put put_inv)

lemma put_overwrite:
  assumes "inv s" "kok a" "vok x" "vok y"
  shows "rt (put (put s a x) a y) = rt (put s a y)"
  using assms by (intro rt_look put_inv) (auto simp: look_put put_inv)

lemma put_same:
  assumes "inv s" "kok a" "vok x" "look s a = Some x"
  shows "rt (put s a x) = rt s"
  using assms by (intro rt_look put_inv) (auto simp: look_put)

lemma del_put_fresh:
  assumes "inv s" "kok a" "vok x" "look s a = None"
  shows "rt (del (put s a x) a) = rt s"
  using assms by (intro rt_look del_inv put_inv) (auto simp: look_put look_del put_inv)

lemma puts_look:
  assumes "inv s" "\<And>k v. (k, v) \<in> set ws \<Longrightarrow> kok k \<and> vok v"
  shows "inv (foldl (\<lambda>s (k, v). put s k v) s ws) \<and>
         look (foldl (\<lambda>s (k, v). put s k v) s ws) k = (case map_of (rev ws) k of Some v \<Rightarrow> Some v | None \<Rightarrow> look s k)"
  using assms
proof (induction ws arbitrary: s)
  case (Cons w ws)
  obtain a x where w: "w = (a, x)" by fastforce
  have ok: "kok a" "vok x" using Cons.prems(2) [of a x] w by auto
  then have inv: "inv (put s a x)" using Cons.prems(1) put_inv by blast
  have rest: "kok k \<and> vok v" if "(k, v) \<in> set ws" for k v using Cons.prems(2) [of k v] that by simp
  show ?case using Cons.IH [OF inv rest] Cons.prems(1) ok w
    by (auto simp: map_add_def look_put split: option.splits)
qed simp

lemma puts_order:
  assumes "inv s" "\<And>k v. (k, v) \<in> set ws \<Longrightarrow> kok k \<and> vok v" "\<And>k v. (k, v) \<in> set ws' \<Longrightarrow> kok k \<and> vok v"
    and "map_of (rev ws) = map_of (rev ws')"
  shows "rt (foldl (\<lambda>s (k, v). put s k v) s ws) = rt (foldl (\<lambda>s (k, v). put s k v) s ws')"
  using puts_look [OF assms(1,2)] puts_look [OF assms(1,3)] assms(4) by (intro rt_look) auto

end

interpretation mpt_map: auth_map mwf nibble_path value_ok mlookup minsert "\<lambda>t k. fst (mdelete t k)" f for f :: "mpt \<Rightarrow> 'h"
proof unfold_locales
  show "f s = f t" if "mwf s" "mwf t" "\<And>k. mlookup s k = mlookup t k" for s t
    using mpt_canonical_aux [OF that] by simp
qed (simp_all add: mwf_minsert mdelete_correct mlookup_minsert)

end
