(* ===== verification/Nibbles.thy ===== *)
theory Nibbles
  imports Mpt_Spec
begin

text \<open>
  \<^verbatim>\<open>zbx-trie/src/nibbles.rs\<close>: nibble paths as a vector with an offset, sub-slices,
  concatenation and the hex-prefix encoding.  \<open>nibs\<close> is the sequence a value stands for;
  every operation is characterised on it.
\<close>

section \<open>Operations\<close>

record nibbles =
  inner :: bytes
  offset :: nat

definition from_bytes :: "bytes \<Rightarrow> nibbles" where
  "from_bytes bs = \<lparr>inner = concat (map (\<lambda>b. [drop_bit 4 b, b AND 0x0f]) bs), offset = 0\<rparr>"

definition nib_len :: "nibbles \<Rightarrow> nat" where
  "nib_len n = length (inner n) - offset n"

definition nib_is_empty :: "nibbles \<Rightarrow> bool" where
  "nib_is_empty n \<longleftrightarrow> nib_len n = 0"

definition nib_at :: "nibbles \<Rightarrow> nat \<Rightarrow> ('e, byte) res" where
  "nib_at n i = index_chk (inner n) (offset n + i)"

definition nib_slice :: "nibbles \<Rightarrow> nat \<Rightarrow> nibbles" where
  "nib_slice n i = \<lparr>inner = inner n, offset = offset n + i\<rparr>"

text \<open>Positions below \<open>max\<close> are in range of both vectors.\<close>

definition common_prefix_len :: "nibbles \<Rightarrow> nibbles \<Rightarrow> nat" where
  "common_prefix_len a b =
     length (takeWhile (\<lambda>i. inner a ! (offset a + i) = inner b ! (offset b + i))
                       [0..<min (nib_len a) (nib_len b)])"

definition nib_empty :: nibbles where
  "nib_empty = \<lparr>inner = [], offset = 0\<rparr>"

definition nib_single :: "byte \<Rightarrow> nibbles" where
  "nib_single x = \<lparr>inner = [x AND 0x0f], offset = 0\<rparr>"

definition nib_sub :: "nibbles \<Rightarrow> nat \<Rightarrow> nat \<Rightarrow> ('e, nibbles) res" where
  "nib_sub n start len =
     (let frm = offset n + start;
          upto = min (frm + len) (length (inner n))
      in rbind (slice_chk (inner n) frm upto) (\<lambda>xs. Inr \<lparr>inner = xs, offset = 0\<rparr>))"

definition nib_concat :: "nibbles \<Rightarrow> nibbles \<Rightarrow> nibbles" where
  "nib_concat a b =
     \<lparr>inner = map (\<lambda>i. inner a ! (offset a + i)) [0..<nib_len a] @
              map (\<lambda>i. inner b ! (offset b + i)) [0..<nib_len b],
      offset = 0\<rparr>"

definition encode_compact :: "nibbles \<Rightarrow> bool \<Rightarrow> bytes" where
  "encode_compact n leaf =
     (let len = nib_len n;
          at = (\<lambda>i. inner n ! (offset n + i));
          odd_len = (len mod 2 = 1);
          flag = (if leaf then 0x20 else 0) OR (if odd_len then 0x10 else 0)
      in if odd_len
         then (flag OR at 0) # map (\<lambda>j. push_bit 4 (at (1 + 2 * j)) OR at (2 + 2 * j)) [0..<(len - 1) div 2]
         else flag # map (\<lambda>j. push_bit 4 (at (2 * j)) OR at (2 * j + 1)) [0..<len div 2])"

definition decode_compact :: "bytes \<Rightarrow> ('e, nibbles \<times> bool) res" where
  "decode_compact encoded = (case encoded of
     [] \<Rightarrow> Inl Panic
   | flag # rest \<Rightarrow>
      (let leaf = (flag AND 0x20 \<noteq> 0);
           odd_len = (flag AND 0x10 \<noteq> 0);
           ns = (if odd_len then [flag AND 0x0f] else []) @ concat (map (\<lambda>b. [drop_bit 4 b, b AND 0x0f]) rest)
       in Inr (\<lparr>inner = ns, offset = 0\<rparr>, leaf)))"

section \<open>The sequence of a path\<close>

definition nibs :: "nibbles \<Rightarrow> bytes" where
  "nibs n = drop (offset n) (inner n)"

definition nib_of :: "bytes \<Rightarrow> nibbles" where
  "nib_of p = \<lparr>inner = p, offset = 0\<rparr>"

lemma nibs_nib_of [simp]: "nibs (nib_of p) = p"
  by (simp add: nibs_def nib_of_def)

lemma nib_len_nibs [simp]: "nib_len n = length (nibs n)"
  by (simp add: nib_len_def nibs_def)

lemma nib_at_nibs: "i < length (nibs n) \<Longrightarrow> nib_at n i = Inr (nibs n ! i)"
  by (auto simp: nib_at_def index_chk_def nibs_def)

lemma nibs_slice [simp]: "nibs (nib_slice n i) = drop i (nibs n)"
  by (simp add: nib_slice_def nibs_def add.commute)

lemma nibs_empty [simp]: "nibs nib_empty = []"
  by (simp add: nib_empty_def nibs_def)

lemma nth_inner: "i < length (nibs n) \<Longrightarrow> inner n ! (offset n + i) = nibs n ! i"
  by (simp add: nibs_def)

lemma map_nth_inner: "map (\<lambda>i. inner n ! (offset n + i)) [0..<length (nibs n)] = nibs n"
  by (rule nth_equalityI) (auto simp: nth_inner)

lemma nib_concat_eq: "nib_concat a b = nib_of (nibs a @ nibs b)"
  by (simp add: nib_concat_def nib_of_def map_nth_inner)

lemma nib_sub_eq:
  assumes "start \<le> length (nibs n)" and "offset n \<le> length (inner n)"
  shows "nib_sub n start len = Inr (nib_of (take len (drop start (nibs n))))"
  using assms by (auto simp: nib_sub_def slice_chk_def nib_of_def nibs_def Let_def min_def add.commute)

lemma lcp_takeWhile:
  "length (takeWhile (\<lambda>i. xs ! i = ys ! i) [0..<min (length xs) (length ys)]) = lcp xs ys"
proof (induction xs ys rule: lcp.induct)
  case (1 x xs y ys)
  have "[0..<min (length (x # xs)) (length (y # ys))] = 0 # map Suc [0..<min (length xs) (length ys)]"
    by (simp add: map_Suc_upt upt_conv_Cons del: upt_Suc)
  then show ?case using 1
    by (simp add: takeWhile_map comp_def del: upt_Suc)
qed auto

lemma common_prefix_len_lcp: "common_prefix_len a b = lcp (nibs a) (nibs b)"
proof -
  have "takeWhile (\<lambda>i. inner a ! (offset a + i) = inner b ! (offset b + i)) [0..<min (length (nibs a)) (length (nibs b))]
      = takeWhile (\<lambda>i. nibs a ! i = nibs b ! i) [0..<min (length (nibs a)) (length (nibs b))]"
    by (rule takeWhile_cong) (auto simp: nth_inner)
  then show ?thesis by (simp add: common_prefix_len_def lcp_takeWhile)
qed

lemma nib_is_empty_iff: "nib_is_empty n \<longleftrightarrow> nibs n = []"
  by (simp add: nib_is_empty_def)

section \<open>Nibbles of a byte\<close>

lemma nibble_mask: "(0x0f :: byte) = mask 4"
  by (simp add: mask_eq_exp_minus_1)

lemma nibble_bits:
  assumes "unat (x :: byte) < 16"
  shows "bit x n \<Longrightarrow> n < 4"
proof -
  have "unat (take_bit 4 x) = unat x" using assms by (simp add: unsigned_take_bit_eq take_bit_nat_eq_self)
  then have "take_bit 4 x = x" by (simp add: word_unat_eq_iff)
  then show "bit x n \<Longrightarrow> n < 4" by (metis bit_take_bit_iff)
qed

lemma pack_unpack:
  assumes "unat (a :: byte) < 16" "unat (b :: byte) < 16"
  shows "drop_bit 4 (push_bit 4 a OR b) = a" "(push_bit 4 a OR b) AND 0x0f = b"
  unfolding nibble_mask using nibble_bits [OF assms(1)] nibble_bits [OF assms(2)]
  by (intro bit_eqI; fastforce simp: bit_simps)+

lemma unpack_bounds: "unat (drop_bit 4 (b :: byte)) < 16" "unat (b AND 0x0f :: byte) < 16"
proof -
  have "unat b div 16 < 16" using unat_byte_less [of b] by (simp add: less_mult_imp_div_less)
  then show "unat (drop_bit 4 b) < 16" by (simp add: drop_bit_eq_div unat_div_distrib)
  have "b AND 0x0f \<le> 0x0f" by (rule word_and_le1)
  then show "unat (b AND 0x0f) < 16" by (simp add: word_le_nat_alt)
qed

lemma flag_roundtrip:
  assumes "unat (x :: byte) < 16"
  shows "((if leaf then 0x20 else 0) OR 0x10 OR x) AND 0x20 \<noteq> 0 \<longleftrightarrow> leaf"
    "((if leaf then 0x20 else 0) OR 0x10 OR x) AND 0x10 \<noteq> 0"
    "((if leaf then 0x20 else 0) OR 0x10 OR x) AND 0x0f = x"
proof -
  have flags: "\<not> bit (0x20 :: byte) n" "\<not> bit (0x10 :: byte) n" if "n < 4" for n
    using that by (auto simp: numeral_eq_Suc less_Suc_eq bit_Suc)
  note b = nibble_bits [OF assms]
  have z1: "x AND 0x20 = 0" by (rule bit_eqI) (use b flags in \<open>auto simp: bit_and_iff\<close>)
  have z2: "x AND 0x10 = 0" by (rule bit_eqI) (use b flags in \<open>auto simp: bit_and_iff\<close>)
  have z3: "x AND 0x0f = x" unfolding nibble_mask by (rule bit_eqI) (auto simp: bit_simps dest: b)
  show "((if leaf then 0x20 else 0) OR 0x10 OR x) AND 0x20 \<noteq> 0 \<longleftrightarrow> leaf"
    "((if leaf then 0x20 else 0) OR 0x10 OR x) AND 0x10 \<noteq> 0"
    "((if leaf then 0x20 else 0) OR 0x10 OR x) AND 0x0f = x"
    by (simp_all add: bit.conj_disj_distrib2 z1 z2 z3)
qed

section \<open>Hex-prefix encoding\<close>

lemma concat_pairs:
  "concat (map (\<lambda>j. [f (2 * j), f (2 * j + 1)]) [0..<m]) = map f [0..<2 * m]"
  by (induction m) auto

lemma unpack_pack_map:
  fixes f :: "nat \<Rightarrow> byte"
  assumes "\<And>i. i < 2 * m \<Longrightarrow> unat (f i) < 16"
  shows "concat (map (\<lambda>b. [drop_bit 4 b, b AND 0x0f])
           (map (\<lambda>j. push_bit 4 (f (2 * j)) OR f (2 * j + 1)) [0..<m])) = map f [0..<2 * m]"
proof -
  have "map (\<lambda>b. [drop_bit 4 b, b AND 0x0f]) (map (\<lambda>j. push_bit 4 (f (2 * j)) OR f (2 * j + 1)) [0..<m])
      = map (\<lambda>j. [f (2 * j), f (2 * j + 1)]) [0..<m]"
    using pack_unpack [of "f (2 * j)" "f (2 * j + 1)" for j] assms by simp
  then show ?thesis by (simp only: concat_pairs)
qed

lemma compact_roundtrip:
  assumes "nibble_path (nibs n)"
  shows "decode_compact (encode_compact n leaf) = Inr (nib_of (nibs n), leaf)"
proof -
  define xs where "xs = nibs n"
  have b: "unat (xs ! i) < 16" if "i < length xs" for i
    using assms that by (simp add: nibble_path_def xs_def)
  have at: "inner n ! (offset n + i) = xs ! i" if "i < length xs" for i
    using that by (simp add: xs_def nth_inner)
  show ?thesis
  proof (cases "length xs mod 2 = 1")
    case True
    then obtain m where m: "length xs = 2 * m + 1" by (metis oddE odd_iff_mod_2_eq_one)
    let ?ps = "map (\<lambda>j. push_bit 4 (xs ! (1 + 2 * j)) OR xs ! (1 + (2 * j + 1))) [0..<m]"
    have "map (\<lambda>j. push_bit 4 (inner n ! (offset n + (1 + 2 * j))) OR inner n ! (offset n + (2 + 2 * j))) [0..<m] = ?ps"
    proof (rule map_cong [OF refl])
      fix j assume "j \<in> set [0..<m]"
      moreover have "2 + 2 * j = 1 + (2 * j + 1)" by simp
      ultimately show "push_bit 4 (inner n ! (offset n + (1 + 2 * j))) OR inner n ! (offset n + (2 + 2 * j))
                       = push_bit 4 (xs ! (1 + 2 * j)) OR xs ! (1 + (2 * j + 1))"
        using m at [of "1 + 2 * j"] at [of "1 + (2 * j + 1)"] by simp
    qed
    then have e: "encode_compact n leaf = ((if leaf then 0x20 else 0) OR 0x10 OR xs ! 0) # ?ps"
      using True m at [of 0] by (simp add: encode_compact_def or.assoc flip: xs_def)
    have "concat (map (\<lambda>b. [drop_bit 4 b, b AND 0x0f]) ?ps) = map (\<lambda>i. xs ! (1 + i)) [0..<2 * m]"
      using b m by (intro unpack_pack_map) auto
    moreover have "xs = xs ! 0 # map (\<lambda>i. xs ! (1 + i)) [0..<2 * m]"
      using m by (intro nth_equalityI) (auto simp: nth_Cons' simp del: upt_Suc)
    ultimately show ?thesis
      using b [of 0] m flag_roundtrip [of "xs ! 0" leaf]
      by (simp add: e decode_compact_def nib_of_def flip: xs_def)
  next
    case False
    then obtain m where m: "length xs = 2 * m" by (metis evenE odd_iff_mod_2_eq_one)
    let ?ps = "map (\<lambda>j. push_bit 4 (xs ! (2 * j)) OR xs ! (2 * j + 1)) [0..<m]"
    have "map (\<lambda>j. push_bit 4 (inner n ! (offset n + 2 * j)) OR inner n ! (offset n + (2 * j + 1))) [0..<m] = ?ps"
      using m at by (auto simp del: add_Suc_right)
    then have e: "encode_compact n leaf = (if leaf then 0x20 else 0) # ?ps"
      using m by (simp add: encode_compact_def flip: xs_def)
    have "concat (map (\<lambda>b. [drop_bit 4 b, b AND 0x0f]) ?ps) = map (\<lambda>i. xs ! i) [0..<2 * m]"
      using b m by (intro unpack_pack_map) auto
    moreover have "xs = map (\<lambda>i. xs ! i) [0..<2 * m]"
      using m by (intro nth_equalityI) auto
    ultimately show ?thesis by (simp add: e decode_compact_def nib_of_def flip: xs_def)
  qed
qed

lemma length_encode_compact: "length (encode_compact n leaf) \<le> length (nibs n) + 1"
  by (auto simp: encode_compact_def Let_def)

lemma encode_compact_nonempty [simp]: "encode_compact n leaf \<noteq> []"
  by (simp add: encode_compact_def Let_def)

lemma encode_compact_nib_of: "encode_compact (nib_of (nibs n)) leaf = encode_compact n leaf"
proof -
  have "\<And>i. i < length (nibs n) \<Longrightarrow> inner n ! (offset n + i) = nibs n ! i" by (rule nth_inner)
  then show ?thesis
    by (auto simp: encode_compact_def Let_def nib_of_def nibs_def intro!: map_cong) 
qed

lemma decode_compact_nibbles:
  "decode_compact e = Inr (n, leaf) \<Longrightarrow> nibble_path (nibs n) \<and> offset n = 0"
  by (auto simp: decode_compact_def Let_def nibs_def nibble_path_def unpack_bounds split: list.splits if_splits)

lemma nibs_from_bytes: "length (nibs (from_bytes k)) = 2 * length k" "nibble_path (nibs (from_bytes k))"
  by (induction k) (auto simp: from_bytes_def nibs_def nibble_path_def unpack_bounds)

end
