(* ===== verification/Trie_Node.thy ===== *)
theory Trie_Node
  imports Nibbles Rlp
begin

text \<open>
  \<^verbatim>\<open>zbx-trie/src/node.rs\<close>: trie nodes, child references and the node codec, with inline
  children.  \<open>node_item\<close> is the RLP item a node stands for; \<^verbatim>\<open>encode\<close> writes it and
  \<^verbatim>\<open>decode\<close> reads it back, up to the offset representation of paths.  Formatted error
  messages are kept as the data they print.
\<close>

section \<open>Nodes\<close>

datatype rlp_detail = RlpCause rlp_error | ChildLength nat | SlotLength nat nat | ItemCount nat

datatype trie_error =
    MissingNode bytes
  | RlpDecode rlp_detail
  | RlpEncode string
  | InvalidProof
  | KeyNotFound
  | TDatabase string
  | Inconsistent

datatype trie_node =
    TEmpty
  | Leaf nibbles bytes
  | Extension nibbles node_ref
  | Branch "node_ref list" "bytes option"
and node_ref = RHash bytes | RInline trie_node | REmpty

fun encode_node :: "trie_node \<Rightarrow> ('e, bytes) res"
and append_ref :: "rlp_stream \<Rightarrow> node_ref \<Rightarrow> ('e, rlp_stream) res"
and append_refs :: "rlp_stream \<Rightarrow> node_ref list \<Rightarrow> ('e, rlp_stream) res" where
  "encode_node TEmpty = Inr [0x80]"
| "encode_node (Leaf partial v) =
     rlp_out (rlp_append (rlp_append (rlp_new_list 2) (encode_compact partial True)) v)"
| "encode_node (Extension partial child) =
     rbind (append_ref (rlp_append (rlp_new_list 2) (encode_compact partial False)) child) rlp_out"
| "encode_node (Branch children v) =
     rbind (append_refs (rlp_new_list 17) children) (\<lambda>s.
       rlp_out (case v of Some x \<Rightarrow> rlp_append s x | None \<Rightarrow> rlp_append s []))"
| "append_ref s (RHash h) = Inr (rlp_append s h)"
| "append_ref s (RInline n) = rbind (encode_node n) (\<lambda>b. Inr (rlp_append_raw s b))"
| "append_ref s REmpty = Inr (rlp_append s [])"
| "append_refs s [] = Inr s"
| "append_refs s (c # cs) = rbind (append_ref s c) (\<lambda>t. append_refs t cs)"

function decode_node :: "bytes \<Rightarrow> (trie_error, trie_node) res" where
  "decode_node bs =
     rbind (map_err (RlpDecode \<circ> RlpCause) (item_count bs)) (\<lambda>count.
     if count = 0 then Inr TEmpty
     else if count = 2 then
       rbind (map_err (RlpDecode \<circ> RlpCause) (val_at_bytes bs 0)) (\<lambda>path_bytes.
       rbind (decode_compact path_bytes) (\<lambda>(partial, is_leaf).
       if is_leaf then
         rbind (map_err (RlpDecode \<circ> RlpCause) (val_at_bytes bs 1)) (\<lambda>v. Inr (Leaf partial v))
       else
         rbind (map_err (RlpDecode \<circ> RlpCause) (rlp_at bs 1)) (\<lambda>child_rlp.
         rbind
           (if is_list child_rlp then rbind (decode_node child_rlp) (\<lambda>n. Inr (RInline n))
            else rbind (map_err (RlpDecode \<circ> RlpCause) (as_bytes child_rlp)) (\<lambda>child_bytes.
                 if child_bytes = [] then Inr REmpty
                 else if length child_bytes = 32 then Inr (RHash child_bytes)
                 else Inl (Err (RlpDecode (ChildLength (length child_bytes))))))
           (\<lambda>child. Inr (Extension partial child)))))
     else if count = 17 then
       rbind (mapM_res (\<lambda>i.
         rbind (map_err (RlpDecode \<circ> RlpCause) (rlp_at bs i)) (\<lambda>child_rlp.
           if is_list child_rlp then rbind (decode_node child_rlp) (\<lambda>n. Inr (RInline n))
           else rbind (map_err (RlpDecode \<circ> RlpCause) (as_bytes child_rlp)) (\<lambda>raw.
                if raw = [] then Inr REmpty
                else if length raw = 32 then Inr (RHash raw)
                else Inl (Err (RlpDecode (SlotLength i (length raw)))))))
         [0..<16]) (\<lambda>children.
       rbind (map_err (RlpDecode \<circ> RlpCause) (val_at_bytes bs 16)) (\<lambda>val_bytes.
       Inr (Branch children (if val_bytes = [] then None else Some val_bytes))))
     else Inl (Err (RlpDecode (ItemCount count))))"
  by pat_completeness auto
termination
  by (relation "measure length") (auto dest: rlp_at_shorter)

declare decode_node.simps [simp del]

section \<open>The item of a node\<close>

fun node_item :: "trie_node \<Rightarrow> rlp_item"
and ref_item :: "node_ref \<Rightarrow> rlp_item" where
  "node_item TEmpty = RStr []"
| "node_item (Leaf p v) = RList [RStr (encode_compact p True), RStr v]"
| "node_item (Extension p c) = RList [RStr (encode_compact p False), ref_item c]"
| "node_item (Branch cs v) =
     RList (map ref_item cs @ [RStr (case v of None \<Rightarrow> [] | Some x \<Rightarrow> x)])"
| "ref_item (RHash h) = RStr h"
| "ref_item (RInline n) = node_item n"
| "ref_item REmpty = RStr []"

definition node_bytes :: "trie_node \<Rightarrow> bytes" where
  "node_bytes n = rlp_enc (node_item n)"

fun ok_node :: "trie_node \<Rightarrow> bool"
and ok_ref :: "node_ref \<Rightarrow> bool" where
  "ok_node TEmpty = True"
| "ok_node (Leaf p v) = nibble_path (nibs p)"
| "ok_node (Extension p c) = (nibble_path (nibs p) \<and> ok_ref c)"
| "ok_node (Branch cs v) = (length cs = 16 \<and> list_all ok_ref cs \<and> v \<noteq> Some [])"
| "ok_ref (RHash h) = (length h = 32)"
| "ok_ref (RInline n) = (n \<noteq> TEmpty \<and> ok_node n)"
| "ok_ref REmpty = True"

fun norm_node :: "trie_node \<Rightarrow> trie_node"
and norm_ref :: "node_ref \<Rightarrow> node_ref" where
  "norm_node TEmpty = TEmpty"
| "norm_node (Leaf p v) = Leaf (nib_of (nibs p)) v"
| "norm_node (Extension p c) = Extension (nib_of (nibs p)) (norm_ref c)"
| "norm_node (Branch cs v) = Branch (map norm_ref cs) v"
| "norm_ref (RHash h) = RHash h"
| "norm_ref (RInline n) = RInline (norm_node n)"
| "norm_ref REmpty = REmpty"

section \<open>Encoding writes the item\<close>

lemma rlp_out_list:
  assumes "length content < usize_max"
  shows "rlp_out \<lparr>buf = replicate 9 0 @ content, list_stack = [0]\<rparr>
         = Inr (rlp_header 0xc0 0xf7 (length content) @ content)"
  by (subst rlp_out.simps) (simp add: finalize_list [OF assms, of "[]" "[]", simplified] rlp_out.simps)

lemma rlp_new_list_eq: "rlp_new_list n = \<lparr>buf = replicate 9 0, list_stack = [0]\<rparr>"
  by (simp add: rlp_new_list_def begin_list_def rlp_new_def)

lemma rlp_append_eq:
  "length (enc_str d) < usize_max \<Longrightarrow> rlp_append s d = s\<lparr>buf := buf s @ enc_str d\<rparr>"
  using length_enc_str_ge [of d] by (simp add: rlp_append_def buf_encode_string)

lemma append_refs_eq:
  assumes "\<And>c s. c \<in> set cs \<Longrightarrow> length (rlp_enc (ref_item c)) < usize_max \<Longrightarrow>
             append_ref s c = (Inr (s\<lparr>buf := buf s @ rlp_enc (ref_item c)\<rparr>) :: ('e, rlp_stream) res)"
    and "length (concat (map (\<lambda>c. rlp_enc (ref_item c)) cs)) < usize_max"
  shows "append_refs s cs = (Inr (s\<lparr>buf := buf s @ concat (map (\<lambda>c. rlp_enc (ref_item c)) cs)\<rparr>) :: ('e, rlp_stream) res)"
  using assms by (induction cs arbitrary: s) auto

lemma encode_node_item_aux:
  "length (rlp_enc (node_item n)) < usize_max \<Longrightarrow> encode_node n = (Inr (rlp_enc (node_item n)) :: ('e, bytes) res)"
  "length (rlp_enc (ref_item r)) < usize_max \<Longrightarrow>
     append_ref s r = (Inr (s\<lparr>buf := buf s @ rlp_enc (ref_item r)\<rparr>) :: ('e, rlp_stream) res)"
proof (induction n and r arbitrary: and s)
  case TEmpty
  then show ?case by (simp add: enc_str_def rlp_header_def)
next
  case (Leaf p v)
  then show ?case
    by (simp add: rlp_new_list_eq rlp_append_eq Let_def rlp_out_list)
next
  case (Extension p c)
  then show ?case
    by (simp add: rlp_new_list_eq rlp_append_eq Let_def rlp_out_list)
next
  case (Branch cs v)
  let ?p = "concat (map (\<lambda>c. rlp_enc (ref_item c)) cs)"
  let ?v = "case v of None \<Rightarrow> [] | Some x \<Rightarrow> x"
  have small: "length ?p + length (enc_str ?v) < usize_max"
    using Branch.prems by (simp add: Let_def comp_def)
  have "append_refs (rlp_new_list 17) cs
        = (Inr ((rlp_new_list 17)\<lparr>buf := buf (rlp_new_list 17) @ ?p\<rparr>) :: ('e, rlp_stream) res)"
    by (rule append_refs_eq) (use Branch.IH small in auto)
  then show ?case
    using small
    by (cases v) (simp_all add: rlp_new_list_eq rlp_append_eq Let_def comp_def rlp_out_list)
next
  case (RHash h)
  then show ?case by (simp add: rlp_append_eq)
next
  case (RInline n)
  then show ?case by (simp add: rlp_append_raw_def)
next
  case REmpty
  then show ?case by (simp add: rlp_append_eq)
qed

lemma encode_node_bytes:
  "length (node_bytes n) < usize_max \<Longrightarrow> encode_node n = Inr (node_bytes n)"
  by (simp add: node_bytes_def encode_node_item_aux(1))

section \<open>Decoding reads it back\<close>

lemma val_at_bytes_enc:
  assumes "length (rlp_enc (RList xs)) < usize_max" and "i < length xs" and "xs ! i = RStr d"
  shows "val_at_bytes (rlp_enc (RList xs)) i = Inr d"
proof -
  have "length (enc_str d) < usize_max"
    using length_rlp_enc_nth_le [OF assms(2)] assms by simp
  then show ?thesis
    using assms by (simp add: val_at_bytes_def rlp_at_enc_list as_bytes_enc_str del: rlp_enc.simps(2))
qed

text \<open>What \<^verbatim>\<open>decode\<close> makes of the item in a child slot.\<close>

definition slot_ref :: "node_ref \<Rightarrow> bool" where
  "slot_ref r \<longleftrightarrow> (case r of
     RInline n \<Rightarrow> is_list (rlp_enc (node_item n)) \<and> decode_node (rlp_enc (node_item n)) = Inr (norm_node n)
   | _ \<Rightarrow> True)"

lemma node_item_is_list:
  assumes "n \<noteq> TEmpty" and "length (rlp_enc (node_item n)) < usize_max"
  shows "is_list (rlp_enc (node_item n))"
  using assms by (cases n) (simp_all add: enc_list_head(3) del: rlp_enc.simps)

lemma decode_slot:
  assumes small: "length (rlp_enc (ref_item r)) < usize_max" and ok: "ok_ref r" and slot: "slot_ref r"
  shows "(if is_list (rlp_enc (ref_item r)) then rbind (decode_node (rlp_enc (ref_item r))) (\<lambda>n. Inr (RInline n))
          else rbind (map_err f (as_bytes (rlp_enc (ref_item r)))) (\<lambda>raw.
                if raw = [] then Inr REmpty else if length raw = 32 then Inr (RHash raw) else g raw))
         = Inr (norm_ref r)"
proof (cases r)
  case (RHash h)
  moreover have "h \<noteq> []" using ok RHash by auto
  ultimately show ?thesis using small ok by (simp add: enc_str_head as_bytes_enc_str)
next
  case (RInline n)
  then show ?thesis using slot by (simp add: slot_ref_def)
next
  case REmpty
  then show ?thesis using small by (simp add: enc_str_head as_bytes_enc_str)
qed

lemma decode_encode_aux:
  "ok_node n \<Longrightarrow> length (rlp_enc (node_item n)) < usize_max \<Longrightarrow>
     decode_node (rlp_enc (node_item n)) = Inr (norm_node n)"
  "ok_ref r \<Longrightarrow> length (rlp_enc (ref_item r)) < usize_max \<Longrightarrow> slot_ref r"
proof (induction n and r)
  case TEmpty
  have "item_count (rlp_enc (RStr [])) = Inr 0"
    using item_count_enc_str [of "[]"] TEmpty by simp
  then show ?case by (simp add: decode_node.simps)
next
  case (Leaf p v)
  let ?xs = "[RStr (encode_compact p True), RStr v]"
  have small: "length (rlp_enc (RList ?xs)) < usize_max" using Leaf.prems by simp
  show ?case
    using Leaf.prems item_count_enc_list [OF small]
      val_at_bytes_enc [OF small, of 0] val_at_bytes_enc [OF small, of 1]
    by (subst decode_node.simps) (simp add: compact_roundtrip del: rlp_enc.simps)
next
  case (Extension p c)
  let ?xs = "[RStr (encode_compact p False), ref_item c]"
  have small: "length (rlp_enc (RList ?xs)) < usize_max" using Extension.prems by simp
  have smallc: "length (rlp_enc (ref_item c)) < usize_max"
    using length_rlp_enc_nth_le [of 1 ?xs] small by simp
  have "rlp_at (rlp_enc (RList ?xs)) 1 = Inr (rlp_enc (ref_item c))"
    using rlp_at_enc_list [OF small, of 1] by simp
  then show ?case
    using Extension smallc item_count_enc_list [OF small]
      val_at_bytes_enc [OF small, of 0] 
    by (subst decode_node.simps) (simp add: compact_roundtrip decode_slot [OF smallc] del: rlp_enc.simps)
next
  case (Branch cs v)
  let ?v = "case v of None \<Rightarrow> [] | Some x \<Rightarrow> x"
  let ?xs = "map ref_item cs @ [RStr ?v]"
  have small: "length (rlp_enc (RList ?xs)) < usize_max" using Branch.prems by simp
  have l: "length cs = 16" using Branch.prems by simp
  have at: "rlp_at (rlp_enc (RList ?xs)) i = Inr (rlp_enc (ref_item (cs ! i)))"
    "length (rlp_enc (ref_item (cs ! i))) < usize_max" "ok_ref (cs ! i)" "slot_ref (cs ! i)"
    if i: "i < 16" for i
  proof -
    show "rlp_at (rlp_enc (RList ?xs)) i = Inr (rlp_enc (ref_item (cs ! i)))"
      using rlp_at_enc_list [OF small, of i] i l by (simp add: nth_append del: rlp_enc.simps)
    show len: "length (rlp_enc (ref_item (cs ! i))) < usize_max"
      using length_rlp_enc_nth_le [of i ?xs] small i l by (simp add: nth_append del: rlp_enc.simps)
    show ok: "ok_ref (cs ! i)" using Branch.prems i l by (simp add: list_all_length)
    show "slot_ref (cs ! i)" by (rule Branch.IH) (use i l len ok in auto)
  qed
  have kids: "mapM_res (\<lambda>i.
         rbind (map_err (RlpDecode \<circ> RlpCause) (rlp_at (rlp_enc (RList ?xs)) i)) (\<lambda>child_rlp.
           if is_list child_rlp then rbind (decode_node child_rlp) (\<lambda>n. Inr (RInline n))
           else rbind (map_err (RlpDecode \<circ> RlpCause) (as_bytes child_rlp)) (\<lambda>raw.
                if raw = [] then Inr REmpty
                else if length raw = 32 then Inr (RHash raw)
                else Inl (Err (RlpDecode (SlotLength i (length raw)))))))
         [0..<16] = Inr (map (\<lambda>i. norm_ref (cs ! i)) [0..<16])"
    by (rule mapM_res_map) (simp add: at decode_slot del: rlp_enc.simps)
  have "map (\<lambda>i. norm_ref (cs ! i)) [0..<16] = map norm_ref cs"
    using l by (intro nth_equalityI) auto
  moreover have "val_at_bytes (rlp_enc (RList ?xs)) 16 = Inr ?v"
    using val_at_bytes_enc [OF small, of 16] l by (simp add: nth_append del: rlp_enc.simps)
  ultimately show ?case
    using kids item_count_enc_list [OF small] l Branch.prems
    by (subst decode_node.simps) (auto simp del: rlp_enc.simps split: option.splits)
next
  case (RInline n)
  then show ?case using node_item_is_list [of n] by (simp add: slot_ref_def)
qed (simp_all add: slot_ref_def)

lemma decode_node_bytes:
  "ok_node n \<Longrightarrow> length (node_bytes n) < usize_max \<Longrightarrow> decode_node (node_bytes n) = Inr (norm_node n)"
  by (simp add: node_bytes_def decode_encode_aux(1))

section \<open>Properties\<close>

lemma decode_empty_path: "decode_node [0xc2, 0x80, 0x80] = Inl Panic"
  by code_simp

text \<open>C20. The node codec is a round trip: a valid node - paths of nibbles, sixteen children, 32-byte
  hashes, inline children that are not empty, no empty branch value - is encoded without
  failure and decodes to itself, up to the offset representation of its paths.  On other bytes the
  decoder is not total: a two-item list with an empty path makes \<^verbatim>\<open>decode_compact\<close>'s assertion fail, so
  \<^verbatim>\<open>TrieNode::decode\<close> panics on three bytes instead of returning an error.\<close>

theorem node_codec_roundtrip:
  assumes "ok_node n" and "length (node_bytes n) < usize_max"
  shows "rbind (encode_node n) decode_node = Inr (norm_node n) \<and> decode_node [0xc2, 0x80, 0x80] = Inl Panic"
  using assms decode_empty_path by (simp add: encode_node_bytes decode_node_bytes)

theorem node_codec_roundtrip_witness:
  "rbind (encode_node (Extension \<lparr>inner = [0, 1, 2], offset = 1\<rparr> (RInline (Leaf (nib_of [3]) [7])))) decode_node
   = Inr (Extension (nib_of [1, 2]) (RInline (Leaf (nib_of [3]) [7])))"
proof -
  let ?n = "Extension \<lparr>inner = [0, 1, 2], offset = 1\<rparr> (RInline (Leaf (nib_of [3]) [7]))"
  have "ok_node ?n" by (simp add: nibs_def nib_of_def)
  moreover have "length (node_bytes ?n) = 7" by code_simp
  then have "length (node_bytes ?n) < usize_max" by (simp add: usize_max_def)
  ultimately have "rbind (encode_node ?n) decode_node = Inr (norm_node ?n)" using node_codec_roundtrip [of ?n] by blast
  then show ?thesis by (simp add: nibs_def nib_of_def)
qed

end
