(* ===== verification/Trie.thy ===== *)
theory Trie
  imports Trie_Node
begin

text \<open>
  \<^verbatim>\<open>zbx-trie/src/trie.rs\<close> and \<^verbatim>\<open>proof.rs\<close>: the mutable hash-linked trie over a node database, Merkle
  proofs and their verification.  Keccak-256 is the parameter \<open>H\<close>.  The node cache and
  the database (\<^verbatim>\<open>MemoryTrieDB\<close>) are association lists with the newest entry first, so a
  \<^verbatim>\<open>HashMap\<close> insertion is a cons and a lookup finds the latest value.  The recursive
  methods carry a recursion bound; the refinement lemmas show that one more than the
  number of remaining nibbles is enough on every trie the operations build.
\<close>

section \<open>State\<close>

definition EMPTY_ROOT :: bytes where
  "EMPTY_ROOT =
    [0x56, 0xe8, 0x1f, 0x17, 0x1b, 0xcc, 0x55, 0xa6, 0xff, 0x83, 0x45, 0xe6, 0x92, 0xc0, 0xf8, 0x6e,
     0x5b, 0x48, 0xe0, 0x1b, 0x99, 0x6c, 0xad, 0xc0, 0x01, 0x62, 0x2f, 0xb5, 0xe3, 0x63, 0xb4, 0x21]"

definition h256_from_slice :: "bytes \<Rightarrow> ('e, bytes) res" where
  "h256_from_slice bs = (if length bs = 32 then Inr bs else Inl Panic)"

type_synonym trie_db = "(bytes \<times> bytes) list"

record mutable_trie =
  root :: bytes
  db :: trie_db
  cache :: trie_db

definition db_get :: "trie_db \<Rightarrow> bytes \<Rightarrow> bytes option" where
  "db_get d h = map_of d h"

definition db_insert :: "trie_db \<Rightarrow> bytes \<Rightarrow> bytes \<Rightarrow> trie_db" where
  "db_insert d h b = (h, b) # d"

definition db_contains :: "trie_db \<Rightarrow> bytes \<Rightarrow> bool" where
  "db_contains d h \<longleftrightarrow> map_of d h \<noteq> None"

definition trie_new :: "trie_db \<Rightarrow> mutable_trie" where
  "trie_new d = \<lparr>root = EMPTY_ROOT, db = d, cache = []\<rparr>"

definition from_root :: "bytes \<Rightarrow> trie_db \<Rightarrow> mutable_trie" where
  "from_root r d = \<lparr>root = r, db = d, cache = []\<rparr>"

type_synonym 'a trie_m = "(mutable_trie, trie_error, 'a) st"

section \<open>Nodes in the store\<close>

definition store_node :: "(bytes \<Rightarrow> bytes) \<Rightarrow> trie_node \<Rightarrow> node_ref trie_m" where
  "store_node H node =
     sbind (slift (encode_node node)) (\<lambda>encoded.
     if length encoded < 32 then sret (RInline node)
     else sbind (slift (h256_from_slice (H encoded))) (\<lambda>hash.
          sbind (smod (\<lambda>s. s\<lparr>cache := (hash, encoded) # cache s\<rparr>)) (\<lambda>_.
          sret (RHash hash))))"

definition fetch :: "mutable_trie \<Rightarrow> bytes \<Rightarrow> bytes option" where
  "fetch s h = (case map_of (cache s) h of Some b \<Rightarrow> Some b | None \<Rightarrow> db_get (db s) h)"

definition resolve :: "mutable_trie \<Rightarrow> node_ref \<Rightarrow> (trie_error, trie_node) res" where
  "resolve s r = (case r of
     REmpty \<Rightarrow> Inr TEmpty
   | RInline n \<Rightarrow> Inr n
   | RHash h \<Rightarrow>
      if h = EMPTY_ROOT then Inr TEmpty
      else rbind (ok_or (MissingNode h) (fetch s h)) decode_node)"

definition sresolve :: "node_ref \<Rightarrow> trie_node trie_m" where
  "sresolve r s = (resolve s r, s)"

definition commit_root :: "(bytes \<Rightarrow> bytes) \<Rightarrow> trie_node \<Rightarrow> bytes trie_m" where
  "commit_root H node =
     (if node = TEmpty then sret EMPTY_ROOT
      else sbind (slift (encode_node node)) (\<lambda>encoded.
           sbind (slift (h256_from_slice (H encoded))) (\<lambda>hash.
           sbind (smod (\<lambda>s. s\<lparr>cache := (hash, encoded) # cache s\<rparr>)) (\<lambda>_.
           sret hash))))"

text \<open>Assignment to an array element.\<close>

definition set_chk :: "'a list \<Rightarrow> nat \<Rightarrow> 'a \<Rightarrow> ('e, 'a list) res" where
  "set_chk xs i x = (if i < length xs then Inr (xs[i := x]) else Inl Panic)"

definition empty_children :: "node_ref list" where
  "empty_children = replicate 16 REmpty"

section \<open>Insertion\<close>

text \<open>The tail shared by both splits of \<^verbatim>\<open>insert_node\<close>: the new key goes into the branch, and a
  non-empty common prefix becomes an extension above it.\<close>

definition place_new_key ::
  "(bytes \<Rightarrow> bytes) \<Rightarrow> nibbles \<Rightarrow> nat \<Rightarrow> bytes \<Rightarrow> node_ref list \<Rightarrow> bytes option \<Rightarrow>
   (node_ref list \<times> bytes option) trie_m" where
  "place_new_key H key_remaining cp v children branch_value =
     (if cp = nib_len key_remaining then sret (children, Some v)
      else
        sbind (slift (nib_at key_remaining cp)) (\<lambda>new_nibble.
        sbind (slift (nib_sub key_remaining (cp + 1) (nib_len key_remaining - cp - 1))) (\<lambda>p.
        sbind (store_node H (Leaf p v)) (\<lambda>r.
        sbind (slift (set_chk children (unat new_nibble) r)) (\<lambda>children'.
        sret (children', branch_value))))))"

definition wrap_branch ::
  "(bytes \<Rightarrow> bytes) \<Rightarrow> nibbles \<Rightarrow> nat \<Rightarrow> node_ref list \<Rightarrow> bytes option \<Rightarrow> trie_node trie_m" where
  "wrap_branch H key_remaining cp children branch_value =
     (let branch = Branch children branch_value in
      if cp > 0 then
        sbind (slift (nib_sub key_remaining 0 cp)) (\<lambda>p.
        sbind (store_node H branch) (\<lambda>r.
        sret (Extension p r)))
      else sret branch)"

definition place_old_leaf ::
  "(bytes \<Rightarrow> bytes) \<Rightarrow> nibbles \<Rightarrow> nat \<Rightarrow> bytes \<Rightarrow> (node_ref list \<times> bytes option) trie_m" where
  "place_old_leaf H partial cp old_val =
     (if cp = nib_len partial then sret (empty_children, Some old_val)
      else
        sbind (slift (nib_at partial cp)) (\<lambda>old_nibble.
        sbind (slift (nib_sub partial (cp + 1) (nib_len partial - cp - 1))) (\<lambda>p.
        sbind (store_node H (Leaf p old_val)) (\<lambda>r.
        sbind (slift (set_chk empty_children (unat old_nibble) r)) (\<lambda>children.
        sret (children, None))))))"

definition place_old_child ::
  "(bytes \<Rightarrow> bytes) \<Rightarrow> nibbles \<Rightarrow> nat \<Rightarrow> node_ref \<Rightarrow> node_ref list trie_m" where
  "place_old_child H partial cp child =
     sbind (slift (nib_at partial cp)) (\<lambda>ext_nibble.
     sbind (if cp + 1 < nib_len partial
            then slift (nib_sub partial (cp + 1) (nib_len partial - cp - 1))
            else sret nib_empty) (\<lambda>ext_remaining.
     sbind (if nib_is_empty ext_remaining then sret child
            else store_node H (Extension ext_remaining child)) (\<lambda>ext_branch_child.
     slift (set_chk empty_children (unat ext_nibble) ext_branch_child))))"

fun insert_node ::
  "(bytes \<Rightarrow> bytes) \<Rightarrow> nat \<Rightarrow> trie_node \<Rightarrow> nibbles \<Rightarrow> nat \<Rightarrow> bytes \<Rightarrow> trie_node trie_m" where
  "insert_node H 0 node key depth v = sfail OutOfFuel"
| "insert_node H (Suc fuel) node key depth v =
     (let key_remaining = nib_slice key depth in
      case node of
        TEmpty \<Rightarrow> sret (Leaf key_remaining v)
      | Leaf partial old_val \<Rightarrow>
         (let cp = common_prefix_len key_remaining partial in
          if cp = nib_len partial \<and> cp = nib_len key_remaining then sret (Leaf partial v)
          else
            sbind (place_old_leaf H partial cp old_val) (\<lambda>(children, branch_value).
            sbind (place_new_key H key_remaining cp v children branch_value) (\<lambda>(children', branch_value').
            wrap_branch H key_remaining cp children' branch_value')))
      | Extension partial child \<Rightarrow>
         (let cp = common_prefix_len key_remaining partial in
          if cp = nib_len partial then
            sbind (sresolve child) (\<lambda>child_node.
            sbind (insert_node H fuel child_node key (depth + cp) v) (\<lambda>new_child.
            sbind (store_node H new_child) (\<lambda>r.
            sret (Extension partial r))))
          else
            sbind (place_old_child H partial cp child) (\<lambda>children.
            sbind (place_new_key H key_remaining cp v children None) (\<lambda>(children', branch_value').
            wrap_branch H key_remaining cp children' branch_value')))
      | Branch children branch_val \<Rightarrow>
          if depth = nib_len key then sret (Branch children (Some v))
          else
            sbind (slift (nib_at key depth)) (\<lambda>idx.
            sbind (slift (index_chk children (unat idx))) (\<lambda>r.
            sbind (sresolve r) (\<lambda>child_node.
            sbind (insert_node H fuel child_node key (depth + 1) v) (\<lambda>new_child.
            sbind (store_node H new_child) (\<lambda>r'.
            sbind (slift (set_chk children (unat idx) r')) (\<lambda>children'.
            sret (Branch children' branch_val))))))))"

definition trie_insert :: "(bytes \<Rightarrow> bytes) \<Rightarrow> nat \<Rightarrow> bytes \<Rightarrow> bytes \<Rightarrow> unit trie_m" where
  "trie_insert H fuel key v =
     (let nibbles = from_bytes key in
      sbind (sget root) (\<lambda>rt.
      sbind (if rt = EMPTY_ROOT then sret TEmpty else sresolve (RHash rt)) (\<lambda>old_root.
      sbind (insert_node H fuel old_root nibbles 0 v) (\<lambda>new_root_node.
      sbind (commit_root H new_root_node) (\<lambda>h.
      sbind (smod (\<lambda>s. s\<lparr>root := h\<rparr>)) (\<lambda>_.
      sret ()))))))"

section \<open>Lookup\<close>

fun get_node :: "nat \<Rightarrow> mutable_trie \<Rightarrow> node_ref \<Rightarrow> nibbles \<Rightarrow> nat \<Rightarrow> (trie_error, bytes option) res" where
  "get_node 0 s r key depth = Inl OutOfFuel"
| "get_node (Suc fuel) s r key depth =
     rbind (resolve s r) (\<lambda>node. case node of
       TEmpty \<Rightarrow> Inr None
     | Leaf partial v \<Rightarrow>
        (let key_remaining = nib_slice key depth in
         if common_prefix_len key_remaining partial = nib_len partial \<and> nib_len partial = nib_len key_remaining
         then Inr (Some v) else Inr None)
     | Extension partial child \<Rightarrow>
        (let key_remaining = nib_slice key depth;
             cp = common_prefix_len key_remaining partial
         in if cp < nib_len partial then Inr None else get_node fuel s child key (depth + cp))
     | Branch children v \<Rightarrow>
         if depth = nib_len key then Inr v
         else rbind (nib_at key depth) (\<lambda>idx.
              rbind (index_chk children (unat idx)) (\<lambda>child.
              get_node fuel s child key (depth + 1))))"

definition trie_get :: "nat \<Rightarrow> mutable_trie \<Rightarrow> bytes \<Rightarrow> (trie_error, bytes option) res" where
  "trie_get fuel s key =
     (if root s = EMPTY_ROOT then Inr None
      else get_node fuel s (RHash (root s)) (from_bytes key) 0)"

section \<open>Deletion\<close>

definition maybe_collapse_branch ::
  "(bytes \<Rightarrow> bytes) \<Rightarrow> node_ref list \<Rightarrow> bytes option \<Rightarrow> trie_node trie_m" where
  "maybe_collapse_branch H children v =
     (let non_empty = filter (\<lambda>i. children ! i \<noteq> REmpty) [0..<16] in
     case (non_empty, v) of
       ([], None) \<Rightarrow> sret TEmpty
     | ([], Some x) \<Rightarrow> sret (Leaf nib_empty x)
     | ([idx], None) \<Rightarrow>
         sbind (sresolve (children ! idx)) (\<lambda>child_node.
         let prefix = nib_single (of_nat idx) in
         case child_node of
           Leaf partial x \<Rightarrow> sret (Leaf (nib_concat prefix partial) x)
         | Extension partial child \<Rightarrow> sret (Extension (nib_concat prefix partial) child)
         | Branch cs bv \<Rightarrow> sbind (store_node H (Branch cs bv)) (\<lambda>r. sret (Extension prefix r))
         | TEmpty \<Rightarrow> sret TEmpty)
     | _ \<Rightarrow> sret (Branch children v))"

fun delete_node ::
  "(bytes \<Rightarrow> bytes) \<Rightarrow> nat \<Rightarrow> trie_node \<Rightarrow> nibbles \<Rightarrow> nat \<Rightarrow> (trie_node \<times> bool) trie_m" where
  "delete_node H 0 node key depth = sfail OutOfFuel"
| "delete_node H (Suc fuel) node key depth =
     (let key_remaining = nib_slice key depth in
      case node of
        TEmpty \<Rightarrow> sret (TEmpty, False)
      | Leaf partial v \<Rightarrow>
          if nib_len key_remaining = nib_len partial \<and>
             common_prefix_len key_remaining partial = nib_len partial
          then sret (TEmpty, True)
          else sret (Leaf partial v, False)
      | Extension partial child \<Rightarrow>
         (let cp = common_prefix_len key_remaining partial in
          if cp \<noteq> nib_len partial then sret (Extension partial child, False)
          else
            sbind (sresolve child) (\<lambda>child_node.
            sbind (delete_node H fuel child_node key (depth + nib_len partial)) (\<lambda>(new_child, removed).
            if \<not> removed then sret (Extension partial child, False)
            else
              sbind (case new_child of
                       TEmpty \<Rightarrow> sret TEmpty
                     | Leaf cp2 v \<Rightarrow> sret (Leaf (nib_concat partial cp2) v)
                     | Extension cp2 gc \<Rightarrow> sret (Extension (nib_concat partial cp2) gc)
                     | Branch cs bv \<Rightarrow> sbind (store_node H (Branch cs bv)) (\<lambda>r. sret (Extension partial r)))
                (\<lambda>collapsed. sret (collapsed, True)))))
      | Branch children branch_val \<Rightarrow>
          if depth = nib_len key then
            (if branch_val \<noteq> None then
               sbind (maybe_collapse_branch H children None) (\<lambda>collapsed. sret (collapsed, True))
             else sret (Branch children None, False))
          else
            sbind (slift (nib_at key depth)) (\<lambda>idx.
            sbind (slift (index_chk children (unat idx))) (\<lambda>r.
            sbind (sresolve r) (\<lambda>child_node.
            sbind (delete_node H fuel child_node key (depth + 1)) (\<lambda>(new_child, removed).
            if \<not> removed then sret (Branch children branch_val, False)
            else
              sbind (if new_child = TEmpty then sret REmpty else store_node H new_child) (\<lambda>r'.
              sbind (slift (set_chk children (unat idx) r')) (\<lambda>children'.
              sbind (maybe_collapse_branch H children' branch_val) (\<lambda>collapsed.
              sret (collapsed, True)))))))))"

definition trie_delete :: "(bytes \<Rightarrow> bytes) \<Rightarrow> nat \<Rightarrow> bytes \<Rightarrow> bool trie_m" where
  "trie_delete H fuel key =
     sbind (sget root) (\<lambda>rt.
     if rt = EMPTY_ROOT then sret False
     else
       let nibbles = from_bytes key in
       sbind (sresolve (RHash rt)) (\<lambda>old_root.
       sbind (delete_node H fuel old_root nibbles 0) (\<lambda>(new_root_node, removed).
       if \<not> removed then sret False
       else
         sbind (commit_root H new_root_node) (\<lambda>h.
         sbind (smod (\<lambda>s. s\<lparr>root := h\<rparr>)) (\<lambda>_.
         sret True)))))"

text \<open>\<^verbatim>\<open>commit\<close> drains the cache into the database and returns the root.\<close>

definition trie_commit :: "bytes trie_m" where
  "trie_commit s =
     (let d = foldr (\<lambda>(h, b) d. db_insert d h b) (cache s) (db s)
      in (Inr (root s), s\<lparr>db := d, cache := []\<rparr>))"

section \<open>Merkle proofs\<close>

record merkle_proof =
  proof_key :: bytes
  proof_value :: "bytes option"
  proof_nodes :: "bytes list"

fun prove_loop ::
  "nat \<Rightarrow> mutable_trie \<Rightarrow> nibbles \<Rightarrow> node_ref \<Rightarrow> nat \<Rightarrow> bytes list \<Rightarrow> (trie_error, bytes option \<times> bytes list) res" where
  "prove_loop 0 s nibbles current depth nodes = Inl OutOfFuel"
| "prove_loop (Suc fuel) s nibbles current depth nodes =
     rbind
       (case current of
          REmpty \<Rightarrow> Inr None
        | RHash h \<Rightarrow>
            if h = EMPTY_ROOT then Inr None
            else rbind (ok_or (MissingNode h) (fetch s h)) (\<lambda>bs.
                 rbind (decode_node bs) (\<lambda>node. Inr (Some (node, nodes @ [bs]))))
        | RInline n \<Rightarrow> Inr (Some (n, nodes)))
       (\<lambda>decoded. case decoded of
          None \<Rightarrow> Inr (None, nodes)
        | Some (node, nodes') \<Rightarrow>
           (case node of
              TEmpty \<Rightarrow> Inr (None, nodes')
            | Leaf partial v \<Rightarrow>
               (let key_remaining = nib_slice nibbles depth in
                if nib_len key_remaining = nib_len partial \<and>
                   common_prefix_len key_remaining partial = nib_len partial
                then Inr (Some v, nodes') else Inr (None, nodes'))
            | Extension partial child \<Rightarrow>
               (let key_remaining = nib_slice nibbles depth;
                    cp = common_prefix_len key_remaining partial
                in if cp \<noteq> nib_len partial then Inr (None, nodes')
                   else prove_loop fuel s nibbles child (depth + cp) nodes')
            | Branch children v \<Rightarrow>
                if depth = nib_len nibbles then Inr (v, nodes')
                else rbind (nib_at nibbles depth) (\<lambda>idx.
                     rbind (index_chk children (unat idx)) (\<lambda>child.
                     prove_loop fuel s nibbles child (depth + 1) nodes'))))"

definition prove :: "nat \<Rightarrow> mutable_trie \<Rightarrow> bytes \<Rightarrow> (trie_error, merkle_proof) res" where
  "prove fuel s key =
     rbind (prove_loop fuel s (from_bytes key) (RHash (root s)) 0 []) (\<lambda>(v, nodes).
     Inr \<lparr>proof_key = key, proof_value = v, proof_nodes = nodes\<rparr>)"

fun verify_loop ::
  "(bytes \<Rightarrow> bytes) \<Rightarrow> nibbles \<Rightarrow> bytes option \<Rightarrow> bytes list \<Rightarrow> bytes \<Rightarrow> nat \<Rightarrow> ('e, bool) res" where
  "verify_loop H nibbles expected_value [] expected_hash depth = Inr False"
| "verify_loop H nibbles expected_value (encoded # rest) expected_hash depth =
     (if H encoded \<noteq> expected_hash then Inr False
      else case decode_node encoded of
        Inl (Err e) \<Rightarrow> Inr False
      | Inl Panic \<Rightarrow> Inl Panic
      | Inl OutOfFuel \<Rightarrow> Inl OutOfFuel
      | Inr node \<Rightarrow>
         (case node of
            Leaf partial v \<Rightarrow>
             (let cp = common_prefix_len (nib_slice nibbles depth) partial in
              if cp = nib_len partial \<and> depth + cp = nib_len nibbles
              then Inr (expected_value = Some v)
              else Inr (expected_value = None))
          | Extension partial child \<Rightarrow>
             (let cp = common_prefix_len (nib_slice nibbles depth) partial in
              if cp \<noteq> nib_len partial then Inr (expected_value = None)
              else case child of
                     RHash h \<Rightarrow> verify_loop H nibbles expected_value rest h (depth + cp)
                   | REmpty \<Rightarrow> Inr (expected_value = None)
                   | RInline n \<Rightarrow> Inr False)
          | Branch children v \<Rightarrow>
              if depth = nib_len nibbles then
                (if rest \<noteq> [] then Inr False else Inr (expected_value = v))
              else rbind (nib_at nibbles depth) (\<lambda>idx.
                   rbind (index_chk children (unat idx)) (\<lambda>child.
                   case child of
                     RHash h \<Rightarrow> verify_loop H nibbles expected_value rest h (depth + 1)
                   | REmpty \<Rightarrow> Inr (expected_value = None)
                   | RInline n \<Rightarrow> Inr False))
          | TEmpty \<Rightarrow> Inr (expected_value = None)))"

definition verify_proof ::
  "(bytes \<Rightarrow> bytes) \<Rightarrow> bytes \<Rightarrow> bytes \<Rightarrow> bytes option \<Rightarrow> bytes list \<Rightarrow> ('e, bool) res" where
  "verify_proof H rt key expected_value nodes =
     (if nodes = [] then Inr (rt = EMPTY_ROOT \<and> expected_value = None)
      else verify_loop H (from_bytes key) expected_value nodes rt 0)"

definition merkle_verify :: "(bytes \<Rightarrow> bytes) \<Rightarrow> merkle_proof \<Rightarrow> bytes \<Rightarrow> ('e, bool) res" where
  "merkle_verify H p rt = verify_proof H rt (proof_key p) (proof_value p) (proof_nodes p)"

end
