(* ===== verification/Trie_Refine.thy ===== *)
theory Trie_Refine
  imports Trie
begin

text \<open>
  The hash-linked trie refines the abstract tree of Mpt_Spec.  \<open>node_of\<close> is the node an
  abstract tree is stored as, \<open>stored\<close> says that every hash-referenced subtree is in the
  store, and the verification conditions \<open>vc\<close> carry both through the stateful code: under
  the assumption that the hash has no collision among the byte strings in the store,
  each operation returns a value and the new node represents the updated tree.
\<close>

section \<open>The node of a tree\<close>

definition ref_to :: "(bytes \<Rightarrow> bytes) \<Rightarrow> trie_node \<Rightarrow> node_ref" where
  "ref_to H n = (if n = TEmpty then REmpty
                 else if length (node_bytes n) < 32 then RInline n
                 else RHash (H (node_bytes n)))"

fun node_of :: "(bytes \<Rightarrow> bytes) \<Rightarrow> mpt \<Rightarrow> trie_node" where
  "node_of H MEmpty = TEmpty"
| "node_of H (MLeaf p v) = Leaf (nib_of p) v"
| "node_of H (MExt p t) = Extension (nib_of p) (ref_to H (node_of H t))"
| "node_of H (MBranch ts bv) = Branch (map (\<lambda>t. ref_to H (node_of H t)) ts) bv"

definition mpt_root :: "(bytes \<Rightarrow> bytes) \<Rightarrow> mpt \<Rightarrow> bytes" where
  "mpt_root H t = (if t = MEmpty then EMPTY_ROOT else H (node_bytes (node_of H t)))"

definition hash_ok :: "(bytes \<Rightarrow> bytes) \<Rightarrow> bool" where
  "hash_ok H \<longleftrightarrow> (\<forall>b. length (H b) = 32) \<and> H [0x80] = EMPTY_ROOT"

text \<open>Paths of a tree are bounded through the keys it holds.\<close>

definition key_bound :: nat where
  "key_bound = 2 ^ 33"

definition mgood :: "mpt \<Rightarrow> bool" where
  "mgood t \<longleftrightarrow> mwf t \<and> (\<forall>k. mlookup t k \<noteq> None \<longrightarrow> length k \<le> key_bound)"

fun stored :: "(bytes \<Rightarrow> bytes) \<Rightarrow> (bytes \<times> bytes) set \<Rightarrow> mpt \<Rightarrow> bool" where
  "stored H E MEmpty = True"
| "stored H E (MLeaf p v) = True"
| "stored H E (MExt p t) =
     (stored H E t \<and>
      (32 \<le> length (node_bytes (node_of H t)) \<longrightarrow> (H (node_bytes (node_of H t)), node_bytes (node_of H t)) \<in> E))"
| "stored H E (MBranch ts bv) =
     (\<forall>t\<in>set ts. stored H E t \<and>
      (32 \<le> length (node_bytes (node_of H t)) \<longrightarrow> (H (node_bytes (node_of H t)), node_bytes (node_of H t)) \<in> E))"

definition stored_ref :: "(bytes \<Rightarrow> bytes) \<Rightarrow> (bytes \<times> bytes) set \<Rightarrow> mpt \<Rightarrow> bool" where
  "stored_ref H E t \<longleftrightarrow> stored H E t \<and>
     (32 \<le> length (node_bytes (node_of H t)) \<longrightarrow> (H (node_bytes (node_of H t)), node_bytes (node_of H t)) \<in> E)"

lemma stored_simps [simp]:
  "stored H E (MExt p t) \<longleftrightarrow> stored_ref H E t"
  "stored H E (MBranch ts bv) \<longleftrightarrow> (\<forall>t\<in>set ts. stored_ref H E t)"
  by (simp_all add: stored_ref_def)

declare stored.simps(3,4) [simp del]

lemma node_of_TEmpty [simp]: "node_of H t = TEmpty \<longleftrightarrow> t = MEmpty"
  by (cases t) auto

lemma ref_to_TEmpty [simp]: "ref_to H TEmpty = REmpty"
  by (simp add: ref_to_def)

lemma ref_to_REmpty [simp]: "ref_to H n = REmpty \<longleftrightarrow> n = TEmpty"
  by (simp add: ref_to_def)

lemma length_node_bytes_TEmpty: "length (node_bytes TEmpty) = 1"
  by (simp add: node_bytes_def enc_str_def rlp_header_def)

lemma stored_ref_MEmpty [simp]: "stored_ref H E MEmpty"
  by (simp add: stored_ref_def length_node_bytes_TEmpty)

lemma stored_mono: "stored H E t \<Longrightarrow> E \<subseteq> E' \<Longrightarrow> stored H E' t"
  by (induction t) (auto simp: stored_ref_def)

lemma stored_ref_mono: "stored_ref H E t \<Longrightarrow> E \<subseteq> E' \<Longrightarrow> stored_ref H E' t"
  by (auto simp: stored_ref_def intro: stored_mono)

section \<open>Normal forms\<close>

lemma item_norm: "node_item (norm_node n) = node_item n" "ref_item (norm_ref r) = ref_item r"
  by (induction n and r) (auto simp: encode_compact_nib_of)

lemma node_bytes_norm [simp]: "node_bytes (norm_node n) = node_bytes n"
  by (simp add: node_bytes_def item_norm)

lemma norm_TEmpty [simp]: "norm_node n = TEmpty \<longleftrightarrow> n = TEmpty"
  by (cases n) auto

lemma norm_REmpty [simp]: "norm_ref r = REmpty \<longleftrightarrow> r = REmpty"
  by (cases r) auto

lemma ok_norm: "ok_node (norm_node n) = ok_node n" "ok_ref (norm_ref r) = ok_ref r"
  by (induction n and r) (auto simp: list_all_iff)

lemma norm_ref_to: "norm_node n = n \<Longrightarrow> norm_ref (ref_to H n) = ref_to H n"
  by (simp add: ref_to_def)

lemma norm_node_of [simp]: "norm_node (node_of H t) = node_of H t"
  by (induction t) (auto simp: norm_ref_to)

lemma norm_ref_to_node_of [simp]: "norm_ref (ref_to H (node_of H t)) = ref_to H (node_of H t)"
  by (simp add: norm_ref_to)

section \<open>Good trees encode to codec-valid nodes\<close>

lemma mgood_MExtD:
  assumes "mgood (MExt p t)"
  shows "mgood t" and "length p \<le> key_bound"
proof -
  have b: "\<And>k. mlookup (MExt p t) k \<noteq> None \<Longrightarrow> length k \<le> key_bound" and wf: "mwf t" "is_MBranch t"
    using assms by (auto simp: mgood_def)
  have c: "length p + length k \<le> key_bound" if "mlookup t k \<noteq> None" for k
    using b [of "p @ k"] that by simp
  then show "mgood t" using wf by (force simp: mgood_def)
  obtain k where "mlookup t k \<noteq> None" using mwf_has_key wf by (metis is_MBranch_simps(2))
  then show "length p \<le> key_bound" using c by fastforce
qed

lemma mgood_MBranchD:
  assumes "mgood (MBranch ts bv)" and "t \<in> set ts"
  shows "mgood t"
proof -
  obtain i where i: "i < 16" "t = ts ! i" using assms by (auto simp: mgood_def in_set_conv_nth)
  have "length k \<le> key_bound" if "mlookup t k \<noteq> None" for k
  proof -
    have "mlookup (MBranch ts bv) (of_nat i # k) \<noteq> None" using that assms i by (simp add: mgood_def)
    then have "length (of_nat i # k :: bytes) \<le> key_bound" using assms unfolding mgood_def by blast
    then show ?thesis by simp
  qed
  then show ?thesis using assms by (simp add: mgood_def)
qed

lemma mgood_simps [simp]: "mgood MEmpty"
  by (simp add: mgood_def)

lemma mgood_mwf: "mgood t \<Longrightarrow> mwf t"
  by (simp add: mgood_def)

lemma length_enc_str_le: "length (enc_str d) \<le> length d + 9"
  using length_be_min_le [of "length d"] by (simp add: enc_str_def rlp_header_def)

lemma length_rlp_header_le: "length (rlp_header a b n) \<le> 9"
  using length_be_min_le [of n] by (simp add: rlp_header_def)

lemma length_ref_bytes:
  assumes "hash_ok H"
  shows "length (rlp_enc (ref_item (ref_to H n))) \<le> 41"
proof -
  have "length (enc_str (H b)) \<le> 41" for b
    using length_enc_str_le [of "H b"] assms by (simp add: hash_ok_def)
  then show ?thesis
    by (simp add: ref_to_def node_bytes_def enc_str_def [of "[]"] rlp_header_def)
qed

lemma length_concat_le: "(\<And>x. x \<in> set xs \<Longrightarrow> length (f x) \<le> m) \<Longrightarrow> length (concat (map f xs)) \<le> m * length xs"
  by (induction xs) (auto simp: add_mono)

lemma small_node_of:
  assumes "hash_ok H" and "mgood t"
  shows "length (node_bytes (node_of H t)) < usize_max"
proof -
  note hdr = length_rlp_header_le [of "0xc0" "0xf7"]
  show ?thesis
  proof (cases t)
    case MEmpty
    then show ?thesis by (simp add: length_node_bytes_TEmpty usize_max_def)
  next
    case (MLeaf p v)
    then have "length p \<le> key_bound" "length v < 2 ^ 32"
      using assms by (auto simp: mgood_def value_ok_def split: if_splits)
    moreover note length_encode_compact [of "nib_of p" True] length_enc_str_le [of v]
      length_enc_str_le [of "encode_compact (nib_of p) True"]
      hdr [of "length (enc_str (encode_compact (nib_of p) True)) + length (enc_str v)"]
    ultimately show ?thesis using MLeaf
      by (simp add: node_bytes_def Let_def usize_max_def key_bound_def)
  next
    case (MExt p u)
    then have "length p \<le> key_bound" using assms mgood_MExtD by blast
    moreover note length_encode_compact [of "nib_of p" False] length_ref_bytes [OF assms(1), of "node_of H u"]
      length_enc_str_le [of "encode_compact (nib_of p) False"]
      hdr [of "length (enc_str (encode_compact (nib_of p) False)) + length (rlp_enc (ref_item (ref_to H (node_of H u))))"]
    ultimately show ?thesis using MExt
      by (simp add: node_bytes_def Let_def usize_max_def key_bound_def)
  next
    case (MBranch ts bv)
    let ?v = "case bv of None \<Rightarrow> [] | Some x \<Rightarrow> x"
    let ?p = "concat (map (\<lambda>u. rlp_enc (ref_item (ref_to H (node_of H u)))) ts)"
    have "length ?v < 2 ^ 32" "length ts = 16"
      using assms MBranch by (auto simp: mgood_def value_ok_def split: option.splits)
    moreover have "length ?p \<le> 41 * length ts"
      by (rule length_concat_le) (rule length_ref_bytes [OF assms(1)])
    moreover note length_enc_str_le [of ?v] hdr [of "length ?p + length (enc_str ?v)"]
    ultimately show ?thesis using MBranch
      by (simp add: node_bytes_def Let_def usize_max_def comp_def)
  qed
qed

lemma ok_node_of:
  assumes "hash_ok H" and "mwf t"
  shows "ok_node (node_of H t)"
  using assms(2)
proof (induction t)
  case (MExt p t)
  then show ?case using assms(1) by (simp add: ref_to_def hash_ok_def)
next
  case (MBranch ts bv)
  then show ?case using assms(1)
    by (auto simp: ref_to_def hash_ok_def list_all_iff value_ok_def split: option.splits)
qed auto

lemma encode_node_of:
  assumes "hash_ok H" "mgood t" "norm_node n = node_of H t"
  shows "encode_node n = Inr (node_bytes (node_of H t))"
  using small_node_of [OF assms(1,2)] assms(3)
  by (metis encode_node_bytes node_bytes_norm)

lemma decode_node_of:
  assumes "hash_ok H" "mgood t"
  shows "decode_node (node_bytes (node_of H t)) = Inr (node_of H t)"
  using decode_node_bytes [OF ok_node_of [OF assms(1) mgood_mwf [OF assms(2)]] small_node_of [OF assms]]
  by simp

section \<open>The store\<close>

definition entries :: "mutable_trie \<Rightarrow> (bytes \<times> bytes) set" where
  "entries s = set (cache s) \<union> set (db s)"

definition hashed :: "(bytes \<Rightarrow> bytes) \<Rightarrow> mutable_trie \<Rightarrow> bool" where
  "hashed H s \<longleftrightarrow> (\<forall>(h, b)\<in>entries s. h = H b)"

definition coll_free :: "(bytes \<Rightarrow> bytes) \<Rightarrow> mutable_trie \<Rightarrow> bool" where
  "coll_free H s \<longleftrightarrow> inj_on H (insert [0x80] (snd ` entries s))"

definition store_ok :: "(bytes \<Rightarrow> bytes) \<Rightarrow> mutable_trie \<Rightarrow> bool" where
  "store_ok H s \<longleftrightarrow> hashed H s \<and> coll_free H s"

lemma store_ok_antimono: "entries s \<subseteq> entries s' \<Longrightarrow> store_ok H s' \<Longrightarrow> store_ok H s"
  unfolding store_ok_def hashed_def coll_free_def
  by (auto intro: inj_on_subset simp: image_mono insert_mono)

lemma fetch_entry: "fetch s h = Some b \<Longrightarrow> (h, b) \<in> entries s"
  by (auto simp: fetch_def entries_def db_get_def split: option.splits dest: map_of_SomeD)

lemma entry_fetch:
  assumes "store_ok H s" and "(h, b) \<in> entries s"
  shows "fetch s h = Some b"
proof -
  have "\<exists>b'. fetch s h = Some b'"
    using assms(2) by (auto simp: fetch_def entries_def db_get_def split: option.splits dest: weak_map_of_SomeI)
  then obtain b' where b': "fetch s h = Some b'" by blast
  then have "(h, b') \<in> entries s" by (rule fetch_entry)
  then have "h = H b'" "h = H b"
    using assms unfolding store_ok_def hashed_def by blast+
  moreover have "b \<in> snd ` entries s" "b' \<in> snd ` entries s"
    using assms(2) \<open>(h, b') \<in> entries s\<close> by (metis image_eqI snd_conv)+
  moreover have "inj_on H (snd ` entries s)" using assms(1) by (simp add: store_ok_def coll_free_def)
  ultimately have "b = b'" by (metis inj_onD)
  then show ?thesis using b' by simp
qed

lemma resolve_ref_to:
  assumes "hash_ok H" "store_ok H s" "mgood t" "stored_ref H (entries s) t" "norm_ref r = ref_to H (node_of H t)"
  shows "\<exists>n. resolve s r = Inr n \<and> norm_node n = node_of H t"
proof (cases r)
  case (RHash h)
  let ?b = "node_bytes (node_of H t)"
  have h: "h = H ?b" "32 \<le> length ?b" using assms(5) RHash by (auto simp: ref_to_def split: if_splits)
  then have e: "(h, ?b) \<in> entries s" using assms(4) by (simp add: stored_ref_def)
  have "h \<noteq> EMPTY_ROOT"
  proof
    assume "h = EMPTY_ROOT"
    then have "H ?b = H [0x80]" using h assms(1) by (simp add: hash_ok_def)
    moreover have "inj_on H (insert [0x80] (snd ` entries s))"
      using assms(2) by (simp add: store_ok_def coll_free_def)
    moreover have "?b \<in> snd ` entries s" using e by (metis image_eqI snd_conv)
    ultimately have "?b = [0x80]" by (metis inj_onD insertCI)
    then show False using h by simp
  qed
  then show ?thesis
    using entry_fetch [OF assms(2) e] decode_node_of [OF assms(1,3)] RHash
    by (simp add: resolve_def)
next
  case (RInline n)
  then show ?thesis using assms(5) by (auto simp: resolve_def ref_to_def split: if_splits)
next
  case REmpty
  then have "node_of H t = TEmpty" using assms(5) by (metis norm_ref.simps(3) ref_to_REmpty)
  then show ?thesis using REmpty by (simp add: resolve_def)
qed

section \<open>Verification conditions\<close>

definition grows :: "(bytes \<Rightarrow> bytes) \<Rightarrow> 'a trie_m \<Rightarrow> bool" where
  "grows H m \<longleftrightarrow> (\<forall>s. entries s \<subseteq> entries (snd (m s)) \<and> (hashed H s \<longrightarrow> hashed H (snd (m s))))"

definition vc :: "(bytes \<Rightarrow> bytes) \<Rightarrow> 'a trie_m \<Rightarrow> mutable_trie \<Rightarrow> ('a \<Rightarrow> mutable_trie \<Rightarrow> bool) \<Rightarrow> bool" where
  "vc H m s Q \<longleftrightarrow> (store_ok H (snd (m s)) \<longrightarrow>
     (\<exists>x. fst (m s) = Inr x \<and> entries s \<subseteq> entries (snd (m s)) \<and> Q x (snd (m s))))"

named_theorems grows_intros

lemma grows_basic [grows_intros, simp]:
  "grows H (sret x)" "grows H (sfail e)" "grows H (slift m)" "grows H (sget f)" "grows H (sresolve r)"
  by (simp_all add: grows_def sret_def sfail_def slift_def sget_def sresolve_def)

lemma grows_sbind [grows_intros]: "grows H m \<Longrightarrow> (\<And>x. grows H (f x)) \<Longrightarrow> grows H (sbind m f)"
  unfolding grows_def sbind_def by (auto split: prod.splits sum.splits) (metis snd_conv subsetD)+

lemma grows_if [grows_intros]: "(b \<Longrightarrow> grows H x) \<Longrightarrow> (\<not> b \<Longrightarrow> grows H y) \<Longrightarrow> grows H (if b then x else y)"
  by simp

lemma grows_let [grows_intros]: "grows H (f x) \<Longrightarrow> grows H (Let x f)"
  by simp

lemma grows_prod [grows_intros]: "(\<And>a b. grows H (f a b)) \<Longrightarrow> grows H (case_prod f p)"
  by (cases p) simp

lemma grows_node [grows_intros]:
  "grows H a \<Longrightarrow> (\<And>p v. grows H (l p v)) \<Longrightarrow> (\<And>p c. grows H (x p c)) \<Longrightarrow> (\<And>cs v. grows H (b cs v)) \<Longrightarrow>
   grows H (case_trie_node a l x b n)"
  by (cases n) auto

lemma grows_hash:
  "grows H (sbind (slift (h256_from_slice (H b))) (\<lambda>h.
            sbind (smod (\<lambda>s. s\<lparr>cache := (h, b) # cache s\<rparr>)) (\<lambda>_. sret (f h))))"
  by (auto simp: grows_def h256_from_slice_def sbind_def smod_def sret_def sfail_def entries_def hashed_def)

lemma grows_root [simp, grows_intros]: "grows H (smod (\<lambda>s. s\<lparr>root := h\<rparr>))"
  by (auto simp: grows_def smod_def entries_def hashed_def)

lemma grows_store_node [grows_intros]: "grows H (store_node H n)"
  unfolding store_node_def by (rule grows_sbind, simp, rule grows_if, simp, rule grows_hash)

lemma grows_commit_root [grows_intros]: "grows H (commit_root H n)"
  unfolding commit_root_def
  by (rule grows_if, simp, rule grows_sbind, simp, rule grows_hash [where f = "\<lambda>h. h"])

lemma grows_place_new_key [grows_intros]: "grows H (place_new_key H k cp v cs bv)"
  unfolding place_new_key_def by (intro grows_intros)

lemma grows_place_old_leaf [grows_intros]: "grows H (place_old_leaf H p cp v)"
  unfolding place_old_leaf_def by (intro grows_intros)

lemma grows_place_old_child [grows_intros]: "grows H (place_old_child H p cp c)"
  unfolding place_old_child_def by (intro grows_intros)

lemma grows_wrap_branch [grows_intros]: "grows H (wrap_branch H k cp cs bv)"
  unfolding wrap_branch_def by (intro grows_intros)

lemma grows_maybe_collapse [grows_intros]: "grows H (maybe_collapse_branch H cs v)"
  unfolding maybe_collapse_branch_def
  by (auto split: list.splits option.splits intro!: grows_intros)

lemma grows_insert_node [grows_intros]: "grows H (insert_node H f n k d v)"
proof (induction f arbitrary: n d)
  case (Suc f)
  then show ?case by (auto intro!: grows_intros)
qed simp

lemma grows_delete_node [grows_intros]: "grows H (delete_node H f n k d)"
proof (induction f arbitrary: n d)
  case (Suc f)
  then show ?case by (auto intro!: grows_intros split: trie_node.splits)
qed simp

lemma vc_sret [simp]: "Q x s \<Longrightarrow> vc H (sret x) s Q"
  by (simp add: vc_def sret_def)

lemma vc_conseq: "vc H m s Q \<Longrightarrow> (\<And>x s'. entries s \<subseteq> entries s' \<Longrightarrow> store_ok H s' \<Longrightarrow> Q x s' \<Longrightarrow> Q' x s') \<Longrightarrow> vc H m s Q'"
  by (auto simp: vc_def)

lemma vc_sbind:
  assumes m: "vc H m s Q" and g: "\<And>x. grows H (f x)"
    and f: "\<And>x s'. entries s \<subseteq> entries s' \<Longrightarrow> store_ok H s' \<Longrightarrow> Q x s' \<Longrightarrow> vc H (f x) s' R"
  shows "vc H (sbind m f) s R"
proof (unfold vc_def, intro impI)
  assume ok: "store_ok H (snd (sbind m f s))"
  obtain r s1 where ms: "m s = (r, s1)" by fastforce
  have "entries s1 \<subseteq> entries (snd (sbind m f s))"
    using g ms by (cases r) (auto simp: sbind_def grows_def)
  then have ok1: "store_ok H s1" using ok store_ok_antimono by blast
  then obtain x where x: "r = Inr x" "entries s \<subseteq> entries s1" "Q x s1"
    using m ms by (auto simp: vc_def)
  have e: "sbind m f s = f x s1" using ms x by (simp add: sbind_def)
  then show "\<exists>y. fst (sbind m f s) = Inr y \<and> entries s \<subseteq> entries (snd (sbind m f s)) \<and> R y (snd (sbind m f s))"
    using f [OF x(2) ok1 x(3)] ok x by (auto simp: vc_def)
qed

lemma vc_store_node:
  assumes "hash_ok H" "mgood t" "t \<noteq> MEmpty" "stored H (entries s) t" "norm_node n = node_of H t"
  shows "vc H (store_node H n) s (\<lambda>r s'. norm_ref r = ref_to H (node_of H t) \<and> stored_ref H (entries s') t)"
proof -
  let ?b = "node_bytes (node_of H t)"
  have enc: "encode_node n = (Inr ?b :: (trie_error, bytes) res)" by (rule encode_node_of [OF assms(1,2,5)])
  show ?thesis
  proof (cases "length ?b < 32")
    case True
    then show ?thesis using enc assms
      by (simp add: store_node_def vc_def sbind_def slift_def sret_def ref_to_def stored_ref_def)
  next
    case False
    then show ?thesis using enc assms
      by (auto simp: store_node_def vc_def sbind_def slift_def sret_def smod_def ref_to_def stored_ref_def
                     h256_from_slice_def hash_ok_def entries_def elim!: stored_mono)
  qed
qed

lemma vc_sresolve:
  assumes "hash_ok H" "store_ok H s" "mgood t" "stored_ref H (entries s) t" "norm_ref r = ref_to H (node_of H t)"
  shows "vc H (sresolve r) s (\<lambda>n s'. s' = s \<and> norm_node n = node_of H t)"
  using resolve_ref_to [OF assms] by (auto simp: vc_def sresolve_def)

lemma vc_pre: "grows H m \<Longrightarrow> (store_ok H s \<Longrightarrow> vc H m s Q) \<Longrightarrow> vc H m s Q"
  unfolding vc_def grows_def using store_ok_antimono by blast

section \<open>Branch children\<close>

definition kids :: "(bytes \<Rightarrow> bytes) \<Rightarrow> (bytes \<times> bytes) set \<Rightarrow> node_ref list \<Rightarrow> mpt list \<Rightarrow> bool" where
  "kids H E cs ts \<longleftrightarrow> map norm_ref cs = map (\<lambda>t. ref_to H (node_of H t)) ts \<and> (\<forall>t\<in>set ts. stored_ref H E t)"

lemma kids_length: "kids H E cs ts \<Longrightarrow> length cs = length ts"
  by (auto simp: kids_def dest: map_eq_imp_length_eq)

lemma kids_mono: "kids H E cs ts \<Longrightarrow> E \<subseteq> E' \<Longrightarrow> kids H E' cs ts"
  by (auto simp: kids_def intro: stored_ref_mono)

lemma kids_empty [simp]: "kids H E empty_children (replicate 16 MEmpty)"
  by (simp add: kids_def empty_children_def)

lemma kids_update:
  assumes "kids H E cs ts" "norm_ref r = ref_to H (node_of H t)" "stored_ref H E t"
  shows "kids H E (cs[i := r]) (ts[i := t])"
  using assms by (auto simp: kids_def map_update dest!: set_update_subset_insert [THEN subsetD])

lemma kids_nth:
  assumes "kids H E cs ts" "i < length ts"
  shows "norm_ref (cs ! i) = ref_to H (node_of H (ts ! i))" "stored_ref H E (ts ! i)"
proof -
  have "map norm_ref cs ! i = map (\<lambda>t. ref_to H (node_of H t)) ts ! i" using assms by (simp add: kids_def)
  then show "norm_ref (cs ! i) = ref_to H (node_of H (ts ! i))" using assms kids_length [OF assms(1)] by simp
  show "stored_ref H E (ts ! i)" using assms by (simp add: kids_def)
qed

lemma branch_rep:
  "norm_node (Branch cs bv) = node_of H (MBranch ts bv') \<and> stored H E (MBranch ts bv') \<longleftrightarrow> kids H E cs ts \<and> bv = bv'"
  by (auto simp: kids_def)

section \<open>Good trees\<close>

lemma mgood_MLeaf: "mgood (MLeaf p v) \<longleftrightarrow> nibble_path p \<and> value_ok v \<and> length p \<le> key_bound"
  by (auto simp: mgood_def)

lemma mgood_minsert:
  "mgood t \<Longrightarrow> nibble_path k \<Longrightarrow> value_ok v \<Longrightarrow> length k \<le> key_bound \<Longrightarrow> mgood (minsert t k v)"
  by (auto simp: mgood_def mwf_minsert mlookup_minsert split: if_splits)

lemma mgood_mdelete: "mgood t \<Longrightarrow> nibble_path k \<Longrightarrow> mgood (fst (mdelete t k))"
  by (auto simp: mgood_def mdelete_correct split: if_splits)

lemma mgood_MExt_suffix:
  assumes "mgood (MExt (c @ q) t)" "q \<noteq> []"
  shows "mgood (MExt q t)"
proof -
  have "length k \<le> key_bound" if "mlookup (MExt q t) k \<noteq> None" for k
  proof -
    have "mlookup (MExt (c @ q) t) (c @ k) \<noteq> None" using that by (auto simp: take_eq_iff_append split: if_splits)
    then have "length (c @ k) \<le> key_bound" using assms unfolding mgood_def by blast
    then show ?thesis by simp
  qed
  then show ?thesis using assms by (auto simp: mgood_def)
qed

lemma mgood_mext: "mgood (mext p t) \<Longrightarrow> mgood t"
  by (auto simp: mext_def dest: mgood_MExtD split: if_splits)

lemma nib_sub_nonempty:
  assumes "start \<le> length (nibs n)" and "nibs n \<noteq> []"
  shows "nib_sub n start len = Inr (nib_of (take len (drop start (nibs n))))"
proof -
  have "offset n \<le> length (inner n)" using assms(2) by (auto simp: nibs_def)
  then show ?thesis using assms nib_sub_eq by blast
qed

lemma length_fst_place [simp]:
  "length (fst (place_leaf q v r)) = length (fst r)" "length (fst (place_ext q t r)) = length (fst r)"
  "length (fst no_children) = 16"
  by (auto simp: place_leaf_def place_ext_def no_children_def split: prod.splits list.splits)

section \<open>Insertion\<close>

text \<open>Storing a fresh leaf for the part of a path behind the branching nibble.\<close>

lemma vc_store_suffix_leaf:
  assumes "hash_ok H" "mgood (MLeaf (nibs p) v)" "cp < length (nibs p)" "kids H (entries s) cs ts" "length ts = 16"
  shows "vc H (sbind (slift (nib_at p cp)) (\<lambda>x.
               sbind (slift (nib_sub p (cp + 1) (nib_len p - cp - 1))) (\<lambda>q.
               sbind (store_node H (Leaf q v)) (\<lambda>r.
               sbind (slift (set_chk cs (unat x) r)) (\<lambda>cs'.
               sret (cs', bv)))))) s
          (\<lambda>y s'. kids H (entries s') (fst y) (fst (place_leaf (drop cp (nibs p)) v (ts, bv))) \<and>
                            snd y = snd (place_leaf (drop cp (nibs p)) v (ts, bv)))"
proof -
  let ?x = "nibs p ! cp" and ?q = "drop (Suc cp) (nibs p)"
  have d: "drop cp (nibs p) = ?x # ?q" using assms(3) by (simp add: Cons_nth_drop_Suc)
  have ok: "nibble_path (nibs p)" "value_ok v" "length (nibs p) \<le> key_bound"
    using assms(2) by (auto simp: mgood_MLeaf)
  then have x: "unat ?x < 16" using assms(3) by (simp add: nibble_path_def)
  have leaf: "mgood (MLeaf ?q v)" using ok by (simp add: mgood_MLeaf nibble_path_take_drop)
  have sub: "nib_sub p (cp + 1) (nib_len p - cp - 1) = (Inr (nib_of ?q) :: (trie_error, nibbles) res)"
    using assms(3) by (subst nib_sub_nonempty) auto
  have store: "vc H (store_node H (Leaf (nib_of ?q) v)) s
      (\<lambda>r s'. norm_ref r = ref_to H (node_of H (MLeaf ?q v)) \<and> stored_ref H (entries s') (MLeaf ?q v))"
    by (rule vc_store_node) (use assms leaf in auto)
  have tail: "vc H (sbind (slift (set_chk cs (unat ?x) r)) (\<lambda>cs'. sret (cs', bv))) s'
          (\<lambda>y s'. kids H (entries s') (fst y) (fst (place_leaf (drop cp (nibs p)) v (ts, bv))) \<and>
                            snd y = snd (place_leaf (drop cp (nibs p)) v (ts, bv)))"
    if "entries s \<subseteq> entries s'" "norm_ref r = ref_to H (node_of H (MLeaf ?q v))"
      "stored_ref H (entries s') (MLeaf ?q v)" for r s'
    using kids_update [OF kids_mono [OF assms(4)], OF that, of "unat ?x"]
      kids_length [OF assms(4)] x assms(5)
    by (simp add: set_chk_def d place_leaf_def)
  show ?thesis
    using sub assms(3)
    by (simp add: nib_at_nibs) (rule vc_sbind [OF store], intro grows_intros, use tail in auto)
qed

lemma vc_place_new_key:
  assumes "hash_ok H" "mgood (MLeaf (nibs k) v)" "cp \<le> length (nibs k)" "kids H (entries s) cs ts" "length ts = 16"
  shows "vc H (place_new_key H k cp v cs bv) s
          (\<lambda>y s'. kids H (entries s') (fst y) (fst (place_leaf (drop cp (nibs k)) v (ts, bv))) \<and>
                            snd y = snd (place_leaf (drop cp (nibs k)) v (ts, bv)))"
proof (cases "cp = length (nibs k)")
  case True
  then show ?thesis using assms by (simp add: place_new_key_def place_leaf_def)
next
  case False
  then show ?thesis
    using vc_store_suffix_leaf [of H k v cp s cs ts bv] assms by (simp add: place_new_key_def)
qed

lemma vc_place_old_leaf:
  assumes "hash_ok H" "mgood (MLeaf (nibs p) w)" "cp \<le> length (nibs p)"
  shows "vc H (place_old_leaf H p cp w) s
          (\<lambda>y s'. kids H (entries s') (fst y) (fst (place_leaf (drop cp (nibs p)) w no_children)) \<and>
                            snd y = snd (place_leaf (drop cp (nibs p)) w no_children))"
proof (cases "cp = length (nibs p)")
  case True
  then show ?thesis by (simp add: place_old_leaf_def place_leaf_def no_children_def)
next
  case False
  then show ?thesis
    using vc_store_suffix_leaf [of H p w cp s empty_children "replicate 16 MEmpty" None] assms
    by (simp add: place_old_leaf_def no_children_def)
qed

lemma vc_place_old_child:
  assumes H: "hash_ok H" and good: "mgood (MExt (nibs p) t)" and cp: "cp < length (nibs p)"
    and r: "norm_ref c = ref_to H (node_of H t)" "stored_ref H (entries s) t"
  shows "vc H (place_old_child H p cp c) s
          (\<lambda>cs s'. kids H (entries s') cs (fst (place_ext (drop cp (nibs p)) t no_children)))"
proof -
  let ?x = "nibs p ! cp" and ?q = "drop (Suc cp) (nibs p)"
  have d: "drop cp (nibs p) = ?x # ?q" using cp by (simp add: Cons_nth_drop_Suc)
  have p: "nibs p = take (Suc cp) (nibs p) @ ?q" by simp
  have x: "unat ?x < 16" using good cp by (simp add: mgood_def nibble_path_def)
  have sub: "nib_sub p (cp + 1) (nib_len p - cp - 1) = (Inr (nib_of ?q) :: (trie_error, nibbles) res)"
    using cp by (subst nib_sub_nonempty) auto
  have tail: "vc H (slift (set_chk empty_children (unat ?x) r)) s'
      (\<lambda>cs s'. kids H (entries s') cs (fst (place_ext (drop cp (nibs p)) t no_children)))"
    if "norm_ref r = ref_to H (node_of H (mext ?q t))" "stored_ref H (entries s') (mext ?q t)" for r s'
    using kids_update [OF kids_empty that, of "unat ?x"] x
    by (simp add: set_chk_def d place_ext_def no_children_def) (simp add: empty_children_def)
  show ?thesis
  proof (cases "Suc cp < length (nibs p)")
    case True
    then have q: "?q \<noteq> []" by simp
    have "mgood (MExt ?q t)" using mgood_MExt_suffix good p q by metis
    then have store: "vc H (store_node H (Extension (nib_of ?q) c)) s
      (\<lambda>r s'. norm_ref r = ref_to H (node_of H (MExt ?q t)) \<and> stored_ref H (entries s') (MExt ?q t))"
      by (intro vc_store_node) (use H r in auto)
    have "mext ?q t = MExt ?q t" using q by (simp add: mext_def)
    then show ?thesis
      using True cp sub tail q
      by (simp add: place_old_child_def nib_at_nibs nib_is_empty_iff)
         (rule vc_sbind [OF store], intro grows_intros, auto)
  next
    case False
    then have "?q = []" by simp
    then show ?thesis
      using False cp tail [of c s] r
      by (simp add: place_old_child_def nib_at_nibs nib_is_empty_iff mext_def)
  qed
qed

lemma vc_wrap_branch:
  assumes H: "hash_ok H" and cp: "cp \<le> length (nibs k)" and kids: "kids H (entries s) cs ts"
    and good: "mgood (mbranch (take cp (nibs k)) (ts, bv))"
  shows "vc H (wrap_branch H k cp cs bv) s
          (\<lambda>n s'. norm_node n = node_of H (mbranch (take cp (nibs k)) (ts, bv)) \<and>
                   stored H (entries s') (mbranch (take cp (nibs k)) (ts, bv)))"
proof -
  have br: "norm_node (Branch cs bv) = node_of H (MBranch ts bv)" "stored H (entries s) (MBranch ts bv)"
    using branch_rep [of cs bv H ts bv "entries s"] kids by blast+
  show ?thesis
  proof (cases "cp = 0")
    case True
    then show ?thesis using br by (simp add: wrap_branch_def mbranch_def mext_def)
  next
    case False
    then have ne: "take cp (nibs k) \<noteq> []" using cp by auto
    have sub: "nib_sub k 0 cp = (Inr (nib_of (take cp (nibs k))) :: (trie_error, nibbles) res)"
      using ne by (subst nib_sub_nonempty) auto
    have "mgood (MBranch ts bv)" using good by (auto simp: mbranch_def dest: mgood_mext)
    then have store: "vc H (store_node H (Branch cs bv)) s
        (\<lambda>r s'. norm_ref r = ref_to H (node_of H (MBranch ts bv)) \<and> stored_ref H (entries s') (MBranch ts bv))"
      by (intro vc_store_node) (use H br in auto)
    show ?thesis using False sub ne
      by (simp add: wrap_branch_def Let_def mbranch_def mext_def)
         (rule vc_sbind [OF store], intro grows_intros, auto)
  qed
qed

text \<open>Branching below a leaf or an extension: place what was there, place the new key, wrap.\<close>

lemma vc_split:
  assumes H: "hash_ok H" and k: "mgood (MLeaf (nibs k) v)" "cp \<le> length (nibs k)"
    and old: "vc H m s (\<lambda>y s'. kids H (entries s') (fst y) (fst r) \<and>
                            snd y = snd r)"
    and len: "length (fst r) = 16"
    and good: "mgood (mbranch (take cp (nibs k)) (place_leaf (drop cp (nibs k)) v r))"
  shows "vc H (sbind m (\<lambda>(cs, bv). sbind (place_new_key H k cp v cs bv) (\<lambda>(cs', bv').
              wrap_branch H k cp cs' bv'))) s
          (\<lambda>n s'. norm_node n = node_of H (mbranch (take cp (nibs k)) (place_leaf (drop cp (nibs k)) v r)) \<and>
                   stored H (entries s') (mbranch (take cp (nibs k)) (place_leaf (drop cp (nibs k)) v r)))"
proof (rule vc_sbind [OF old])
  fix x s'
  assume s': "kids H (entries s') (fst x) (fst r) \<and> snd x = snd r"
  obtain cs bv where x: "x = (cs, bv)" by fastforce
  then have kd: "kids H (entries s') cs (fst r)" and bv: "bv = snd r" using s' by auto
  have place: "vc H (place_new_key H k cp v cs bv) s'
          (\<lambda>y s'. kids H (entries s') (fst y) (fst (place_leaf (drop cp (nibs k)) v r)) \<and>
                            snd y = snd (place_leaf (drop cp (nibs k)) v r))"
    using vc_place_new_key [OF H k kd len, of bv] by (simp add: bv)
  have "vc H (sbind (place_new_key H k cp v cs bv) (\<lambda>(cs', bv'). wrap_branch H k cp cs' bv')) s'
          (\<lambda>n s'. norm_node n = node_of H (mbranch (take cp (nibs k)) (place_leaf (drop cp (nibs k)) v r)) \<and>
                   stored H (entries s') (mbranch (take cp (nibs k)) (place_leaf (drop cp (nibs k)) v r)))"
  proof (rule vc_sbind [OF place])
    fix y s2
    assume "kids H (entries s2) (fst y) (fst (place_leaf (drop cp (nibs k)) v r)) \<and>
            snd y = snd (place_leaf (drop cp (nibs k)) v r)"
    then show "vc H (case y of (cs', bv') \<Rightarrow> wrap_branch H k cp cs' bv') s2
          (\<lambda>n s'. norm_node n = node_of H (mbranch (take cp (nibs k)) (place_leaf (drop cp (nibs k)) v r)) \<and>
                   stored H (entries s') (mbranch (take cp (nibs k)) (place_leaf (drop cp (nibs k)) v r)))"
      using vc_wrap_branch [OF H k(2), of s2 "fst y" "fst (place_leaf (drop cp (nibs k)) v r)"
          "snd (place_leaf (drop cp (nibs k)) v r)"] good by (auto split: prod.splits)
  qed (auto intro!: grows_intros)
  then show "vc H (case x of (cs, bv) \<Rightarrow> sbind (place_new_key H k cp v cs bv) (\<lambda>(cs', bv'). wrap_branch H k cp cs' bv')) s'
          (\<lambda>n s'. norm_node n = node_of H (mbranch (take cp (nibs k)) (place_leaf (drop cp (nibs k)) v r)) \<and>
                   stored H (entries s') (mbranch (take cp (nibs k)) (place_leaf (drop cp (nibs k)) v r)))"
    by (simp add: x)
qed (auto intro!: grows_intros)

text \<open>The recursive call below a child reference, followed by storing the result.\<close>

lemma vc_descend:
  assumes H: "hash_ok H" and s: "store_ok H s" and t: "mgood t" "stored_ref H (entries s) t"
    and c: "norm_ref c = ref_to H (node_of H t)" and u: "mgood u" "u \<noteq> MEmpty"
    and rec: "\<And>n. norm_node n = node_of H t \<Longrightarrow>
                vc H (f n) s (\<lambda>n' s'. norm_node n' = node_of H u \<and> stored H (entries s') u)"
    and g: "\<And>n. grows H (f n)" and gk: "\<And>r. grows H (K r)"
    and k: "\<And>r s'. entries s \<subseteq> entries s' \<Longrightarrow> norm_ref r = ref_to H (node_of H u) \<Longrightarrow>
              stored_ref H (entries s') u \<Longrightarrow> vc H (K r) s' Q"
  shows "vc H (sbind (sresolve c) (\<lambda>n. sbind (f n) (\<lambda>n'. sbind (store_node H n') K))) s Q"
proof (rule vc_sbind [OF vc_sresolve [OF H s t c]])
  show "grows H (sbind (f n) (\<lambda>n'. sbind (store_node H n') K))" for n
    using g gk by (intro grows_intros)
  fix n s' assume "s' = s \<and> norm_node n = node_of H t"
  then have n: "s' = s" "norm_node n = node_of H t" by auto
  show "vc H (sbind (f n) (\<lambda>n'. sbind (store_node H n') K)) s' Q"
    unfolding n(1)
  proof (rule vc_sbind [OF rec [OF n(2)]])
    show "grows H (sbind (store_node H n') K)" for n' using gk by (intro grows_intros)
    fix n' s1 assume s1: "entries s \<subseteq> entries s1" "norm_node n' = node_of H u \<and> stored H (entries s1) u"
    have "vc H (store_node H n') s1 (\<lambda>r s'. norm_ref r = ref_to H (node_of H u) \<and> stored_ref H (entries s') u)"
      by (rule vc_store_node) (use H u s1 in auto)
    then show "vc H (sbind (store_node H n') K) s1 Q"
      by (rule vc_sbind) (use gk k s1 in auto)
  qed
qed

lemma vc_insert_node:
  assumes "hash_ok H" "store_ok H s" "mgood t" "stored H (entries s) t" "norm_node n = node_of H t"
    "value_ok v" "nibble_path (nibs key)" "length (nibs key) \<le> key_bound" "depth \<le> length (nibs key)"
    "length (nibs key) - depth < fuel"
  shows "vc H (insert_node H fuel n key depth v) s
          (\<lambda>n' s'. norm_node n' = node_of H (minsert t (drop depth (nibs key)) v) \<and>
                    stored H (entries s') (minsert t (drop depth (nibs key)) v))"
  using assms
proof (induction fuel arbitrary: s t n depth)
  case (Suc fuel)
  let ?kr = "nib_slice key depth" and ?k = "drop depth (nibs key)"
  note H = Suc.prems(1) and good = Suc.prems(3) and st = Suc.prems(4) and n = Suc.prems(5)
  have kr: "mgood (MLeaf (nibs ?kr) v)"
    using Suc.prems by (simp add: mgood_MLeaf nibble_path_take_drop)
  have ins: "mgood (minsert t ?k v)"
    using Suc.prems by (intro mgood_minsert) (auto intro: nibble_path_take_drop)
  show ?case
  proof (cases t)
    case MEmpty
    then have "n = TEmpty" using n by simp
    then show ?thesis by (simp add: MEmpty Let_def)
  next
    case (MLeaf p w)
    then obtain pp where n': "n = Leaf pp w" "nibs pp = p"
      using n by (cases n) (auto simp: nib_of_def)
    let ?cp = "lcp ?k p"
    show ?thesis
    proof (cases "?k = p")
      case True
      then have "?cp = length p" using lcp_full by simp
      then show ?thesis using True n' MLeaf by (simp add: Let_def common_prefix_len_lcp)
    next
      case False
      have ne: "\<not> (?cp = length p \<and> ?cp = length ?k)"
        using False lcp_full [of ?k p] by auto
      have m: "minsert t ?k v = mbranch (take ?cp ?k) (place_leaf (drop ?cp ?k) v (place_leaf (drop ?cp p) w no_children))"
        using False MLeaf by (simp add: Let_def)
      have "mgood (MLeaf (nibs pp) w)" using good MLeaf n' by simp
      then have "vc H (place_old_leaf H pp ?cp w) s
          (\<lambda>y s'. kids H (entries s') (fst y) (fst (place_leaf (drop ?cp p) w no_children)) \<and>
                            snd y = snd (place_leaf (drop ?cp p) w no_children))"
        using vc_place_old_leaf [OF H, of pp w ?cp s] lcp_le [of ?k p] n' by simp
      from vc_split [OF H kr _ this, of ?cp] ins m lcp_le [of ?k p]
      show ?thesis using ne n' m
        by (auto simp: Let_def common_prefix_len_lcp)
    qed
  next
    case (MExt p u)
    then obtain pp c where n': "n = Extension pp c" "nibs pp = p" "norm_ref c = ref_to H (node_of H u)"
      using n by (cases n) (auto simp: nib_of_def)
    let ?cp = "lcp ?k p"
    show ?thesis
    proof (cases "?cp = length p")
      case True
      have le: "?cp \<le> length ?k" and p: "p \<noteq> []" using lcp_le [of ?k p] good MExt by (auto simp: mgood_def)
      have u: "mgood u" "stored_ref H (entries s) u" using mgood_MExtD good st MExt by auto
      have "length p > 0" using p by simp
      then have fuel: "length (nibs key) - (depth + ?cp) < fuel"
        using Suc.prems(9,10) le True by (simp, linarith)
      have ri: "minsert t ?k v = MExt p (minsert u (drop ?cp ?k) v)" using True MExt by (simp add: Let_def)
      have "vc H (sbind (sresolve c) (\<lambda>child_node.
             sbind (insert_node H fuel child_node key (depth + ?cp) v) (\<lambda>new_child.
             sbind (store_node H new_child) (\<lambda>r. sret (Extension pp r))))) s
          (\<lambda>n' s'. norm_node n' = node_of H (minsert t ?k v) \<and> stored H (entries s') (minsert t ?k v))"
      proof (rule vc_descend [OF H Suc.prems(2) u n'(3)])
        show "mgood (minsert u (drop ?cp ?k) v)" using ins ri mgood_MExtD by metis
        show "vc H (insert_node H fuel m key (depth + ?cp) v) s
           (\<lambda>n' s'. norm_node n' = node_of H (minsert u (drop ?cp ?k) v) \<and> stored H (entries s') (minsert u (drop ?cp ?k) v))"
          if "norm_node m = node_of H u" for m
          using Suc.IH [of s u m "depth + ?cp"] Suc.prems that u le fuel by (simp add: stored_ref_def add.commute)
      qed (auto intro!: grows_intros simp: n' ri)
      then show ?thesis using True n' by (simp add: Let_def common_prefix_len_lcp)
    next
      case False
      have cp: "?cp < length p" "?cp \<le> length ?k" using lcp_le [of ?k p] False by auto
      have m: "minsert t ?k v = mbranch (take ?cp ?k) (place_leaf (drop ?cp ?k) v (place_ext (drop ?cp p) u no_children))"
        using False MExt by (simp add: Let_def)
      have sn: "snd (place_ext (drop ?cp p) u no_children) = None"
        by (simp add: place_ext_def no_children_def split: list.splits)
      have "vc H (place_old_child H pp ?cp c) s
          (\<lambda>cs s'. kids H (entries s') cs (fst (place_ext (drop ?cp p) u no_children)))"
        using vc_place_old_child [OF H, of pp u ?cp c s] good st MExt n' cp by simp
      then have "vc H (sbind (place_old_child H pp ?cp c) (\<lambda>cs. sret (cs, None))) s
          (\<lambda>y s'. kids H (entries s') (fst y) (fst (place_ext (drop ?cp p) u no_children)) \<and>
                            snd y = snd (place_ext (drop ?cp p) u no_children))"
        by (rule vc_sbind) (auto intro!: grows_intros simp: sn)
      from vc_split [OF H kr _ this, of ?cp] ins m cp
      show ?thesis using False n' m
        by (auto simp: Let_def common_prefix_len_lcp sbind_assoc)
    qed
  next
    case (MBranch ts bv)
    then obtain cs where n': "n = Branch cs bv" "kids H (entries s) cs ts"
      using n st by (cases n) (auto simp: kids_def)
    have l: "length ts = 16" "length cs = 16" using good MBranch kids_length [OF n'(2)] by (auto simp: mgood_def)
    show ?thesis
    proof (cases "depth = length (nibs key)")
      case True
      then show ?thesis using n' MBranch by (simp add: Let_def kids_def)
    next
      case False
      let ?x = "nibs key ! depth"
      have d: "?k = ?x # drop (Suc depth) (nibs key)" and x: "unat ?x < 16"
        using False Suc.prems by (auto simp: Cons_nth_drop_Suc nibble_path_def)
      let ?u = "ts ! unat ?x" and ?u' = "minsert (ts ! unat ?x) (drop (Suc depth) (nibs key)) v"
      have u: "mgood ?u" "stored_ref H (entries s) ?u" "norm_ref (cs ! unat ?x) = ref_to H (node_of H ?u)"
        using kids_nth [OF n'(2)] x l good MBranch mgood_MBranchD [of ts bv ?u] by auto
      have m: "minsert t ?k v = MBranch (ts[unat ?x := ?u']) bv" using d MBranch by simp
      have "vc H (sbind (sresolve (cs ! unat ?x)) (\<lambda>child_node.
            sbind (insert_node H fuel child_node key (depth + 1) v) (\<lambda>new_child.
            sbind (store_node H new_child) (\<lambda>r'.
            sbind (slift (set_chk cs (unat ?x) r')) (\<lambda>cs'. sret (Branch cs' bv)))))) s
          (\<lambda>n' s'. norm_node n' = node_of H (minsert t ?k v) \<and> stored H (entries s') (minsert t ?k v))"
      proof (rule vc_descend [OF H Suc.prems(2) u])
        show "mgood ?u'"
          using u Suc.prems by (intro mgood_minsert) (auto intro: nibble_path_take_drop)
        show "vc H (insert_node H fuel m key (depth + 1) v) s
           (\<lambda>n' s'. norm_node n' = node_of H ?u' \<and> stored H (entries s') ?u')"
          if "norm_node m = node_of H ?u" for m
          using Suc.IH [of s ?u m "depth + 1"] Suc.prems that u False by (simp add: stored_ref_def)
        fix r s' assume "entries s \<subseteq> entries s'" "norm_ref r = ref_to H (node_of H ?u')" "stored_ref H (entries s') ?u'"
        then have "kids H (entries s') (cs[unat ?x := r]) (ts[unat ?x := ?u'])"
          using kids_update kids_mono n'(2) by blast
        then show "vc H (sbind (slift (set_chk cs (unat ?x) r)) (\<lambda>cs'. sret (Branch cs' bv))) s'
            (\<lambda>n' s'. norm_node n' = node_of H (minsert t ?k v) \<and> stored H (entries s') (minsert t ?k v))"
          using x l unfolding m by (simp add: set_chk_def kids_def)
      qed (auto intro!: grows_intros)
      then show ?thesis using False n' x l Suc.prems
        by (simp add: Let_def nib_at_nibs index_chk_def)
    qed
  qed
qed simp

section \<open>Deletion\<close>

lemma vc_merge_child:
  assumes H: "hash_ok H" and t: "mgood t" "stored H (entries s) t" "norm_node n = node_of H t"
  shows "vc H (case n of
              TEmpty \<Rightarrow> sret TEmpty
            | Leaf q v \<Rightarrow> sret (Leaf (nib_concat p q) v)
            | Extension q gc \<Rightarrow> sret (Extension (nib_concat p q) gc)
            | Branch cs bv \<Rightarrow> sbind (store_node H (Branch cs bv)) (\<lambda>r. sret (Extension p r))) s
          (\<lambda>n' s'. norm_node n' = node_of H (mconcat (nibs p) t) \<and> stored H (entries s') (mconcat (nibs p) t))"
proof (cases t)
  case (MBranch ts bv)
  then obtain cs where n: "n = Branch cs bv" using t(3) by (cases n) auto
  have store: "vc H (store_node H n) s
      (\<lambda>r s'. norm_ref r = ref_to H (node_of H t) \<and> stored_ref H (entries s') t)"
    by (rule vc_store_node) (use H t MBranch in auto)
  show ?thesis
    unfolding n trie_node.case by (rule vc_sbind [OF store [unfolded n]]) (auto simp: MBranch)
next
  case MEmpty
  then have "n = TEmpty" using t(3) by simp
  then show ?thesis by (simp add: MEmpty)
next
  case (MLeaf q v)
  then obtain qq where n: "n = Leaf qq v" "nibs qq = q" using t(3) by (cases n) (auto simp: nib_of_def)
  show ?thesis by (simp add: n MLeaf nib_concat_eq)
next
  case (MExt q u)
  then obtain qq c where n: "n = Extension qq c" "nibs qq = q" "norm_ref c = ref_to H (node_of H u)"
    using t(3) by (cases n) (auto simp: nib_of_def)
  show ?thesis using t(2) by (simp add: n MExt nib_concat_eq)
qed

lemma occupied_kids:
  assumes "kids H E cs ts" "length ts = 16"
  shows "filter (\<lambda>i. cs ! i \<noteq> REmpty) [0..<16] = occupied ts"
proof -
  have "cs ! i \<noteq> REmpty \<longleftrightarrow> ts ! i \<noteq> MEmpty" if "i < 16" for i
    using kids_nth(1) [OF assms(1), of i] that assms(2) by (metis norm_REmpty node_of_TEmpty ref_to_REmpty)
  then show ?thesis using assms(2) by (auto simp: occupied_def intro!: filter_cong)
qed

lemma and_nibble: "i < 16 \<Longrightarrow> (of_nat i :: byte) AND 0x0f = of_nat i"
proof -
  assume "i < 16"
  then have "unat (of_nat i :: byte) < 16" by simp
  then have "bit (of_nat i :: byte) n \<Longrightarrow> n < 4" for n using nibble_bits by blast
  then show ?thesis unfolding nibble_mask by (intro bit_eqI) (auto simp: bit_simps)
qed

lemma vc_maybe_collapse:
  assumes H: "hash_ok H" and s: "store_ok H s" and k: "kids H (entries s) cs ts" "length ts = 16"
    and good: "\<And>t. t \<in> set ts \<Longrightarrow> mgood t"
  shows "vc H (maybe_collapse_branch H cs bv) s
          (\<lambda>n s'. norm_node n = node_of H (mcollapse ts bv) \<and> stored H (entries s') (mcollapse ts bv))"
proof (cases rule: mcollapse_cases [of ts bv])
  case (3 i)
  have i: "i < 16" "ts ! i \<in> set ts" using occupied_single [OF 3(1)] k(2) by auto
  then have t: "mgood (ts ! i)" "stored_ref H (entries s) (ts ! i)" "norm_ref (cs ! i) = ref_to H (node_of H (ts ! i))"
    using good kids_nth [OF k(1)] k(2) by auto
  have p: "nibs (nib_single (of_nat i)) = [of_nat i]"
    by (simp add: nib_single_def nibs_def and_nibble i)
  have "vc H (sbind (sresolve (cs ! i)) (\<lambda>n. case n of
              TEmpty \<Rightarrow> sret TEmpty
            | Leaf q v \<Rightarrow> sret (Leaf (nib_concat (nib_single (of_nat i)) q) v)
            | Extension q gc \<Rightarrow> sret (Extension (nib_concat (nib_single (of_nat i)) q) gc)
            | Branch cs bv \<Rightarrow> sbind (store_node H (Branch cs bv)) (\<lambda>r. sret (Extension (nib_single (of_nat i)) r)))) s
          (\<lambda>n s'. norm_node n = node_of H (mcollapse ts bv) \<and> stored H (entries s') (mcollapse ts bv))"
  proof (rule vc_sbind [OF vc_sresolve [OF H s t]])
    fix n s' assume "s' = s \<and> norm_node n = node_of H (ts ! i)"
    then show "vc H (case n of
              TEmpty \<Rightarrow> sret TEmpty
            | Leaf q v \<Rightarrow> sret (Leaf (nib_concat (nib_single (of_nat i)) q) v)
            | Extension q gc \<Rightarrow> sret (Extension (nib_concat (nib_single (of_nat i)) q) gc)
            | Branch cs bv \<Rightarrow> sbind (store_node H (Branch cs bv)) (\<lambda>r. sret (Extension (nib_single (of_nat i)) r))) s'
          (\<lambda>n s'. norm_node n = node_of H (mcollapse ts bv) \<and> stored H (entries s') (mcollapse ts bv))"
      using vc_merge_child [OF H t(1), of s n "nib_single (of_nat i)"] t(2)
      by (simp add: 3(3) p stored_ref_def)
  qed (intro grows_intros)
  then show ?thesis
    by (simp add: maybe_collapse_branch_def occupied_kids [OF k] 3(1,2) Let_def)
next
  case 4
  have "length (occupied ts) + (if bv = None then 0 else 1) \<ge> 2" using 4(2) by (simp add: weight_def)
  then have "maybe_collapse_branch H cs bv = sret (Branch cs bv)"
    by (auto simp: maybe_collapse_branch_def occupied_kids [OF k] Let_def split: list.splits option.splits if_splits)
  then show ?thesis using branch_rep [of cs bv H ts bv "entries s"] k(1) by (simp add: 4(1))
qed (simp_all add: maybe_collapse_branch_def occupied_kids [OF k] nib_of_def nib_empty_def nibs_def)

lemma vc_store_or_empty:
  assumes "hash_ok H" "mgood t" "stored H (entries s) t" "norm_node n = node_of H t"
  shows "vc H (if n = TEmpty then sret REmpty else store_node H n) s
          (\<lambda>r s'. norm_ref r = ref_to H (node_of H t) \<and> stored_ref H (entries s') t)"
proof (cases "t = MEmpty")
  case True
  then show ?thesis using assms by simp
next
  case False
  then have "n \<noteq> TEmpty" using assms(4) by (metis node_of_TEmpty norm_TEmpty)
  then show ?thesis using vc_store_node [OF assms(1,2) False assms(3,4)] by simp
qed

lemma vc_delete_node:
  assumes "hash_ok H" "store_ok H s" "mgood t" "stored H (entries s) t" "norm_node n = node_of H t"
    "nibble_path (nibs key)" "depth \<le> length (nibs key)" "length (nibs key) - depth < fuel"
  shows "vc H (delete_node H fuel n key depth) s
          (\<lambda>y s'. snd y = snd (mdelete t (drop depth (nibs key))) \<and>
                   norm_node (fst y) = node_of H (fst (mdelete t (drop depth (nibs key)))) \<and>
                   stored H (entries s') (fst (mdelete t (drop depth (nibs key)))))"
  using assms
proof (induction fuel arbitrary: s t n depth)
  case (Suc fuel)
  let ?kr = "nib_slice key depth" and ?k = "drop depth (nibs key)"
  note H = Suc.prems(1) and s = Suc.prems(2) and good = Suc.prems(3) and st = Suc.prems(4) and n = Suc.prems(5)
  show ?case
  proof (cases t)
    case MEmpty
    then have "n = TEmpty" using n by simp
    then show ?thesis by (simp add: MEmpty Let_def)
  next
    case (MLeaf p w)
    then obtain pp where n': "n = Leaf pp w" "nibs pp = p"
      using n by (cases n) (auto simp: nib_of_def)
    have "?k = p \<longleftrightarrow> length ?k = length p \<and> lcp ?k p = length p"
      using lcp_full [of ?k p] by auto
    then show ?thesis using n' n MLeaf by (auto simp: Let_def common_prefix_len_lcp)
  next
    case (MExt p u)
    then obtain pp c where n': "n = Extension pp c" "nibs pp = p" "norm_ref c = ref_to H (node_of H u)"
      using n by (cases n) (auto simp: nib_of_def)
    show ?thesis
    proof (cases "take (length p) ?k = p")
      case False
      then have "lcp ?k p \<noteq> length p" using lcp_full by blast
      then show ?thesis using False n' n st MExt by (simp add: Let_def common_prefix_len_lcp)
    next
      case True
      then have cp: "lcp ?k p = length p" using lcp_full by blast
      have le: "length p \<le> length ?k" and p: "p \<noteq> []"
        using lcp_le [of ?k p] cp good MExt by (auto simp: mgood_def)
      have "length p > 0" using p by simp
      then have fuel: "length (nibs key) - (depth + length p) < fuel"
        using Suc.prems(7,8) le by (simp, linarith)
      have u: "mgood u" "stored_ref H (entries s) u" using mgood_MExtD good st MExt by auto
      obtain u' rm where d: "mdelete u (drop (length p) ?k) = (u', rm)" by fastforce
      have u': "mgood u'" using mgood_mdelete [OF u(1), of "drop (length p) ?k"] d Suc.prems(6)
        by (simp add: nibble_path_take_drop)
      have rec: "vc H (delete_node H fuel m key (depth + length p)) s
           (\<lambda>y s'. snd y = rm \<and> norm_node (fst y) = node_of H u' \<and> stored H (entries s') u')"
        if "norm_node m = node_of H u" for m
        using Suc.IH [of s u m "depth + length p"] Suc.prems that u le fuel d
        by (simp add: stored_ref_def add.commute)
      have res: "mdelete t ?k = (if rm then (mconcat p u', True) else (t, False))"
        using True d MExt by (auto split: prod.splits)
      show ?thesis
        using n' cp unfolding delete_node.simps
        apply (simp add: Let_def common_prefix_len_lcp)
        apply (rule vc_sbind [OF vc_sresolve [OF H s u n'(3)]])
         apply (auto intro!: grows_intros split: trie_node.splits)[1]
        apply (elim conjE, simp)
        apply (rule vc_sbind [OF rec])
          apply simp
         apply (auto intro!: grows_intros split: trie_node.splits)[1]
        subgoal for m s' y s2
          using vc_sbind [OF vc_merge_child [OF H u', of s2 "fst y" pp], of "\<lambda>x. sret (x, True)"] n n'
            stored_mono [OF st, of "entries s2"]
          by (cases y) (auto simp: res)
        done
    qed
  next
    case (MBranch ts bv)
    then obtain cs where n': "n = Branch cs bv" "kids H (entries s) cs ts"
      using n st by (cases n) (auto simp: kids_def)
    have l: "length ts = 16" "length cs = 16" using good MBranch kids_length [OF n'(2)] by (auto simp: mgood_def)
    have goods: "\<And>t. t \<in> set ts \<Longrightarrow> mgood t" using good MBranch mgood_MBranchD by blast
    show ?thesis
    proof (cases "depth = length (nibs key)")
      case True
      then have k: "?k = []" by simp
      show ?thesis
      proof (cases bv)
        case None
        then show ?thesis using True n n' st MBranch by (simp add: Let_def)
      next
        case (Some w)
        then show ?thesis using True n' MBranch
            vc_sbind [OF vc_maybe_collapse [OF H s n'(2) l(1) goods, of None], of "\<lambda>x. sret (x, True)"]
          by (auto simp: Let_def)
      qed
    next
      case False
      let ?x = "nibs key ! depth"
      have d: "?k = ?x # drop (Suc depth) (nibs key)" and x: "unat ?x < 16"
        using False Suc.prems by (auto simp: Cons_nth_drop_Suc nibble_path_def)
      let ?u = "ts ! unat ?x"
      have u: "mgood ?u" "stored_ref H (entries s) ?u" "norm_ref (cs ! unat ?x) = ref_to H (node_of H ?u)"
        using kids_nth [OF n'(2)] x l good MBranch mgood_MBranchD [of ts bv ?u] by auto
      obtain u' rm where du: "mdelete ?u (drop (Suc depth) (nibs key)) = (u', rm)" by fastforce
      have u': "mgood u'" using mgood_mdelete [OF u(1), of "drop (Suc depth) (nibs key)"] du Suc.prems(6)
        by (simp add: nibble_path_take_drop)
      have rec: "vc H (delete_node H fuel m key (Suc depth)) s
           (\<lambda>y s'. snd y = rm \<and> norm_node (fst y) = node_of H u' \<and> stored H (entries s') u')"
        if "norm_node m = node_of H ?u" for m
        using Suc.IH [of s ?u m "depth + 1"] Suc.prems that u False du by (simp add: stored_ref_def)
      have res: "mdelete t ?k = (if rm then (mcollapse (ts[unat ?x := u']) bv, True) else (t, False))"
        using d du MBranch by auto
      have tail: "vc H (sbind (if m = TEmpty then sret REmpty else store_node H m) (\<lambda>r'.
              sbind (slift (set_chk cs (unat ?x) r')) (\<lambda>children'.
              sbind (maybe_collapse_branch H children' bv) (\<lambda>collapsed.
              sret (collapsed, True))))) s2
           (\<lambda>y s'. snd y \<and> norm_node (fst y) = node_of H (mcollapse (ts[unat ?x := u']) bv) \<and>
                    stored H (entries s') (mcollapse (ts[unat ?x := u']) bv))"
        if s2: "entries s \<subseteq> entries s2" and m: "norm_node m = node_of H u'" "stored H (entries s2) u'" for m s2
      proof (rule vc_sbind [OF vc_store_or_empty [OF H u' m(2,1)]])
        fix r s3
        assume 3: "entries s2 \<subseteq> entries s3" "store_ok H s3"
          "norm_ref r = ref_to H (node_of H u') \<and> stored_ref H (entries s3) u'"
        then have kd: "kids H (entries s3) (cs[unat ?x := r]) (ts[unat ?x := u'])"
          using kids_update kids_mono [OF n'(2)] s2 by blast
        have "mgood t" if "t \<in> set (ts[unat ?x := u'])" for t
          using that goods u' set_update_subset_insert [of ts "unat ?x" u'] by auto
        then have "vc H (maybe_collapse_branch H (cs[unat ?x := r]) bv) s3
          (\<lambda>n s'. norm_node n = node_of H (mcollapse (ts[unat ?x := u']) bv) \<and>
                   stored H (entries s') (mcollapse (ts[unat ?x := u']) bv))"
          using vc_maybe_collapse [OF H 3(2) kd] l by simp
        then show "vc H (sbind (slift (set_chk cs (unat ?x) r)) (\<lambda>children'.
              sbind (maybe_collapse_branch H children' bv) (\<lambda>collapsed. sret (collapsed, True)))) s3
           (\<lambda>y s'. snd y \<and> norm_node (fst y) = node_of H (mcollapse (ts[unat ?x := u']) bv) \<and>
                    stored H (entries s') (mcollapse (ts[unat ?x := u']) bv))"
          using x l by (simp add: set_chk_def) (erule vc_sbind, auto)
      qed (auto intro!: grows_intros)
      show ?thesis
        using n' False Suc.prems(7) x l unfolding delete_node.simps
        apply (simp add: Let_def nib_at_nibs index_chk_def)
        apply (rule vc_sbind [OF vc_sresolve [OF H s u]])
         apply (auto intro!: grows_intros)[1]
        apply (elim conjE, simp)
        apply (rule vc_sbind [OF rec])
          apply simp
         apply (auto intro!: grows_intros)[1]
        subgoal for m s' y s2
          using vc_conseq [OF tail [of s2 "fst y"]] n n' stored_mono [OF st, of "entries s2"]
          by (cases y) (auto simp: res)
        done
    qed
  qed
qed simp

section \<open>Lookup\<close>

lemma get_node_resolved:
  assumes "hash_ok H" "store_ok H s" "mgood t" "stored H (entries s) t"
    "\<exists>n. resolve s r = Inr n \<and> norm_node n = node_of H t" "nibble_path (nibs key)" "depth \<le> length (nibs key)" "length (nibs key) - depth < fuel"
  shows "get_node fuel s r key depth = Inr (mlookup t (drop depth (nibs key)))"
  using assms
proof (induction fuel arbitrary: t r depth)
  case (Suc fuel)
  let ?k = "drop depth (nibs key)"
  obtain n where n: "resolve s r = Inr n" "norm_node n = node_of H t"
    using Suc.prems(5) by blast
  note st = Suc.prems(4) and res = resolve_ref_to [OF Suc.prems(1,2)]
  show ?case
  proof (cases t)
    case MEmpty
    then have "n = TEmpty" using n by simp
    then show ?thesis using n(1) by (simp add: MEmpty)
  next
    case (MLeaf p w)
    then obtain pp where n': "n = Leaf pp w" "nibs pp = p" using n by (cases n) (auto simp: nib_of_def)
    have "?k = p \<longleftrightarrow> lcp ?k p = length p \<and> length p = length ?k" using lcp_full [of ?k p] by auto
    then show ?thesis using n' n(1) MLeaf by (auto simp: Let_def common_prefix_len_lcp)
  next
    case (MExt p u)
    then obtain pp c where n': "n = Extension pp c" "nibs pp = p" "norm_ref c = ref_to H (node_of H u)"
      using n by (cases n) (auto simp: nib_of_def)
    show ?thesis
    proof (cases "take (length p) ?k = p")
      case False
      then have "lcp ?k p < length p" using lcp_full [of ?k p] lcp_le [of ?k p] by auto
      then show ?thesis using False n' n(1) MExt by (simp add: Let_def common_prefix_len_lcp)
    next
      case True
      then have cp: "lcp ?k p = length p" using lcp_full by blast
      have le: "length p \<le> length ?k" and p: "0 < length p"
        using lcp_le [of ?k p] cp Suc.prems(3) MExt by (auto simp: mgood_def)
      have fuel: "length (nibs key) - (depth + length p) < fuel" using Suc.prems(7,8) le p by (simp, linarith)
      have "get_node fuel s c key (depth + length p) = Inr (mlookup u (drop (depth + length p) (nibs key)))"
        by (rule Suc.IH) (use Suc.prems st MExt n' fuel le mgood_MExtD [of p u] res [of u c] in \<open>auto simp: stored_ref_def\<close>)
      then show ?thesis using True cp n' n(1) MExt
        by (simp add: Let_def common_prefix_len_lcp add.commute)
    qed
  next
    case (MBranch ts bv)
    then obtain cs where n': "n = Branch cs bv" "kids H (entries s) cs ts"
      using n st by (cases n) (auto simp: kids_def)
    have l: "length ts = 16" "length cs = 16" using Suc.prems(3) MBranch kids_length [OF n'(2)] by (auto simp: mgood_def)
    show ?thesis
    proof (cases "depth = length (nibs key)")
      case True
      then show ?thesis using n' n(1) MBranch by simp
    next
      case False
      let ?x = "nibs key ! depth"
      have d: "?k = ?x # drop (Suc depth) (nibs key)" and x: "unat ?x < 16"
        using False Suc.prems by (auto simp: Cons_nth_drop_Suc nibble_path_def)
      have "get_node fuel s (cs ! unat ?x) key (depth + 1) = Inr (mlookup (ts ! unat ?x) (drop (depth + 1) (nibs key)))"
        by (rule Suc.IH)
           (use Suc.prems kids_nth [OF n'(2), of "unat ?x"] x l False MBranch mgood_MBranchD [of ts bv "ts ! unat ?x"]
              res [of "ts ! unat ?x" "cs ! unat ?x"] in \<open>auto simp: stored_ref_def\<close>)
      then show ?thesis using False n' n(1) MBranch x l d Suc.prems(7)
        by (simp add: nib_at_nibs index_chk_def)
    qed
  qed
qed simp

section \<open>The whole trie\<close>

definition byte_keys :: "mpt \<Rightarrow> bool" where
  "byte_keys t \<longleftrightarrow> (\<forall>k. mlookup t k \<noteq> None \<longrightarrow> (\<exists>key. k = nibs (from_bytes key)))"

definition trie_rep :: "(bytes \<Rightarrow> bytes) \<Rightarrow> mutable_trie \<Rightarrow> mpt \<Rightarrow> bool" where
  "trie_rep H s t \<longleftrightarrow> mgood t \<and> byte_keys t \<and> root s = mpt_root H t \<and> hashed H s \<and> stored H (entries s) t \<and>
     (t \<noteq> MEmpty \<longrightarrow> (root s, node_bytes (node_of H t)) \<in> entries s)"

lemma node_bytes_ne_empty:
  assumes "hash_ok H" "mgood t" "t \<noteq> MEmpty"
  shows "node_bytes (node_of H t) \<noteq> [0x80]"
proof
  assume "node_bytes (node_of H t) = [0x80]"
  then have "decode_node [0x80] = Inr (node_of H t)" using decode_node_of [OF assms(1,2)] by simp
  moreover have "decode_node [0x80] = Inr TEmpty"
    by (subst decode_node.simps) (simp add: item_count_def)
  ultimately show False using assms(3) by (metis node_of_TEmpty sum.inject(2))
qed

lemma resolve_root:
  assumes "hash_ok H" "coll_free H s" "trie_rep H s t" "t \<noteq> MEmpty"
  shows "root s \<noteq> EMPTY_ROOT" and "resolve s (RHash (root s)) = Inr (node_of H t)"
proof -
  let ?b = "node_bytes (node_of H t)"
  have ok: "store_ok H s" and e: "(root s, ?b) \<in> entries s" and r: "root s = H ?b" and good: "mgood t"
    using assms by (auto simp: trie_rep_def store_ok_def mpt_root_def)
  show ne: "root s \<noteq> EMPTY_ROOT"
  proof
    assume "root s = EMPTY_ROOT"
    then have "H ?b = H [0x80]" using r assms(1) by (simp add: hash_ok_def)
    moreover have "?b \<in> snd ` entries s" using e by (metis image_eqI snd_conv)
    ultimately have "?b = [0x80]" using assms(2) unfolding coll_free_def by (metis inj_onD insertCI)
    then show False using node_bytes_ne_empty [OF assms(1) good assms(4)] by simp
  qed
  show "resolve s (RHash (root s)) = Inr (node_of H t)"
    using ne entry_fetch [OF ok e] decode_node_of [OF assms(1) good] by (simp add: resolve_def)
qed

lemma trie_get_rep:
  assumes "hash_ok H" "coll_free H s" "trie_rep H s t" "2 * length key + 1 < fuel"
  shows "trie_get fuel s key = Inr (mlookup t (nibs (from_bytes key)))"
proof (cases "t = MEmpty")
  case True
  then show ?thesis using assms by (simp add: trie_get_def trie_rep_def mpt_root_def)
next
  case False
  note r = resolve_root [OF assms(1-3) False]
  have ok: "store_ok H s" "mgood t" "stored H (entries s) t"
    using assms by (auto simp: trie_rep_def store_ok_def)
  have "get_node fuel s (RHash (root s)) (from_bytes key) 0 = Inr (mlookup t (drop 0 (nibs (from_bytes key))))"
    by (rule get_node_resolved) (use assms ok r nibs_from_bytes [of key] in auto)
  then show ?thesis using r by (simp add: trie_get_def)
qed

end
