(* ===== verification/Trie_Props.thy ===== *)
theory Trie_Props
  imports Trie_Refine
begin

text \<open>
  The trie as a map with an authenticated root: every operation of \<^verbatim>\<open>MutableTrie\<close> keeps the
  representation, so lookups after insertions and deletions are those of a finite map,
  and the root hash is determined by that map alone.
\<close>

section \<open>Operations keep the representation\<close>

lemma grows_trie_insert [grows_intros]: "grows H (trie_insert H fuel key v)"
  unfolding trie_insert_def by (auto intro!: grows_intros)

lemma grows_trie_delete [grows_intros]: "grows H (trie_delete H fuel key)"
  unfolding trie_delete_def by (auto intro!: grows_intros)

lemma vc_commit_root:
  assumes "hash_ok H" "mgood t" "stored H (entries s) t" "norm_node n = node_of H t"
  shows "vc H (commit_root H n) s
          (\<lambda>h s'. h = mpt_root H t \<and> (t \<noteq> MEmpty \<longrightarrow> (h, node_bytes (node_of H t)) \<in> entries s'))"
proof (cases "t = MEmpty")
  case True
  then have "n = TEmpty" using assms(4) by simp
  then show ?thesis by (simp add: commit_root_def True mpt_root_def)
next
  case False
  then have ne: "n \<noteq> TEmpty" using assms(4) by (metis node_of_TEmpty norm_TEmpty)
  have enc: "encode_node n = (Inr (node_bytes (node_of H t)) :: (trie_error, bytes) res)"
    by (rule encode_node_of [OF assms(1,2,4)])
  show ?thesis using enc ne False assms(1)
    by (auto simp: commit_root_def vc_def sbind_def sret_def smod_def h256_from_slice_def hash_ok_def
                   mpt_root_def entries_def)
qed

lemma vc_set_root:
  "Q () (s\<lparr>root := h\<rparr>) \<Longrightarrow> vc H (smod (\<lambda>s. s\<lparr>root := h\<rparr>)) s Q"
  by (simp add: vc_def smod_def entries_def)

lemma entries_root [simp]: "entries (s\<lparr>root := h\<rparr>) = entries s"
  by (simp add: entries_def)

lemma hashed_root [simp]: "hashed H (s\<lparr>root := h\<rparr>) = hashed H s"
  by (simp add: hashed_def)

lemma vc_commit_new_root:
  assumes "hash_ok H" "mgood t" "stored H (entries s) t" "norm_node n = node_of H t" "byte_keys t"
    and "\<And>s'. trie_rep H s' t \<Longrightarrow> vc H K s' Q" and "grows H K"
  shows "vc H (sbind (commit_root H n) (\<lambda>h. sbind (smod (\<lambda>s. s\<lparr>root := h\<rparr>)) (\<lambda>_. K))) s Q"
proof (rule vc_sbind [OF vc_commit_root [OF assms(1-4)]])
  show "grows H (sbind (smod (\<lambda>s. s\<lparr>root := h\<rparr>)) (\<lambda>_. K))" for h
    using assms(7) by (auto intro!: grows_intros)
  fix h s'
  assume s': "entries s \<subseteq> entries s'" "store_ok H s'"
    and h: "h = mpt_root H t \<and> (t \<noteq> MEmpty \<longrightarrow> (h, node_bytes (node_of H t)) \<in> entries s')"
  have "trie_rep H (s'\<lparr>root := h\<rparr>) t"
    using s' h assms stored_mono [of H "entries s" t "entries s'"]
    by (auto simp: trie_rep_def store_ok_def)
  then have K: "vc H K (s'\<lparr>root := h\<rparr>) Q" by (rule assms(6))
  show "vc H (sbind (smod (\<lambda>s. s\<lparr>root := h\<rparr>)) (\<lambda>_. K)) s' Q"
    by (rule vc_sbind [OF vc_set_root [where Q = "\<lambda>_ s2. s2 = s'\<lparr>root := h\<rparr>"]]) (use K assms(7) in auto)
qed

lemma byte_keys_minsert:
  "mwf t \<Longrightarrow> byte_keys t \<Longrightarrow> byte_keys (minsert t (nibs (from_bytes key)) v)"
  by (auto simp: byte_keys_def mlookup_minsert nibs_from_bytes split: if_splits)

lemma byte_keys_mdelete:
  "mwf t \<Longrightarrow> byte_keys t \<Longrightarrow> byte_keys (fst (mdelete t (nibs (from_bytes key))))"
  by (auto simp: byte_keys_def mdelete_correct nibs_from_bytes split: if_splits)

text \<open>Keys and values within the sizes a \<^verbatim>\<open>Vec\<close> of the node can hold.\<close>

definition key_ok :: "bytes \<Rightarrow> bool" where
  "key_ok key \<longleftrightarrow> length key \<le> 2 ^ 32"

lemma key_ok_bound: "key_ok key \<Longrightarrow> length (nibs (from_bytes key)) \<le> key_bound"
  by (simp add: key_ok_def nibs_from_bytes key_bound_def)

lemma vc_resolve_root:
  assumes "hash_ok H" "trie_rep H s t"
  shows "vc H (if root s = EMPTY_ROOT then sret TEmpty else sresolve (RHash (root s))) s
           (\<lambda>n s'. s' = s \<and> norm_node n = node_of H t)"
proof (rule vc_pre)
  show "grows H (if root s = EMPTY_ROOT then sret TEmpty else sresolve (RHash (root s)))"
    by (intro grows_intros)
  assume ok: "store_ok H s"
  show "vc H (if root s = EMPTY_ROOT then sret TEmpty else sresolve (RHash (root s))) s
           (\<lambda>n s'. s' = s \<and> norm_node n = node_of H t)"
  proof (cases "t = MEmpty")
    case True
    then show ?thesis using assms by (simp add: trie_rep_def mpt_root_def)
  next
    case False
    then show ?thesis using resolve_root [OF assms(1) _ assms(2) False] ok
      by (auto simp: vc_def sresolve_def store_ok_def)
  qed
qed

lemma vc_trie_insert:
  assumes H: "hash_ok H" and rep: "trie_rep H s t" and v: "value_ok v" and key: "key_ok key"
    and fuel: "2 * length key < fuel"
  shows "vc H (trie_insert H fuel key v) s (\<lambda>_ s'. trie_rep H s' (minsert t (nibs (from_bytes key)) v))"
proof -
  let ?t' = "minsert t (nibs (from_bytes key)) v"
  have t: "mgood t" "byte_keys t" "stored H (entries s) t" using rep by (auto simp: trie_rep_def)
  have t': "mgood ?t'" "byte_keys ?t'"
    using t v key_ok_bound [OF key] mgood_mwf [OF t(1)]
    by (auto simp: nibs_from_bytes intro!: mgood_minsert byte_keys_minsert)
  have "vc H (sbind (if root s = EMPTY_ROOT then sret TEmpty else sresolve (RHash (root s))) (\<lambda>old_root.
      sbind (insert_node H fuel old_root (from_bytes key) 0 v) (\<lambda>new_root_node.
      sbind (commit_root H new_root_node) (\<lambda>h.
      sbind (smod (\<lambda>s. s\<lparr>root := h\<rparr>)) (\<lambda>_. sret ()))))) s (\<lambda>_ s'. trie_rep H s' ?t')"
  proof (rule vc_sbind [OF vc_resolve_root [OF H rep]])
    fix n s' assume "store_ok H s'" "s' = s \<and> norm_node n = node_of H t"
    then have n: "s' = s" "store_ok H s" "norm_node n = node_of H t" by auto
    have "vc H (insert_node H fuel n (from_bytes key) 0 v) s
          (\<lambda>n' s'. norm_node n' = node_of H ?t' \<and> stored H (entries s') ?t')"
      using vc_insert_node [OF H n(2) t(1,3) n(3) v, of "from_bytes key" 0 fuel] key_ok_bound [OF key] fuel
      by (simp add: nibs_from_bytes)
    then show "vc H (sbind (insert_node H fuel n (from_bytes key) 0 v) (\<lambda>new_root_node.
      sbind (commit_root H new_root_node) (\<lambda>h.
      sbind (smod (\<lambda>s. s\<lparr>root := h\<rparr>)) (\<lambda>_. sret ())))) s' (\<lambda>_ s'. trie_rep H s' ?t')"
      unfolding n(1)
    proof (rule vc_sbind)
      fix n' s2 assume "norm_node n' = node_of H ?t' \<and> stored H (entries s2) ?t'"
      then show "vc H (sbind (commit_root H n') (\<lambda>h. sbind (smod (\<lambda>s. s\<lparr>root := h\<rparr>)) (\<lambda>_. sret ()))) s2
          (\<lambda>_ s'. trie_rep H s' ?t')"
        using H t' by (intro vc_commit_new_root [where t = ?t']) auto
    qed (intro grows_intros)
  qed (auto intro!: grows_intros)
  then show ?thesis
    by (simp add: trie_insert_def vc_def Let_def sbind_def [of "sget root"] sget_def)
qed

text \<open>Only the last step of an operation writes the root.\<close>

definition keeps_root :: "'a trie_m \<Rightarrow> bool" where
  "keeps_root m \<longleftrightarrow> (\<forall>s. root (snd (m s)) = root s)"

named_theorems root_intros

lemma root_basic [root_intros, simp]:
  "keeps_root (sret x)" "keeps_root (sfail e)" "keeps_root (slift m)" "keeps_root (sresolve r)"
  "keeps_root (smod (\<lambda>s. s\<lparr>cache := f s\<rparr>))"
  by (simp_all add: keeps_root_def sret_def sfail_def slift_def sresolve_def smod_def)

lemma root_sbind [root_intros]: "keeps_root m \<Longrightarrow> (\<And>x. keeps_root (f x)) \<Longrightarrow> keeps_root (sbind m f)"
  unfolding keeps_root_def sbind_def by (auto split: prod.splits sum.splits) (metis snd_conv)+

lemma root_if [root_intros]: "(b \<Longrightarrow> keeps_root x) \<Longrightarrow> (\<not> b \<Longrightarrow> keeps_root y) \<Longrightarrow> keeps_root (if b then x else y)"
  by simp

lemma root_prod [root_intros]: "(\<And>a b. keeps_root (f a b)) \<Longrightarrow> keeps_root (case_prod f p)"
  by (cases p) simp

lemma root_node [root_intros]:
  "keeps_root a \<Longrightarrow> (\<And>p v. keeps_root (l p v)) \<Longrightarrow> (\<And>p c. keeps_root (x p c)) \<Longrightarrow> (\<And>cs v. keeps_root (b cs v)) \<Longrightarrow>
   keeps_root (case_trie_node a l x b n)"
  by (cases n) auto

lemma root_store_node [root_intros]: "keeps_root (store_node H n)"
  unfolding store_node_def by (intro root_intros)

lemma root_maybe_collapse [root_intros]: "keeps_root (maybe_collapse_branch H cs v)"
  unfolding maybe_collapse_branch_def
  by (auto simp: Let_def split: list.splits option.splits intro!: root_intros)

lemma root_delete_node [root_intros]: "keeps_root (delete_node H f n k d)"
proof (induction f arbitrary: n d)
  case (Suc f)
  then show ?case by (auto simp: Let_def intro!: root_intros split: trie_node.splits)
qed simp

lemma vc_keeps: "vc H m s Q \<Longrightarrow> keeps_root m \<Longrightarrow> vc H m s (\<lambda>x s'. Q x s' \<and> root s' = root s)"
  by (auto simp: vc_def keeps_root_def)

lemma vc_trie_delete:
  assumes H: "hash_ok H" and rep: "trie_rep H s t" and fuel: "2 * length key < fuel"
  shows "vc H (trie_delete H fuel key) s
          (\<lambda>b s'. b = snd (mdelete t (nibs (from_bytes key))) \<and> trie_rep H s' (fst (mdelete t (nibs (from_bytes key)))))"
proof -
  let ?k = "nibs (from_bytes key)"
  let ?t' = "fst (mdelete t ?k)" and ?rm = "snd (mdelete t ?k)"
  have t: "mgood t" "byte_keys t" "stored H (entries s) t" using rep by (auto simp: trie_rep_def)
  have t': "mgood ?t'" "byte_keys ?t'" and same: "\<not> ?rm \<Longrightarrow> ?t' = t"
    using t mgood_mwf [OF t(1)] mgood_mdelete byte_keys_mdelete nibs_from_bytes mdelete_unchanged by auto
  have main: "vc H (sbind (sresolve (RHash (root s))) (\<lambda>old_root.
       sbind (delete_node H fuel old_root (from_bytes key) 0) (\<lambda>(new_root_node, removed).
       if \<not> removed then sret False
       else sbind (commit_root H new_root_node) (\<lambda>h. sbind (smod (\<lambda>s. s\<lparr>root := h\<rparr>)) (\<lambda>_. sret True))))) s
       (\<lambda>b s'. b = ?rm \<and> trie_rep H s' ?t')" (is "vc H ?m s ?Q")
    if "root s \<noteq> EMPTY_ROOT"
  proof (rule vc_sbind [OF vc_resolve_root [OF H rep, unfolded if_not_P [OF that]]])
    fix n s' assume "store_ok H s'" "s' = s \<and> norm_node n = node_of H t"
    then have n: "s' = s" "store_ok H s" "norm_node n = node_of H t" by auto
    have "vc H (delete_node H fuel n (from_bytes key) 0) s
          (\<lambda>y s'. (snd y = ?rm \<and> norm_node (fst y) = node_of H ?t' \<and> stored H (entries s') ?t') \<and> root s' = root s)"
      using vc_delete_node [OF H n(2) t(1,3) n(3), of "from_bytes key" 0 fuel] fuel
      by (intro vc_keeps root_delete_node) (simp add: nibs_from_bytes)
    then show "vc H (sbind (delete_node H fuel n (from_bytes key) 0) (\<lambda>(new_root_node, removed).
       if \<not> removed then sret False
       else sbind (commit_root H new_root_node) (\<lambda>h. sbind (smod (\<lambda>s. s\<lparr>root := h\<rparr>)) (\<lambda>_. sret True)))) s' ?Q"
      unfolding n(1)
    proof (rule vc_sbind)
      fix y s2
      assume s2: "entries s \<subseteq> entries s2" "store_ok H s2"
        and y: "(snd y = ?rm \<and> norm_node (fst y) = node_of H ?t' \<and> stored H (entries s2) ?t') \<and> root s2 = root s"
      have rep2: "trie_rep H s2 t"
        using s2 y rep stored_mono [OF t(3) s2(1)] by (auto simp: trie_rep_def store_ok_def)
      show "vc H (case y of (new_root_node, removed) \<Rightarrow> if \<not> removed then sret False
         else sbind (commit_root H new_root_node) (\<lambda>h. sbind (smod (\<lambda>s. s\<lparr>root := h\<rparr>)) (\<lambda>_. sret True))) s2 ?Q"
      proof (cases ?rm)
        case True
        have "vc H (sbind (commit_root H (fst y)) (\<lambda>h. sbind (smod (\<lambda>s. s\<lparr>root := h\<rparr>)) (\<lambda>_. sret True))) s2 ?Q"
          by (rule vc_commit_new_root [where t = ?t']) (use H t' y True in auto)
        then show ?thesis using True y by (cases y) simp
      next
        case False
        then show ?thesis using y rep2 same by (cases y) simp
      qed
    qed (auto intro!: grows_intros)
  qed (auto intro!: grows_intros)
  show ?thesis
  proof (rule vc_pre [OF grows_trie_delete])
    assume ok: "store_ok H s"
    show "vc H (trie_delete H fuel key) s
          (\<lambda>b s'. b = ?rm \<and> trie_rep H s' ?t')"
    proof (cases "root s = EMPTY_ROOT")
      case True
      then have "t = MEmpty" using resolve_root(1) [OF H _ rep] ok by (auto simp: store_ok_def)
      then show ?thesis using True rep by (auto simp: trie_delete_def vc_def sbind_def sget_def sret_def)
    next
      case False
      then show ?thesis using main
        by (simp add: trie_delete_def vc_def Let_def sbind_def [of "sget root"] sget_def)
    qed
  qed
qed

section \<open>Keys\<close>

lemma pack_of_byte: "push_bit 4 (drop_bit 4 b) OR (b AND 0x0f) = (b :: byte)"
  unfolding nibble_mask by (rule bit_eqI) (auto simp: bit_simps)

lemma unpack_inj: "drop_bit 4 a = drop_bit 4 (b :: byte) \<Longrightarrow> a AND 0x0f = b AND 0x0f \<Longrightarrow> a = b"
  by (metis pack_of_byte)

lemma from_bytes_inj: "nibs (from_bytes a) = nibs (from_bytes b) \<longleftrightarrow> a = b"
proof
  assume "nibs (from_bytes a) = nibs (from_bytes b)"
  then show "a = b"
  proof (induction a arbitrary: b)
    case Nil
    then show ?case by (cases b) (auto simp: from_bytes_def nibs_def)
  next
    case (Cons x a)
    then show ?case by (cases b) (auto simp: from_bytes_def nibs_def dest: unpack_inj)
  qed
qed simp

section \<open>Lookup after an update\<close>

text \<open>A trie is well formed when it represents an abstract tree; those trees hold non-empty values, so a trie built by
  insertions is well formed as long as no empty value is inserted.\<close>

definition trie_ok :: "(bytes \<Rightarrow> bytes) \<Rightarrow> mutable_trie \<Rightarrow> bool" where
  "trie_ok H s \<longleftrightarrow> (\<exists>t. trie_rep H s t)"

lemma trie_rep_new: "(\<forall>(h, b)\<in>set d. h = H b) \<Longrightarrow> trie_rep H (trie_new d) MEmpty"
  by (simp add: trie_rep_def trie_new_def byte_keys_def mpt_root_def hashed_def entries_def)

lemma trie_insert_rep:
  assumes "hash_ok H" "trie_rep H s t" "value_ok v" "key_ok key" "2 * length key < fuel"
    "coll_free H (snd (trie_insert H fuel key v s))"
  shows "fst (trie_insert H fuel key v s) = Inr ()"
    and "trie_rep H (snd (trie_insert H fuel key v s)) (minsert t (nibs (from_bytes key)) v)"
    and "coll_free H s"
proof -
  have g: "entries s \<subseteq> entries (snd (trie_insert H fuel key v s))" "hashed H (snd (trie_insert H fuel key v s))"
    using grows_trie_insert [of H fuel key v] assms(2) by (auto simp: grows_def trie_rep_def)
  then have ok: "store_ok H (snd (trie_insert H fuel key v s))" using assms(6) by (simp add: store_ok_def)
  then show "coll_free H s" using store_ok_antimono [OF g(1)] by (simp add: store_ok_def)
  show "fst (trie_insert H fuel key v s) = Inr ()"
    "trie_rep H (snd (trie_insert H fuel key v s)) (minsert t (nibs (from_bytes key)) v)"
    using vc_trie_insert [OF assms(1-5)] ok by (auto simp: vc_def)
qed

lemma trie_delete_rep:
  assumes "hash_ok H" "trie_rep H s t" "2 * length key < fuel"
    "coll_free H (snd (trie_delete H fuel key s))"
  shows "fst (trie_delete H fuel key s) = Inr (snd (mdelete t (nibs (from_bytes key))))"
    and "trie_rep H (snd (trie_delete H fuel key s)) (fst (mdelete t (nibs (from_bytes key))))"
    and "coll_free H s"
proof -
  have g: "entries s \<subseteq> entries (snd (trie_delete H fuel key s))" "hashed H (snd (trie_delete H fuel key s))"
    using grows_trie_delete [of H fuel key] assms(2) by (auto simp: grows_def trie_rep_def)
  then have ok: "store_ok H (snd (trie_delete H fuel key s))" using assms(4) by (simp add: store_ok_def)
  then show "coll_free H s" using store_ok_antimono [OF g(1)] by (simp add: store_ok_def)
  show "fst (trie_delete H fuel key s) = Inr (snd (mdelete t (nibs (from_bytes key))))"
    "trie_rep H (snd (trie_delete H fuel key s)) (fst (mdelete t (nibs (from_bytes key))))"
    using vc_trie_delete [OF assms(1-3)] ok by (auto simp: vc_def)
qed

lemma trie_rep_unique:
  assumes "hash_ok H" "trie_rep H s t" "trie_rep H s' t'" "coll_free H s" "coll_free H s'"
    "\<And>k. trie_get (2 * length k + 2) s k = trie_get (2 * length k + 2) s' k"
  shows "t = t'"
proof (rule mpt_canonical_aux)
  show "mwf t" "mwf t'" using assms(2,3) by (auto simp: trie_rep_def mgood_def)
  have e: "mlookup t (nibs (from_bytes key)) = mlookup t' (nibs (from_bytes key))" for key
    using trie_get_rep [OF assms(1,4,2), of key "2 * length key + 2"]
      trie_get_rep [OF assms(1,5,3), of key "2 * length key + 2"] assms(6) [of key] by simp
  show "mlookup t k = mlookup t' k" for k
  proof (cases "\<exists>key. k = nibs (from_bytes key)")
    case True
    then show ?thesis using e by blast
  next
    case False
    then have "mlookup t k = None" "mlookup t' k = None"
      using assms(2,3) unfolding trie_rep_def byte_keys_def by blast+
    then show ?thesis by simp
  qed
qed

text \<open>A hash function for the examples: the first 32 bytes, padded, with the root of the empty
  trie at its place.\<close>

definition toy_hash :: "bytes \<Rightarrow> bytes" where
  "toy_hash b = (if b = [0x80] then EMPTY_ROOT else take 32 (b @ replicate 32 0))"

lemma toy_hash_ok: "hash_ok toy_hash"
  by (auto simp: hash_ok_def toy_hash_def EMPTY_ROOT_def min_def)

lemma coll_free_distinct:
  "coll_free H s \<longleftrightarrow> distinct (map H (remdups ([0x80] # map snd (cache s @ db s))))"
proof -
  have "insert [0x80] (snd ` entries s) = set (remdups ([0x80] # map snd (cache s @ db s)))"
    by (auto simp: entries_def)
  then show ?thesis by (simp only: coll_free_def distinct_map distinct_remdups simp_thms)
qed

text \<open>A batch of writes, as a state database flushes its dirty entries.\<close>

fun trie_inserts :: "(bytes \<Rightarrow> bytes) \<Rightarrow> nat \<Rightarrow> (bytes \<times> bytes) list \<Rightarrow> unit trie_m" where
  "trie_inserts H fuel [] = sret ()"
| "trie_inserts H fuel ((k, v) # ws) = sbind (trie_insert H fuel k v) (\<lambda>_. trie_inserts H fuel ws)"

definition nib_writes :: "(bytes \<times> bytes) list \<Rightarrow> (bytes \<times> bytes) list" where
  "nib_writes ws = map (\<lambda>(k, v). (nibs (from_bytes k), v)) ws"

definition writes_ok :: "nat \<Rightarrow> (bytes \<times> bytes) list \<Rightarrow> bool" where
  "writes_ok fuel ws \<longleftrightarrow> (\<forall>(k, v)\<in>set ws. key_ok k \<and> value_ok v \<and> 2 * length k < fuel)"

lemma grows_trie_inserts [grows_intros]: "grows H (trie_inserts H fuel ws)"
proof (induction ws)
  case (Cons w ws)
  then show ?case by (cases w) (auto intro!: grows_intros)
qed simp

lemma vc_trie_inserts:
  assumes "hash_ok H" "trie_rep H s t" "writes_ok fuel ws"
  shows "vc H (trie_inserts H fuel ws) s
          (\<lambda>_ s'. trie_rep H s' (foldl (\<lambda>t (k, v). minsert t k v) t (nib_writes ws)))"
  using assms(2,3)
proof (induction ws arbitrary: s t)
  case Nil
  then show ?case by (simp add: nib_writes_def)
next
  case (Cons w ws)
  obtain k v where w: "w = (k, v)" by fastforce
  have "vc H (trie_insert H fuel k v) s (\<lambda>_ s'. trie_rep H s' (minsert t (nibs (from_bytes k)) v))"
    using vc_trie_insert [OF assms(1) Cons.prems(1)] Cons.prems(2) w by (auto simp: writes_ok_def)
  then have "vc H (sbind (trie_insert H fuel k v) (\<lambda>_. trie_inserts H fuel ws)) s
      (\<lambda>_ s'. trie_rep H s' (foldl (\<lambda>t (k, v). minsert t k v) (minsert t (nibs (from_bytes k)) v) (nib_writes ws)))"
    by (rule vc_sbind) (use Cons w in \<open>auto simp: writes_ok_def intro: grows_intros\<close>)
  then show ?case by (simp add: w nib_writes_def)
qed

lemma map_of_nib_writes: "map_of (nib_writes ws) (nibs (from_bytes k)) = map_of ws k"
  by (induction ws) (auto simp: nib_writes_def from_bytes_inj)

lemma map_of_nib_writes_cong:
  assumes "map_of ws = map_of ws'"
  shows "map_of (nib_writes ws) = map_of (nib_writes ws')"
proof
  fix k
  show "map_of (nib_writes ws) k = map_of (nib_writes ws') k"
  proof (cases "\<exists>key. k = nibs (from_bytes key)")
    case True
    then show ?thesis using assms map_of_nib_writes by metis
  next
    case False
    then have "k \<notin> fst ` set (nib_writes ws)" "k \<notin> fst ` set (nib_writes ws')" by (auto simp: nib_writes_def)
    then show ?thesis by (simp add: map_of_eq_None_iff [THEN iffD2])
  qed
qed

lemma nib_writes_rev: "nib_writes (rev ws) = rev (nib_writes ws)"
  by (simp add: nib_writes_def rev_map)

lemma nib_writes_ok: "writes_ok fuel ws \<Longrightarrow> (k, v) \<in> set (nib_writes ws) \<Longrightarrow> nibble_path k \<and> value_ok v"
  by (auto simp: writes_ok_def nib_writes_def nibs_from_bytes)

lemma trie_inserts_rep:
  assumes "hash_ok H" "trie_rep H s t" "writes_ok fuel ws" "coll_free H (snd (trie_inserts H fuel ws s))"
  shows "trie_rep H (snd (trie_inserts H fuel ws s)) (foldl (\<lambda>t (k, v). minsert t k v) t (nib_writes ws))"
proof -
  have "hashed H (snd (trie_inserts H fuel ws s))"
    using grows_trie_inserts [of H fuel ws] assms(2) by (auto simp: grows_def trie_rep_def)
  then show ?thesis using vc_trie_inserts [OF assms(1-3)] assms(4) by (auto simp: vc_def store_ok_def)
qed

text \<open>States reached by the operations, for the examples.\<close>

definition ex_one :: mutable_trie where
  "ex_one = snd (trie_insert toy_hash 10 [0x12] [0xab] (trie_new []))"

definition ex_over :: mutable_trie where
  "ex_over = snd (trie_insert toy_hash 10 [0x12] [0xcd] ex_one)"

definition ex_back :: mutable_trie where
  "ex_back = snd (trie_insert toy_hash 10 [0x12] [0xab] ex_over)"

lemma ex_coll_free:
  "coll_free toy_hash (trie_new [])" "coll_free toy_hash ex_one" "coll_free toy_hash ex_over"
  "coll_free toy_hash ex_back" "coll_free toy_hash (snd (trie_delete toy_hash 10 [0x12] ex_one))"
  unfolding coll_free_distinct by code_simp+

lemma ex_small: "value_ok [0xab]" "value_ok [0xcd]" "key_ok [0x12]"
  by (simp_all add: value_ok_def key_ok_def)

lemma ex_rep:
  "trie_rep toy_hash (trie_new []) MEmpty"
  "trie_rep toy_hash ex_one (minsert MEmpty (nibs (from_bytes [0x12])) [0xab])"
  "trie_rep toy_hash ex_over (minsert (minsert MEmpty (nibs (from_bytes [0x12])) [0xab]) (nibs (from_bytes [0x12])) [0xcd])"
proof -
  show n: "trie_rep toy_hash (trie_new []) MEmpty" by (rule trie_rep_new) simp
  show 1: "trie_rep toy_hash ex_one (minsert MEmpty (nibs (from_bytes [0x12])) [0xab])"
    unfolding ex_one_def
    by (rule trie_insert_rep(2) [OF toy_hash_ok n]) (use ex_small ex_coll_free ex_one_def in auto)
  show "trie_rep toy_hash ex_over (minsert (minsert MEmpty (nibs (from_bytes [0x12])) [0xab]) (nibs (from_bytes [0x12])) [0xcd])"
    unfolding ex_over_def
    by (rule trie_insert_rep(2) [OF toy_hash_ok 1]) (use ex_small ex_coll_free ex_over_def in auto)
qed

lemma ex_rep_back:
  "trie_rep toy_hash ex_back (minsert (minsert (minsert MEmpty (nibs (from_bytes [0x12])) [0xab])
     (nibs (from_bytes [0x12])) [0xcd]) (nibs (from_bytes [0x12])) [0xab])"
  unfolding ex_back_def
  by (rule trie_insert_rep(2) [OF toy_hash_ok ex_rep(3)]) (use ex_small ex_coll_free ex_back_def in auto)

lemma ex_ok: "trie_ok toy_hash (trie_new [])" "trie_ok toy_hash ex_one" "trie_ok toy_hash ex_over" "trie_ok toy_hash ex_back"
  using ex_rep ex_rep_back unfolding trie_ok_def by blast+

section \<open>The root binds the contents\<close>

lemma root_empty_iff:
  assumes "hash_ok H" "coll_free H s" "trie_rep H s t"
  shows "root s = EMPTY_ROOT \<longleftrightarrow> t = MEmpty"
  using resolve_root(1) [OF assms] assms(3) by (auto simp: trie_rep_def mpt_root_def)

lemma ref_to_inj:
  assumes H: "hash_ok H" and inj: "inj_on H (snd ` E)"
    and t: "mgood t" "stored_ref H E t" and u: "mgood u" "stored_ref H E u"
    and eq: "ref_to H (node_of H t) = ref_to H (node_of H u)"
  shows "node_of H t = node_of H u"
proof (cases "32 \<le> length (node_bytes (node_of H t)) \<and> t \<noteq> MEmpty")
  case True
  then have h: "H (node_bytes (node_of H t)) = H (node_bytes (node_of H u))" "32 \<le> length (node_bytes (node_of H u))"
    using eq by (auto simp: ref_to_def split: if_splits)
  have "(H (node_bytes (node_of H t)), node_bytes (node_of H t)) \<in> E"
    using True t(2) unfolding stored_ref_def by blast
  moreover have "(H (node_bytes (node_of H u)), node_bytes (node_of H u)) \<in> E"
    using h(2) u(2) unfolding stored_ref_def by blast
  ultimately have "node_bytes (node_of H t) \<in> snd ` E" "node_bytes (node_of H u) \<in> snd ` E"
    by (metis image_eqI snd_conv)+
  then have "node_bytes (node_of H t) = node_bytes (node_of H u)" using inj h(1) by (metis inj_onD)
  then show ?thesis using decode_node_of [OF H t(1)] decode_node_of [OF H u(1)] by (metis sum.inject(2))
next
  case False
  then consider "t = MEmpty" | "t \<noteq> MEmpty" "length (node_bytes (node_of H t)) < 32" by linarith
  then show ?thesis
  proof cases
    case 1
    then show ?thesis using eq by (metis node_of.simps(1) ref_to_REmpty ref_to_TEmpty)
  next
    case 2
    then have "ref_to H (node_of H t) = RInline (node_of H t)" by (simp add: ref_to_def)
    then have "ref_to H (node_of H u) = RInline (node_of H t)" using eq by metis
    then show ?thesis unfolding ref_to_def by (metis node_ref.distinct(1,5) node_ref.inject(2))
  qed
qed

lemma node_of_inj:
  assumes H: "hash_ok H" and inj: "inj_on H (snd ` E)"
  shows "mgood t \<Longrightarrow> mgood u \<Longrightarrow> stored H E t \<Longrightarrow> stored H E u \<Longrightarrow> node_of H t = node_of H u \<Longrightarrow> t = u"
proof (induction t arbitrary: u)
  case MEmpty
  then show ?case by (metis node_of.simps(1) node_of_TEmpty)
next
  case (MLeaf p v)
  then show ?case by (cases u) (simp_all add: nib_of_def)
next
  case (MExt p t)
  obtain u' where u: "u = MExt p u'" "ref_to H (node_of H t) = ref_to H (node_of H u')"
    using MExt.prems(5) by (cases u) (simp_all add: nib_of_def)
  have g: "mgood t" "mgood u'" "stored_ref H E t" "stored_ref H E u'"
    using MExt.prems u mgood_MExtD [of p t] mgood_MExtD [of p u'] by simp_all
  then have "node_of H t = node_of H u'" using ref_to_inj [OF H inj] u(2) by blast
  then have "t = u'" using MExt.IH [of u'] g by (simp add: stored_ref_def)
  then show ?case using u by simp
next
  case (MBranch ts bv)
  obtain us where u: "u = MBranch us bv" "map (\<lambda>t. ref_to H (node_of H t)) ts = map (\<lambda>t. ref_to H (node_of H t)) us"
    using MBranch.prems(5) by (cases u) simp_all
  have l: "length ts = length us" using map_eq_imp_length_eq [OF u(2)] .
  have "ts ! i = us ! i" if i: "i < length ts" for i
  proof (rule MBranch.IH)
    show "ts ! i \<in> set ts" using i by simp
    show g: "mgood (ts ! i)" "mgood (us ! i)"
      using MBranch.prems(1,2) u(1) i l mgood_MBranchD [of ts bv "ts ! i"] mgood_MBranchD [of us bv "us ! i"] by simp_all
    have st: "stored_ref H E (ts ! i)" "stored_ref H E (us ! i)" using MBranch.prems(3,4) u(1) i l by simp_all
    then show "stored H E (ts ! i)" "stored H E (us ! i)" by (simp_all add: stored_ref_def)
    have "ref_to H (node_of H (ts ! i)) = ref_to H (node_of H (us ! i))"
      using arg_cong [OF u(2), of "\<lambda>xs. xs ! i"] i l by simp
    then show "node_of H (ts ! i) = node_of H (us ! i)" using ref_to_inj [OF H inj g(1) st(1) g(2) st(2)] by blast
  qed
  then show ?case using l u by (simp add: nth_equalityI)
qed

lemma commit_entries: "entries (snd (trie_commit s)) = entries s" "root (snd (trie_commit s)) = root s"
proof -
  have "foldr (\<lambda>(h, b) d. db_insert d h b) c d = c @ d" for c d
    by (induction c) (auto simp: db_insert_def)
  then show "entries (snd (trie_commit s)) = entries s" "root (snd (trie_commit s)) = root s"
    by (auto simp: trie_commit_def entries_def)
qed

text \<open>Committing moves the cached nodes to the database: the root is returned unchanged, the
  cache is empty, and every lookup gives what it gave before.\<close>

lemma trie_commit_keeps:
  assumes "hash_ok H" "trie_ok H s" "coll_free H s" "2 * length k + 1 < fuel"
  shows "fst (trie_commit s) = Inr (root s) \<and> cache (snd (trie_commit s)) = [] \<and>
         trie_ok H (snd (trie_commit s)) \<and> trie_get fuel (snd (trie_commit s)) k = trie_get fuel s k"
proof -
  obtain t where t: "trie_rep H s t" using assms(2) by (auto simp: trie_ok_def)
  have t': "trie_rep H (snd (trie_commit s)) t" "coll_free H (snd (trie_commit s))"
    using t assms(3) commit_entries [of s] unfolding trie_rep_def hashed_def coll_free_def by metis+
  show ?thesis
    using trie_get_rep [OF assms(1) t'(2,1) assms(4)] trie_get_rep [OF assms(1,3) t assms(4)] t'
    by (auto simp: trie_ok_def trie_commit_def Let_def)
qed

section \<open>Runs of operations\<close>

datatype trie_op = TInsert bytes bytes | TDelete bytes | TCommit

fun trie_exec :: "(bytes \<Rightarrow> bytes) \<Rightarrow> nat \<Rightarrow> trie_op \<Rightarrow> mutable_trie \<Rightarrow> mutable_trie" where
  "trie_exec H fuel (TInsert k v) s = snd (trie_insert H fuel k v s)"
| "trie_exec H fuel (TDelete k) s = snd (trie_delete H fuel k s)"
| "trie_exec H fuel TCommit s = snd (trie_commit s)"

definition trie_run :: "(bytes \<Rightarrow> bytes) \<Rightarrow> nat \<Rightarrow> trie_op list \<Rightarrow> mutable_trie \<Rightarrow> mutable_trie" where
  "trie_run H fuel ops s = fold (trie_exec H fuel) ops s"

text \<open>The inserted values are not empty; lengths below the limits of the encoding; enough steps for the keys.\<close>

fun op_ok :: "nat \<Rightarrow> trie_op \<Rightarrow> bool" where
  "op_ok fuel (TInsert k v) \<longleftrightarrow> v \<noteq> [] \<and> length v < 2 ^ 32 \<and> length k \<le> 2 ^ 32 \<and> 2 * length k < fuel"
| "op_ok fuel (TDelete k) \<longleftrightarrow> 2 * length k < fuel"
| "op_ok fuel TCommit \<longleftrightarrow> True"

lemma coll_free_mono: "coll_free H s' \<Longrightarrow> entries s \<subseteq> entries s' \<Longrightarrow> coll_free H s"
  unfolding coll_free_def by (erule inj_on_subset) auto

lemma exec_entries: "entries s \<subseteq> entries (trie_exec H fuel op s)"
  using grows_trie_insert [of H fuel] grows_trie_delete [of H fuel] by (cases op) (auto simp: grows_def commit_entries)

lemma run_entries: "entries s \<subseteq> entries (trie_run H fuel ops s)"
  unfolding trie_run_def by (induction ops arbitrary: s) (auto dest: subsetD [OF exec_entries])

lemma exec_trie_ok:
  assumes "hash_ok H" "trie_ok H s" "op_ok fuel op" "coll_free H (trie_exec H fuel op s)"
  shows "trie_ok H (trie_exec H fuel op s)"
proof -
  obtain t where t: "trie_rep H s t" using assms(2) by (auto simp: trie_ok_def)
  show ?thesis
  proof (cases op)
    case (TInsert k v)
    then show ?thesis using trie_insert_rep(2) [OF assms(1) t, of v k fuel] assms(3,4) by (auto simp: trie_ok_def value_ok_def key_ok_def)
  next
    case (TDelete k)
    then show ?thesis using trie_delete_rep(2) [OF assms(1) t, of k fuel] assms(3,4) by (auto simp: trie_ok_def)
  next
    case TCommit
    then show ?thesis using trie_commit_keeps [OF assms(1,2), of "[]" 2] coll_free_mono [OF assms(4) exec_entries] by simp
  qed
qed

lemma run_trie_ok:
  assumes "hash_ok H" "trie_ok H s" "list_all (op_ok fuel) ops" "coll_free H (trie_run H fuel ops s)"
  shows "trie_ok H (trie_run H fuel ops s)"
  using assms(2-4)
proof (induction ops arbitrary: s)
  case (Cons op ops)
  let ?s = "trie_exec H fuel op s"
  have "coll_free H ?s" using coll_free_mono [OF Cons.prems(3), of ?s] run_entries [of ?s H fuel ops] by (simp add: trie_run_def)
  then have "trie_ok H ?s" using exec_trie_ok [OF assms(1) Cons.prems(1)] Cons.prems(2) by simp
  then show ?case using Cons.IH [of ?s] Cons.prems(2,3) by (simp add: trie_run_def)
qed (simp add: trie_run_def)

lemma trie_ok_new: "(\<forall>(h, b)\<in>set d. h = H b) \<Longrightarrow> trie_ok H (trie_new d)"
  using trie_rep_new unfolding trie_ok_def by blast

text \<open>An empty value is not stored below a branch: the node codec reads an empty branch value as none.\<close>

lemma empty_value_lost:
  "trie_get 10 (trie_run toy_hash 10 [TInsert [0x12] [1], TInsert [0x12, 0x34] [2], TInsert [0x12] []] (trie_new [])) [0x12] = Inr None"
  by code_simp

section \<open>Properties\<close>

text \<open>C1. Insertion of a non-empty value (values and keys below \<open>2 ^ 32\<close> bytes) into a well-formed trie succeeds, keeps
  the trie well formed, and afterwards a lookup of the inserted key gives the new value while every
  other key is unaffected, provided the hash has no collision among the stored nodes.  The recursion
  ends within one step per nibble of the key.  The value must not be empty: where the key ends at a branch,
  an inserted empty value is read back as absent.\<close>

theorem trie_insert_lookup:
  assumes "hash_ok H" "trie_ok H s" "v \<noteq> []" "length v < 2 ^ 32" "length key \<le> 2 ^ 32" "2 * length key < fuel"
    "coll_free H (snd (trie_insert H fuel key v s))"
  shows "fst (trie_insert H fuel key v s) = Inr () \<and> trie_ok H (snd (trie_insert H fuel key v s)) \<and>
         (\<forall>k f. 2 * length k + 1 < f \<longrightarrow>
            trie_get f (snd (trie_insert H fuel key v s)) k = (if k = key then Inr (Some v) else trie_get f s k)) \<and>
         trie_get 10 (trie_run toy_hash 10 [TInsert [0x12] [1], TInsert [0x12, 0x34] [2], TInsert [0x12] []] (trie_new [])) [0x12] = Inr None"
proof -
  obtain t where t: "trie_rep H s t" using assms(2) by (auto simp: trie_ok_def)
  have "value_ok v" "key_ok key" using assms(3-5) by (simp_all add: value_ok_def key_ok_def)
  note ins = trie_insert_rep [OF assms(1) t this assms(6,7)]
  have wf: "mwf t" using t by (simp add: trie_rep_def mgood_def)
  show ?thesis
    using ins trie_get_rep [OF assms(1,7) ins(2)] trie_get_rep [OF assms(1) ins(3) t] empty_value_lost
    by (auto simp: trie_ok_def mlookup_minsert wf nibs_from_bytes from_bytes_inj)
qed

theorem trie_insert_lookup_witness:
  "fst (trie_insert toy_hash 10 [0x12] [0xcd] ex_one) = Inr () \<and>
   trie_get 10 (snd (trie_insert toy_hash 10 [0x12] [0xcd] ex_one)) [0x12] = Inr (Some [0xcd]) \<and>
   trie_get 10 (snd (trie_insert toy_hash 10 [0x12] [0xcd] ex_one)) [0x99] = trie_get 10 ex_one [0x99]"
  using trie_insert_lookup [OF toy_hash_ok ex_ok(2), of "[0xcd]" "[0x12]" 10] ex_coll_free(3)
  by (simp add: ex_over_def)

text \<open>C13. Deletion reports whether the key was present, keeps the trie well formed (branches that
  lose a child are collapsed), and afterwards the key is absent and every other key
  is unaffected.\<close>

theorem trie_delete_lookup:
  assumes "hash_ok H" "trie_ok H s" "2 * length key < fuel" "coll_free H (snd (trie_delete H fuel key s))"
  shows "fst (trie_delete H fuel key s) = Inr (trie_get (2 * length key + 2) s key \<noteq> Inr None) \<and>
         trie_ok H (snd (trie_delete H fuel key s)) \<and>
         (\<forall>k f. 2 * length k + 1 < f \<longrightarrow>
            trie_get f (snd (trie_delete H fuel key s)) k = (if k = key then Inr None else trie_get f s k))"
proof -
  obtain t where t: "trie_rep H s t" using assms(2) by (auto simp: trie_ok_def)
  note d = trie_delete_rep [OF assms(1) t assms(3,4)]
  have wf: "mwf t" using t by (simp add: trie_rep_def mgood_def)
  show ?thesis
    using d trie_get_rep [OF assms(1,4) d(2)] trie_get_rep [OF assms(1) d(3) t]
    by (auto simp: trie_ok_def mdelete_correct wf nibs_from_bytes from_bytes_inj)
qed

theorem trie_delete_lookup_witness:
  "fst (trie_delete toy_hash 10 [0x12] ex_one) = Inr True \<and>
   trie_get 10 (snd (trie_delete toy_hash 10 [0x12] ex_one)) [0x12] = Inr None"
proof -
  have "trie_get 4 ex_one [0x12] = Inr (mlookup (minsert MEmpty (nibs (from_bytes [0x12])) [0xab]) (nibs (from_bytes [0x12])))"
    by (rule trie_get_rep [OF toy_hash_ok ex_coll_free(2) ex_rep(2)]) simp
  then have g: "trie_get 4 ex_one [0x12] \<noteq> Inr None" by simp
  show ?thesis
    using trie_delete_lookup [OF toy_hash_ok ex_ok(2), of "[0x12]" 10] ex_coll_free(5) g by simp
qed

text \<open>C2. The root hash is a function of the contents: two tries that answer every lookup alike have the
  same root, whatever sequences of insertions of non-empty values, deletions and commits built them from new
  tries over databases of hashed nodes (keys and values below \<open>2 ^ 32\<close> bytes, no collision of the hash among the
  nodes stored in either).\<close>

theorem trie_root_determined:
  assumes "hash_ok H" "\<forall>(h, b)\<in>set d. h = H b" "\<forall>(h, b)\<in>set d'. h = H b" "list_all (op_ok fuel) ops" "list_all (op_ok fuel) ops'"
    and "coll_free H (trie_run H fuel ops (trie_new d))" "coll_free H (trie_run H fuel ops' (trie_new d'))"
    and "\<forall>k. trie_get (2 * length k + 2) (trie_run H fuel ops (trie_new d)) k = trie_get (2 * length k + 2) (trie_run H fuel ops' (trie_new d')) k"
  shows "root (trie_run H fuel ops (trie_new d)) = root (trie_run H fuel ops' (trie_new d'))"
proof -
  let ?s = "trie_run H fuel ops (trie_new d)" and ?s' = "trie_run H fuel ops' (trie_new d')"
  have "trie_ok H ?s" "trie_ok H ?s'"
    using run_trie_ok [OF assms(1) trie_ok_new [OF assms(2)] assms(4,6)] run_trie_ok [OF assms(1) trie_ok_new [OF assms(3)] assms(5,7)] .
  then obtain t t' where t: "trie_rep H ?s t" "trie_rep H ?s' t'" by (auto simp: trie_ok_def)
  have "t = t'" by (rule trie_rep_unique [OF assms(1) t assms(6,7)]) (use assms(8) in blast)
  then show ?thesis using t by (simp add: trie_rep_def)
qed

theorem trie_root_determined_witness:
  "root (trie_run toy_hash 10 [TInsert [0x12] [0xab]] (trie_new [])) =
   root (trie_run toy_hash 10 [TInsert [0x12] [0xab], TInsert [0x12] [0xcd], TCommit, TInsert [0x12] [0xab]] (trie_new []))"
proof -
  let ?a = "trie_run toy_hash 10 [TInsert [0x12] [0xab]] (trie_new [])"
  let ?ops = "[TInsert [0x12] [0xab], TInsert [0x12] [0xcd], TCommit, TInsert [0x12] [0xab]]"
  let ?b = "trie_run toy_hash 10 ?ops (trie_new [])"
  have c: "coll_free toy_hash ?a" "coll_free toy_hash ?b" unfolding coll_free_distinct by code_simp+
  have r: "?a = ex_one" "?b = snd (trie_insert toy_hash 10 [0x12] [0xab] (snd (trie_commit ex_over)))"
    by (simp_all add: trie_run_def ex_one_def ex_over_def)
  have "trie_rep toy_hash (snd (trie_commit ex_over)) (minsert (minsert MEmpty (nibs (from_bytes [0x12])) [0xab]) (nibs (from_bytes [0x12])) [0xcd])"
    using ex_rep(3) commit_entries [of ex_over] unfolding trie_rep_def hashed_def by metis
  from trie_insert_rep(2) [OF toy_hash_ok this ex_small(1,3), of 10] c(2)
  have b: "trie_rep toy_hash ?b (minsert (minsert (minsert MEmpty (nibs (from_bytes [0x12])) [0xab]) (nibs (from_bytes [0x12])) [0xcd]) (nibs (from_bytes [0x12])) [0xab])"
    unfolding r(2) by simp
  have "trie_get (2 * length k + 2) ?a k = trie_get (2 * length k + 2) ?b k" for k
    using trie_get_rep [OF toy_hash_ok c(1) ex_rep(2) [folded r(1)], of k "2 * length k + 2"]
      trie_get_rep [OF toy_hash_ok c(2) b, of k "2 * length k + 2"] by simp
  then show ?thesis
    using trie_root_determined [OF toy_hash_ok, of "[]" "[]" 10 "[TInsert [0x12] [0xab]]" ?ops] c by simp
qed

text \<open>Flushing a batch of writes gives the same root in every order: two batches that leave the
  same last value for every key produce the same root hash from the same trie.\<close>

lemma trie_batch_order:
  assumes "hash_ok H" "trie_ok H s" "writes_ok fuel ws" "writes_ok fuel ws'" "map_of (rev ws) = map_of (rev ws')"
    "coll_free H (snd (trie_inserts H fuel ws s))" "coll_free H (snd (trie_inserts H fuel ws' s))"
  shows "root (snd (trie_inserts H fuel ws s)) = root (snd (trie_inserts H fuel ws' s))"
proof -
  obtain t where t: "trie_rep H s t" using assms(2) by (auto simp: trie_ok_def)
  have wf: "mwf t" using t by (simp add: trie_rep_def mgood_def)
  have "map_of (rev (nib_writes ws)) = map_of (rev (nib_writes ws'))"
    using map_of_nib_writes_cong [OF assms(5)] by (simp add: nib_writes_rev)
  from mpt_map.puts_order [OF wf nib_writes_ok [OF assms(3)] nib_writes_ok [OF assms(4)] this, of "mpt_root H"]
  show ?thesis
    using trie_inserts_rep [OF assms(1) t assms(3,6)] trie_inserts_rep [OF assms(1) t assms(4,7)]
    by (simp add: trie_rep_def)
qed

text \<open>C18. The root binds the contents: two tries with the same root hash answer every lookup alike,
  provided the hash has no collision among the nodes of both.\<close>

theorem trie_root_binding:
  assumes "hash_ok H" "trie_ok H s" "trie_ok H s'" "root s = root s'"
    "inj_on H (insert [0x80] (snd ` (entries s \<union> entries s')))" "2 * length k + 1 < fuel"
  shows "trie_get fuel s k = trie_get fuel s' k"
proof -
  obtain t t' where t: "trie_rep H s t" "trie_rep H s' t'" using assms(2,3) by (auto simp: trie_ok_def)
  let ?E = "entries s \<union> entries s'"
  have c: "coll_free H s" "coll_free H s'"
    using assms(5) unfolding coll_free_def by (auto elim!: inj_on_subset)
  have "t = t'"
  proof (cases "t = MEmpty \<or> t' = MEmpty")
    case True
    then show ?thesis
      using assms(4) root_empty_iff [OF assms(1) c(1) t(1)] root_empty_iff [OF assms(1) c(2) t(2)] by metis
  next
    case False
    let ?b = "node_bytes (node_of H t)" and ?b' = "node_bytes (node_of H t')"
    have g: "mgood t" "mgood t'" "stored H ?E t" "stored H ?E t'"
      using t stored_mono by (auto simp: trie_rep_def)
    have "H ?b = H ?b'" "?b \<in> snd ` ?E" "?b' \<in> snd ` ?E"
      using t False assms(4) by (auto simp: trie_rep_def mpt_root_def intro: image_eqI [where x = "(_, _)"])
    then have "?b = ?b'" using assms(5) by (metis inj_onD insertCI)
    then have "node_of H t = node_of H t'"
      using decode_node_of [OF assms(1) g(1)] decode_node_of [OF assms(1) g(2)] by (metis sum.inject(2))
    moreover have "inj_on H (snd ` ?E)" using assms(5) by (rule inj_on_subset) auto
    ultimately show ?thesis using node_of_inj [OF assms(1) _ g] by blast
  qed
  then show ?thesis using trie_get_rep [OF assms(1) c(1) t(1) assms(6)] trie_get_rep [OF assms(1) c(2) t(2) assms(6)] by simp
qed

theorem trie_root_binding_witness: "trie_get 10 ex_one [0x12] = trie_get 10 ex_back [0x12]"
proof (rule trie_root_binding [OF toy_hash_ok ex_ok(2,4)])
  show "root ex_one = root ex_back" by code_simp
  have "entries ex_one \<subseteq> entries ex_back" "entries ex_one \<union> entries ex_back = entries ex_back"
    using grows_trie_insert [of toy_hash 10 "[0x12]"]
    by (auto simp: grows_def ex_over_def ex_back_def) blast+
  then show "inj_on toy_hash (insert [0x80] (snd ` (entries ex_one \<union> entries ex_back)))"
    using ex_coll_free(4) by (simp add: coll_free_def)
qed simp

end
