(* ===== verification/Trie_Proof.thy ===== *)
theory Trie_Proof
  imports Trie_Props
begin

text \<open>
  Merkle proofs (\<^verbatim>\<open>zbx-trie/src/proof.rs\<close> and \<^verbatim>\<open>MutableTrie::prove\<close>): an accepted proof determines the
  lookup, and a generated proof is accepted whenever the values are long enough for every
  node on the path to be hash-linked.
\<close>

section \<open>Soundness of verification\<close>

lemma common_prefix_drop:
  assumes "depth \<le> length (nibs k)"
  shows "common_prefix_len (nib_slice k depth) pp = length (nibs pp) \<longleftrightarrow>
           take (length (nibs pp)) (drop depth (nibs k)) = nibs pp"
  using lcp_full [of "drop depth (nibs k)" "nibs pp"] by (simp add: common_prefix_len_lcp)

lemma verify_loop_sound:
  assumes "hash_ok H" "mgood t" "t \<noteq> MEmpty" "stored H E t" "node_bytes (node_of H t) \<in> snd ` E"
    "inj_on H (snd ` E \<union> set nodes)" "nibble_path (nibs key)" "depth \<le> length (nibs key)"
    "verify_loop H key ev nodes (H (node_bytes (node_of H t))) depth = (Inr True :: ('e, bool) res)"
  shows "ev = mlookup t (drop depth (nibs key))"
  using assms
proof (induction nodes arbitrary: t depth)
  case (Cons b rest)
  let ?k = "drop depth (nibs key)"
  have hb: "H b = H (node_bytes (node_of H t))" using Cons.prems(9) by (auto split: if_splits)
  then have "b = node_bytes (node_of H t)"
    using Cons.prems(5,6) by (metis UnCI inj_onD list.set_intros(1))
  then have dec: "decode_node b = Inr (node_of H t)" using decode_node_of Cons.prems by blast
  have inj: "inj_on H (snd ` E \<union> set rest)" using Cons.prems(6) by (rule inj_on_subset) auto
  have child: "ev = mlookup u (drop d (nibs key))"
    if u: "mgood u" "stored_ref H E u" and d: "d \<le> length (nibs key)"
      and v: "(case ref_to H (node_of H u) of RHash h \<Rightarrow> verify_loop H key ev rest h d
               | REmpty \<Rightarrow> Inr (ev = None) | RInline n \<Rightarrow> Inr False) = (Inr True :: ('e, bool) res)" for u d
  proof (cases "u = MEmpty")
    case True
    then show ?thesis using v by simp
  next
    case False
    then have "32 \<le> length (node_bytes (node_of H u))"
      and v': "verify_loop H key ev rest (H (node_bytes (node_of H u))) d = (Inr True :: ('e, bool) res)"
      using v by (auto simp: ref_to_def split: if_splits)
    then have "node_bytes (node_of H u) \<in> snd ` E" "stored H E u"
      using u(2) by (auto simp: stored_ref_def intro: image_eqI [where x = "(_, _)"])
    then show ?thesis using Cons.IH [of u d] Cons.prems u d v' False inj by blast
  qed
  show ?case
  proof (cases t)
    case (MLeaf p w)
    have "?k = p \<longleftrightarrow> take (length p) ?k = p \<and> depth + length p = length (nibs key)"
      using Cons.prems(8) by auto
    then show ?thesis
      using Cons.prems(8,9) hb dec MLeaf common_prefix_drop [OF Cons.prems(8), of "nib_of p"]
      by (auto simp: Let_def split: if_splits)
  next
    case (MExt p u)
    have u: "mgood u" "stored_ref H E u" using Cons.prems mgood_MExtD MExt by auto
    show ?thesis
    proof (cases "take (length p) ?k = p")
      case True
      then have "length p \<le> length ?k" by (metis length_take min.cobounded2 min.commute)
      moreover have "(case ref_to H (node_of H u) of RHash h \<Rightarrow> verify_loop H key ev rest h (depth + length p)
               | REmpty \<Rightarrow> Inr (ev = None) | RInline n \<Rightarrow> Inr False) = (Inr True :: ('e, bool) res)"
        using Cons.prems(9) hb dec MExt True common_prefix_drop [OF Cons.prems(8), of "nib_of p"]
        by (simp add: Let_def cong: node_ref.case_cong)
      ultimately show ?thesis using child [OF u, of "depth + length p"] True MExt Cons.prems(8)
        by (simp add: add.commute)
    next
      case False
      then show ?thesis
        using Cons.prems(9) hb dec MExt common_prefix_drop [OF Cons.prems(8), of "nib_of p"]
        by (simp add: Let_def)
    qed
  next
    case (MBranch ts bv)
    have l: "length ts = 16" using Cons.prems(2) MBranch by (simp add: mgood_def)
    show ?thesis
    proof (cases "depth = length (nibs key)")
      case True
      then show ?thesis using Cons.prems(9) hb dec MBranch by (auto split: if_splits)
    next
      case False
      let ?x = "nibs key ! depth"
      have d: "?k = ?x # drop (Suc depth) (nibs key)" and x: "unat ?x < 16"
        using False Cons.prems by (auto simp: Cons_nth_drop_Suc nibble_path_def)
      have u: "mgood (ts ! unat ?x)" "stored_ref H E (ts ! unat ?x)"
        using Cons.prems MBranch mgood_MBranchD [of ts bv "ts ! unat ?x"] x l by auto
      have "(case ref_to H (node_of H (ts ! unat ?x)) of RHash h \<Rightarrow> verify_loop H key ev rest h (depth + 1)
               | REmpty \<Rightarrow> Inr (ev = None) | RInline n \<Rightarrow> Inr False) = (Inr True :: ('e, bool) res)"
        using Cons.prems(8,9) hb dec MBranch False x l
        by (simp add: nib_at_nibs index_chk_def cong: node_ref.case_cong)
      then show ?thesis using child [OF u, of "depth + 1"] False Cons.prems(8) MBranch x l d by simp
    qed
  qed (use Cons.prems in simp)
qed simp

section \<open>Generated proofs\<close>

definition long_values :: "mpt \<Rightarrow> bool" where
  "long_values t \<longleftrightarrow> (\<forall>k v. mlookup t k = Some v \<longrightarrow> 32 \<le> length v)"

lemma long_values_MExtD: "long_values (MExt p t) \<Longrightarrow> long_values t"
  unfolding long_values_def by (metis mlookup_MExt_append)

lemma long_values_MBranchD:
  assumes "long_values (MBranch ts bv)" "length ts = 16" "t \<in> set ts"
  shows "long_values t"
proof -
  obtain i where i: "i < 16" "t = ts ! i" using assms(2,3) by (auto simp: in_set_conv_nth)
  show ?thesis unfolding long_values_def
  proof (intro allI impI)
    fix k v assume "mlookup t k = Some v"
    then have "mlookup (MBranch ts bv) (of_nat i # k) = Some v" using i assms(2) by simp
    then show "32 \<le> length v" using assms(1) unfolding long_values_def by blast
  qed
qed

lemma length_enc_hash: "hash_ok H \<Longrightarrow> length (enc_str (H b)) = 33"
  by (simp add: enc_str_def rlp_header_def hash_ok_def)

lemma length_concat_ge: "x \<in> set xs \<Longrightarrow> length (f x) \<le> length (concat (map f xs))"
  by (induction xs) auto

lemma node_bytes_long:
  assumes "hash_ok H"
  shows "mwf t \<Longrightarrow> t \<noteq> MEmpty \<Longrightarrow> long_values t \<Longrightarrow> 32 \<le> length (node_bytes (node_of H t))"
proof (induction t)
  case (MLeaf p v)
  then have "32 \<le> length v" by (auto simp: long_values_def)
  then show ?case using length_enc_str_ge [of v] by (simp add: node_bytes_def Let_def)
next
  case (MExt p t)
  then have "t \<noteq> MEmpty" by auto
  moreover have "32 \<le> length (node_bytes (node_of H t))"
    using MExt calculation long_values_MExtD [of p t] by simp
  ultimately show ?case using length_enc_hash [OF assms]
    by (simp add: node_bytes_def [of "Extension _ _"] ref_to_def Let_def)
next
  case (MBranch ts bv)
  have l: "length ts = 16" and w: "2 \<le> weight ts bv" using MBranch.prems by auto
  obtain i where i: "i < 16" "ts ! i \<noteq> MEmpty" using w l by (elim weight_ge2E) auto
  then have "ts ! i \<in> set ts" using l by simp
  then have "32 \<le> length (node_bytes (node_of H (ts ! i)))"
    using MBranch i l long_values_MBranchD [of ts bv "ts ! i"] by auto
  then have "length (rlp_enc (ref_item (ref_to H (node_of H (ts ! i))))) = 33"
    using i length_enc_hash [OF assms] by (simp add: ref_to_def)
  moreover have "length (rlp_enc (ref_item (ref_to H (node_of H (ts ! i)))))
      \<le> length (concat (map (\<lambda>u. rlp_enc (ref_item (ref_to H (node_of H u)))) ts))"
    using i l by (intro length_concat_ge) auto
  ultimately show ?case by (simp add: node_bytes_def Let_def comp_def)
qed simp

text \<open>Walking the same path, the prover collects exactly the nodes the verifier accepts.\<close>

lemma prove_verify_loop:
  assumes "hash_ok H" "store_ok H s" "mgood t" "t \<noteq> MEmpty" "long_values t" "stored H (entries s) t"
    "(H (node_bytes (node_of H t)), node_bytes (node_of H t)) \<in> entries s"
    "nibble_path (nibs key)" "depth \<le> length (nibs key)" "length (nibs key) - depth < fuel"
  shows "\<exists>path. prove_loop fuel s key (RHash (H (node_bytes (node_of H t)))) depth nodes
            = Inr (mlookup t (drop depth (nibs key)), nodes @ path) \<and> path \<noteq> [] \<and>
          verify_loop H key (mlookup t (drop depth (nibs key))) path (H (node_bytes (node_of H t))) depth
            = (Inr True :: ('e, bool) res)"
  using assms
proof (induction fuel arbitrary: t depth nodes)
  case (Suc fuel)
  let ?k = "drop depth (nibs key)" and ?b = "node_bytes (node_of H t)"
  note H = Suc.prems(1) and ok = Suc.prems(2) and good = Suc.prems(3)
  have f: "fetch s (H ?b) = Some ?b" by (rule entry_fetch [OF ok Suc.prems(7)])
  have ne: "H ?b \<noteq> EMPTY_ROOT"
  proof
    assume "H ?b = EMPTY_ROOT"
    then have "H ?b = H [0x80]" using H by (simp add: hash_ok_def)
    moreover have "?b \<in> snd ` entries s" using Suc.prems(7) by (metis image_eqI snd_conv)
    moreover have "inj_on H (insert [0x80] (snd ` entries s))" using ok by (simp add: store_ok_def coll_free_def)
    ultimately have "?b = [0x80]" by (metis inj_onD insertCI)
    then show False using node_bytes_ne_empty [OF H good Suc.prems(4)] by simp
  qed
  have dec: "decode_node ?b = Inr (node_of H t)" by (rule decode_node_of [OF H good])
  have child: "\<exists>path. prove_loop fuel s key (ref_to H (node_of H u)) d ns = Inr (mlookup u (drop d (nibs key)), ns @ path) \<and>
      (case ref_to H (node_of H u) of RHash h \<Rightarrow> verify_loop H key (mlookup u (drop d (nibs key))) path h d
               | REmpty \<Rightarrow> Inr (mlookup u (drop d (nibs key)) = None) | RInline n \<Rightarrow> Inr False) = (Inr True :: ('e, bool) res)"
    if u: "mgood u" "long_values u" "stored_ref H (entries s) u" and d: "d \<le> length (nibs key)"
      "length (nibs key) - d < fuel" for u d ns
  proof (cases "u = MEmpty")
    case True
    obtain f' where "fuel = Suc f'" using d(2) by (cases fuel) auto
    then show ?thesis using True by simp
  next
    case False
    have big: "32 \<le> length (node_bytes (node_of H u))"
      using node_bytes_long [OF H mgood_mwf [OF u(1)] False u(2)] .
    then have "(H (node_bytes (node_of H u)), node_bytes (node_of H u)) \<in> entries s" "stored H (entries s) u"
      using u(3) by (auto simp: stored_ref_def)
    then show ?thesis
      using Suc.IH [OF H ok u(1) False u(2) _ _ Suc.prems(8) d, of ns] big False by (auto simp: ref_to_def)
  qed
  show ?case
  proof (cases t)
    case (MLeaf p w)
    have "?k = p \<longleftrightarrow> length ?k = length p \<and> lcp ?k p = length p"
      using lcp_full [of ?k p] by auto
    moreover have "?k = p \<longleftrightarrow> lcp ?k p = length p \<and> depth + lcp ?k p = length (nibs key)"
      using lcp_full [of ?k p] Suc.prems(9) by auto
    ultimately show ?thesis using f ne dec MLeaf
      by (intro exI [of _ "[?b]"]) (auto simp: Let_def common_prefix_len_lcp)
  next
    case (MExt p u)
    have u: "mgood u" "long_values u" "stored_ref H (entries s) u"
      using Suc.prems mgood_MExtD long_values_MExtD MExt by auto
    show ?thesis
    proof (cases "take (length p) ?k = p")
      case True
      then have cp: "lcp ?k p = length p" using lcp_full by blast
      have le: "length p \<le> length ?k" and p: "0 < length p"
        using lcp_le [of ?k p] cp good MExt by (auto simp: mgood_def)
      have d: "depth + length p \<le> length (nibs key)" "length (nibs key) - (depth + length p) < fuel"
        using Suc.prems(9,10) le p by (simp_all, linarith+)
      obtain path where "prove_loop fuel s key (ref_to H (node_of H u)) (depth + length p) (nodes @ [?b])
            = Inr (mlookup u (drop (depth + length p) (nibs key)), (nodes @ [?b]) @ path)"
        "(case ref_to H (node_of H u) of RHash h \<Rightarrow> verify_loop H key (mlookup u (drop (depth + length p) (nibs key))) path h (depth + length p)
               | REmpty \<Rightarrow> Inr (mlookup u (drop (depth + length p) (nibs key)) = None) | RInline n \<Rightarrow> Inr False) = (Inr True :: ('e, bool) res)"
        using child [OF u d] by blast
      then show ?thesis using f ne dec MExt True cp
        by (intro exI [of _ "?b # path"])
           (simp add: Let_def common_prefix_len_lcp add.commute cong: node_ref.case_cong)
    next
      case False
      then have "lcp ?k p \<noteq> length p" using lcp_full by blast
      then show ?thesis using f ne dec MExt False
        by (intro exI [of _ "[?b]"]) (simp add: Let_def common_prefix_len_lcp)
    qed
  next
    case (MBranch ts bv)
    have l: "length ts = 16" using good MBranch by (simp add: mgood_def)
    show ?thesis
    proof (cases "depth = length (nibs key)")
      case True
      then show ?thesis using f ne dec MBranch by (intro exI [of _ "[?b]"]) simp
    next
      case False
      let ?x = "nibs key ! depth"
      have kd: "?k = ?x # drop (Suc depth) (nibs key)" and x: "unat ?x < 16"
        using False Suc.prems by (auto simp: Cons_nth_drop_Suc nibble_path_def)
      let ?u = "ts ! unat ?x"
      have u: "mgood ?u" "long_values ?u" "stored_ref H (entries s) ?u"
        using Suc.prems MBranch mgood_MBranchD [of ts bv ?u] long_values_MBranchD [of ts bv ?u] x l by auto
      have d: "depth + 1 \<le> length (nibs key)" "length (nibs key) - (depth + 1) < fuel"
        using False Suc.prems(9,10) by auto
      obtain path where "prove_loop fuel s key (ref_to H (node_of H ?u)) (depth + 1) (nodes @ [?b])
            = Inr (mlookup ?u (drop (depth + 1) (nibs key)), (nodes @ [?b]) @ path)"
        "(case ref_to H (node_of H ?u) of RHash h \<Rightarrow> verify_loop H key (mlookup ?u (drop (depth + 1) (nibs key))) path h (depth + 1)
               | REmpty \<Rightarrow> Inr (mlookup ?u (drop (depth + 1) (nibs key)) = None) | RInline n \<Rightarrow> Inr False) = (Inr True :: ('e, bool) res)"
        using child [OF u d] by blast
      then show ?thesis using f ne dec MBranch False x l kd Suc.prems(9)
        by (intro exI [of _ "?b # path"])
           (simp add: nib_at_nibs index_chk_def cong: node_ref.case_cong)
    qed
  qed (use Suc.prems in simp)
qed simp

section \<open>Properties\<close>

text \<open>C6. An accepted proof is true: if \<^verbatim>\<open>verify_proof\<close> accepts a list of nodes for a key against the
  root of a trie, the claimed value (or the claimed absence) is what the trie holds for
  the key, provided the hash has no collision among the trie's nodes and the proof's.\<close>

theorem verify_proof_sound:
  assumes "hash_ok H" "trie_ok H s" "inj_on H (insert [0x80] (snd ` entries s \<union> set nodes))"
    "verify_proof H (root s) key ev nodes = (Inr True :: (trie_error, bool) res)" "2 * length key + 1 < fuel"
  shows "trie_get fuel s key = Inr ev"
proof -
  obtain t where t: "trie_rep H s t" using assms(2) by (auto simp: trie_ok_def)
  have c: "coll_free H s" using assms(3) unfolding coll_free_def by (rule inj_on_subset) auto
  have g: "trie_get fuel s key = Inr (mlookup t (nibs (from_bytes key)))"
    by (rule trie_get_rep [OF assms(1) c t assms(5)])
  have "ev = mlookup t (nibs (from_bytes key))"
  proof (cases "t = MEmpty")
    case True
    then have r: "root s = H [0x80]" using assms(1) t by (simp add: trie_rep_def mpt_root_def hash_ok_def)
    show ?thesis
    proof (cases nodes)
      case (Cons b rest)
      then have "H b = H [0x80]" using assms(4) r by (auto simp: verify_proof_def split: if_splits)
      then have "b = [0x80]" using assms(3) Cons by (metis UnCI inj_onD insertCI list.set_intros(1))
      moreover have "decode_node [0x80] = Inr TEmpty" by (subst decode_node.simps) (simp add: item_count_def)
      ultimately show ?thesis using assms(4) Cons True r by (simp add: verify_proof_def)
    qed (use assms(4) True in \<open>simp add: verify_proof_def\<close>)
  next
    case False
    then have nodes: "nodes \<noteq> []"
      using assms(4) root_empty_iff [OF assms(1) c t] by (auto simp: verify_proof_def)
    have e: "(root s, node_bytes (node_of H t)) \<in> entries s" "root s = H (node_bytes (node_of H t))"
      using t False by (auto simp: trie_rep_def mpt_root_def)
    have "ev = mlookup t (drop 0 (nibs (from_bytes key)))"
    proof (rule verify_loop_sound [OF assms(1) _ False])
      show "node_bytes (node_of H t) \<in> snd ` entries s" using e(1) by (metis image_eqI snd_conv)
      show "inj_on H (snd ` entries s \<union> set nodes)" using assms(3) by (rule inj_on_subset) auto
      show "verify_loop H (from_bytes key) ev nodes (H (node_bytes (node_of H t))) 0 = (Inr True :: (trie_error, bool) res)"
        using assms(4) nodes e by (simp add: verify_proof_def)
    qed (use t in \<open>auto simp: trie_rep_def nibs_from_bytes\<close>)
    then show ?thesis by simp
  qed
  then show ?thesis using g by simp
qed

theorem verify_proof_sound_witness:
  "verify_proof toy_hash (root ex_one) [0x12] (Some [0xab]) [[197, 130, 32, 18, 129, 171]] = (Inr True :: (trie_error, bool) res) \<and>
   trie_get 10 ex_one [0x12] = Inr (Some [0xab])"
proof -
  have v: "verify_proof toy_hash (root ex_one) [0x12] (Some [0xab]) [[197, 130, 32, 18, 129, 171]]
           = (Inr True :: (trie_error, bool) res)" by code_simp
  have "map snd (cache ex_one @ db ex_one) = [[197, 130, 32, 18, 129, 171]]" by code_simp
  then have "snd ` entries ex_one = {[197, 130, 32, 18, 129, 171]}"
    by (metis entries_def set_append set_map list.set(1) list.simps(15))
  moreover have "toy_hash [0x80] \<noteq> toy_hash [197, 130, 32, 18, 129, 171]" by code_simp
  ultimately have "inj_on toy_hash (insert [0x80] (snd ` entries ex_one \<union> set [[197, 130, 32, 18, 129, 171]]))"
    by simp
  from verify_proof_sound [OF toy_hash_ok ex_ok(2) this v, of 10] v show ?thesis by simp
qed

text \<open>C19. A generated proof verifies: when every stored value is at least 32 bytes long - as encoded
  accounts are - \<^verbatim>\<open>prove\<close> returns a proof with the value a lookup gives (or none), and
  \<^verbatim>\<open>verify\<close> accepts it against the root, for present and absent keys alike.\<close>

theorem prove_verifies:
  assumes "hash_ok H" "trie_ok H s" "coll_free H s" "2 * length key + 1 < fuel"
    "\<forall>k v. trie_get (2 * length k + 2) s k = Inr (Some v) \<longrightarrow> 32 \<le> length v"
  shows "\<exists>p. prove fuel s key = Inr p \<and> trie_get fuel s key = Inr (proof_value p) \<and>
             merkle_verify H p (root s) = (Inr True :: (trie_error, bool) res)"
proof -
  obtain t where t: "trie_rep H s t" using assms(2) by (auto simp: trie_ok_def)
  have g: "trie_get f s k = Inr (mlookup t (nibs (from_bytes k)))" if "2 * length k + 1 < f" for f k
    by (rule trie_get_rep [OF assms(1,3) t that])
  show ?thesis
  proof (cases "t = MEmpty")
    case True
    then have "root s = EMPTY_ROOT" using t by (simp add: trie_rep_def mpt_root_def)
    moreover obtain f where "fuel = Suc f" using assms(4) by (cases fuel) auto
    ultimately show ?thesis using True g [OF assms(4)]
      by (simp add: prove_def merkle_verify_def verify_proof_def)
  next
    case False
    have long: "long_values t"
      unfolding long_values_def
    proof (intro allI impI)
      fix k v assume kv: "mlookup t k = Some v"
      then obtain key where k: "k = nibs (from_bytes key)" using t unfolding trie_rep_def byte_keys_def by blast
      have "trie_get (2 * length key + 2) s key = Inr (Some v)" using g [of key "2 * length key + 2"] kv k by simp
      then show "32 \<le> length v" using assms(5) by blast
    qed
    have r: "root s = H (node_bytes (node_of H t))" "(root s, node_bytes (node_of H t)) \<in> entries s"
      using t False by (auto simp: trie_rep_def mpt_root_def)
    have ok: "store_ok H s" "mgood t" "stored H (entries s) t" using t assms(3) by (auto simp: trie_rep_def store_ok_def)
    obtain path where "prove_loop fuel s (from_bytes key) (RHash (root s)) 0 []
          = Inr (mlookup t (nibs (from_bytes key)), path)" "path \<noteq> []"
      "verify_loop H (from_bytes key) (mlookup t (nibs (from_bytes key))) path (root s) 0 = (Inr True :: (trie_error, bool) res)"
      using prove_verify_loop [OF assms(1) ok(1,2) False long ok(3), of "from_bytes key" 0 fuel "[]"] r assms(4)
      by (auto simp: nibs_from_bytes)
    then show ?thesis using g [OF assms(4)] by (simp add: prove_def merkle_verify_def verify_proof_def)
  qed
qed

definition ex_long :: mutable_trie where
  "ex_long = snd (trie_insert toy_hash 10 [0x12] (replicate 32 0xab) (trie_new []))"

theorem prove_verifies_witness:
  "\<exists>p. prove 10 ex_long [0x12] = Inr p \<and> trie_get 10 ex_long [0x12] = Inr (proof_value p) \<and>
       merkle_verify toy_hash p (root ex_long) = (Inr True :: (trie_error, bool) res)"
proof (rule prove_verifies [OF toy_hash_ok])
  have c: "coll_free toy_hash ex_long" unfolding coll_free_distinct by code_simp
  then show "coll_free toy_hash ex_long" .
  have r: "trie_rep toy_hash ex_long (minsert MEmpty (nibs (from_bytes [0x12])) (replicate 32 0xab))"
    unfolding ex_long_def
    by (rule trie_insert_rep(2) [OF toy_hash_ok ex_rep(1)]) (use c ex_long_def in \<open>auto simp: value_ok_def key_ok_def\<close>)
  then show "trie_ok toy_hash ex_long" by (auto simp: trie_ok_def)
  show "\<forall>k v. trie_get (2 * length k + 2) ex_long k = Inr (Some v) \<longrightarrow> 32 \<le> length v"
    using trie_get_rep [OF toy_hash_ok c r] by (auto split: if_splits)
qed simp

end
