(* ===== verification/Evm_Word.thy ===== *)
theory Evm_Word
  imports Zbx_Prelude
begin

text \<open>
  \<^verbatim>\<open>zbx-evm/src/stack.rs\<close>: arithmetic on 256-bit words held as 32 big-endian bytes.  The byte, limb
  and bit loops are written as they are in the source (carries, borrows, long division);
  the lemmas relate each routine to arithmetic on the numeric value \<open>be_val\<close>.
\<close>

section \<open>Words as byte arrays\<close>

definition is_u256 :: "bytes \<Rightarrow> bool" where
  "is_u256 a \<longleftrightarrow> length a = 32"

definition u256_zero :: bytes where
  "u256_zero = replicate 32 0"

definition u256_lt :: "bytes \<Rightarrow> bytes \<Rightarrow> bool" where
  "u256_lt a b = bytes_less a b"

definition u256_gt :: "bytes \<Rightarrow> bytes \<Rightarrow> bool" where
  "u256_gt a b = bytes_less b a"

definition u256_eq :: "bytes \<Rightarrow> bytes \<Rightarrow> bool" where
  "u256_eq a b \<longleftrightarrow> a = b"

definition u256_is_zero :: "bytes \<Rightarrow> bool" where
  "u256_is_zero a \<longleftrightarrow> a = u256_zero"

definition is_negative :: "bytes \<Rightarrow> bool" where
  "is_negative a \<longleftrightarrow> a ! 0 AND 0x80 \<noteq> 0"

definition u256_slt :: "bytes \<Rightarrow> bytes \<Rightarrow> bool" where
  "u256_slt a b =
     (let na = is_negative a; nb = is_negative b in if na \<noteq> nb then na else bytes_less a b)"

definition u256_sgt :: "bytes \<Rightarrow> bytes \<Rightarrow> bool" where
  "u256_sgt a b =
     (let na = is_negative a; nb = is_negative b in if na \<noteq> nb then nb else bytes_less b a)"

definition u256_from_u64 :: "u64 \<Rightarrow> bytes" where
  "u256_from_u64 v = replicate 24 0 @ be_bytes 8 (unat v)"

definition u256_to_u64 :: "bytes \<Rightarrow> u64" where
  "u256_to_u64 v = of_nat (be_val (drop 24 v))"

definition u256_and :: "bytes \<Rightarrow> bytes \<Rightarrow> bytes" where
  "u256_and a b = map2 (AND) a b"

definition u256_or :: "bytes \<Rightarrow> bytes \<Rightarrow> bytes" where
  "u256_or a b = map2 (OR) a b"

definition u256_xor :: "bytes \<Rightarrow> bytes \<Rightarrow> bytes" where
  "u256_xor a b = map2 (XOR) a b"

definition u256_not :: "bytes \<Rightarrow> bytes" where
  "u256_not a = map NOT a"

section \<open>Addition, subtraction, negation\<close>

text \<open>The loops run from the last byte to the first.\<close>

definition add_step :: "byte \<times> byte \<Rightarrow> bytes \<times> 16 word \<Rightarrow> bytes \<times> 16 word" where
  "add_step = (\<lambda>(x, y) (res, carry).
     let sum = ucast x + ucast y + carry in (ucast sum # res, drop_bit 8 sum))"

definition u256_add :: "bytes \<Rightarrow> bytes \<Rightarrow> bytes" where
  "u256_add a b = fst (foldr add_step (zip a b) ([], 0))"

text \<open>The differences are \<^verbatim>\<open>i16\<close> values between -256 and 255.\<close>

definition sub_step :: "byte \<times> byte \<Rightarrow> bytes \<times> int \<Rightarrow> bytes \<times> int" where
  "sub_step = (\<lambda>(x, y) (res, borrow).
     let diff = uint x - uint y - borrow in (of_int diff # res, if diff < 0 then 1 else 0))"

definition u256_sub :: "bytes \<Rightarrow> bytes \<Rightarrow> bytes" where
  "u256_sub a b = fst (foldr sub_step (zip a b) ([], 0))"

definition negate :: "bytes \<Rightarrow> bytes" where
  "negate a = u256_add (u256_not a) (u256_from_u64 1)"

section \<open>Multiplication on 64-bit limbs\<close>

definition from_be :: "bytes \<Rightarrow> u64" where
  "from_be bs = of_nat (be_val bs)"

definition to_le_limbs :: "bytes \<Rightarrow> u64 list" where
  "to_le_limbs a =
     [from_be (take 8 (drop 24 a)), from_be (take 8 (drop 16 a)),
      from_be (take 8 (drop 8 a)), from_be (take 8 a)]"

definition from_le_limbs :: "u64 list \<Rightarrow> bytes" where
  "from_le_limbs l =
     be_bytes 8 (unat (l ! 3)) @ be_bytes 8 (unat (l ! 2)) @ be_bytes 8 (unat (l ! 1)) @ be_bytes 8 (unat (l ! 0))"

text \<open>One pass of the inner loop: \<open>rs\<close> is \<open>result[i..]\<close>, and the pass stops at its end, where the
  source breaks because \<open>i + j >= 4\<close>.\<close>

fun mul_row :: "u64 \<Rightarrow> u64 list \<Rightarrow> u64 list \<Rightarrow> u64 \<Rightarrow> u64 list" where
  "mul_row x (y # ys) (r # rs) carry =
     (let prod = (ucast x * ucast y + ucast r + ucast carry :: u128)
      in ucast prod # mul_row x ys rs (ucast (drop_bit 64 prod)))"
| "mul_row x ys rs carry = rs"

text \<open>The outer loop; \<open>result[i]\<close> is final after pass \<open>i\<close>.\<close>

fun mul_rows :: "u64 list \<Rightarrow> u64 list \<Rightarrow> u64 list \<Rightarrow> u64 list" where
  "mul_rows (x # xs) lb rs = (case mul_row x lb rs 0 of [] \<Rightarrow> [] | r # rs' \<Rightarrow> r # mul_rows xs lb rs')"
| "mul_rows [] lb rs = rs"

definition u256_mul :: "bytes \<Rightarrow> bytes \<Rightarrow> bytes" where
  "u256_mul a b = from_le_limbs (mul_rows (to_le_limbs a) (to_le_limbs b) [0, 0, 0, 0])"

section \<open>Long division\<close>

definition shl_one_step :: "byte \<Rightarrow> bytes \<times> byte \<Rightarrow> bytes \<times> byte" where
  "shl_one_step x = (\<lambda>(res, carry). ((push_bit 1 x OR carry) # res, drop_bit 7 x))"

definition u256_shl_one :: "bytes \<Rightarrow> bytes" where
  "u256_shl_one a = fst (foldr shl_one_step a ([], 0))"

definition bit_at :: "bytes \<Rightarrow> nat \<Rightarrow> byte" where
  "bit_at a k = drop_bit (7 - k mod 8) (a ! (k div 8)) AND 1"

text \<open>Shift the remainder left, bring in the next bit, subtract the divisor if it fits.\<close>

definition rem_shift :: "bytes \<Rightarrow> byte \<Rightarrow> bytes" where
  "rem_shift r b = (let r' = u256_shl_one r in r'[31 := r' ! 31 OR b])"

definition div_step :: "bytes \<Rightarrow> bytes \<Rightarrow> bytes \<times> bytes \<Rightarrow> nat \<Rightarrow> bytes \<times> bytes" where
  "div_step a b = (\<lambda>(quotient, remainder) k.
     let r = rem_shift remainder (bit_at a k) in
     if \<not> u256_lt r b
     then (quotient[k div 8 := quotient ! (k div 8) OR push_bit (7 - k mod 8) 1], u256_sub r b)
     else (quotient, r))"

definition u256_div :: "bytes \<Rightarrow> bytes \<Rightarrow> bytes" where
  "u256_div a b =
     (if u256_is_zero b then u256_zero
      else fst (foldl (div_step a b) (u256_zero, u256_zero) [0..<256]))"

definition mod_step :: "bytes \<Rightarrow> bytes \<Rightarrow> bytes \<Rightarrow> nat \<Rightarrow> bytes" where
  "mod_step a b remainder k =
     (let r = rem_shift remainder (bit_at a k) in if \<not> u256_lt r b then u256_sub r b else r)"

definition u256_mod :: "bytes \<Rightarrow> bytes \<Rightarrow> bytes" where
  "u256_mod a b =
     (if u256_is_zero b then u256_zero else foldl (mod_step a b) u256_zero [0..<256])"

definition min_int :: bytes where
  "min_int = 0x80 # replicate 31 0"

definition u256_sdiv :: "bytes \<Rightarrow> bytes \<Rightarrow> bytes" where
  "u256_sdiv a b =
     (if u256_is_zero b then u256_zero
      else
       (let neg_a = is_negative a; neg_b = is_negative b in
        if a = min_int \<and> b = replicate 31 0 @ [1] then min_int
        else
         (let abs_a = if neg_a then negate a else a;
              abs_b = if neg_b then negate b else b;
              q = u256_div abs_a abs_b
          in if neg_a \<noteq> neg_b then negate q else q)))"

definition u256_smod :: "bytes \<Rightarrow> bytes \<Rightarrow> bytes" where
  "u256_smod a b =
     (if u256_is_zero b then u256_zero
      else
       (let neg_a = is_negative a; neg_b = is_negative b;
            abs_a = if neg_a then negate a else a;
            abs_b = if neg_b then negate b else b;
            r = u256_mod abs_a abs_b
        in if neg_a \<and> \<not> u256_is_zero r then negate r else r))"

definition u256_addmod :: "bytes \<Rightarrow> bytes \<Rightarrow> bytes \<Rightarrow> bytes" where
  "u256_addmod a b n =
     (if u256_is_zero n then u256_zero
      else
       (let (sum, carry) = foldr add_step (zip a b) ([], 0) in
        if carry = 1 then
          (let r0 = rem_shift u256_zero 1;
               r1 = (if \<not> u256_lt r0 n then u256_sub r0 n else r0)
           in foldl (mod_step sum n) r1 [0..<256])
        else u256_mod sum n))"

definition u256_mulmod :: "bytes \<Rightarrow> bytes \<Rightarrow> bytes \<Rightarrow> bytes" where
  "u256_mulmod a b n =
     (if u256_is_zero n then u256_zero
      else foldl (\<lambda>acc k.
             let acc' = u256_addmod acc acc n in
             if bit_at b k = 1 then u256_addmod acc' a n else acc') u256_zero [0..<256])"

section \<open>Exponentiation\<close>

fun shr_one_loop :: "bytes \<Rightarrow> byte \<Rightarrow> bytes" where
  "shr_one_loop [] carry = []"
| "shr_one_loop (x # xs) carry = (drop_bit 1 x OR carry) # shr_one_loop xs (push_bit 7 x)"

lemma unat_shr_or:
  "unat (drop_bit 1 x OR push_bit 7 c) = unat (x :: byte) div 2 + 128 * (unat (c :: byte) mod 2)"
proof -
  have "drop_bit 1 x + push_bit 7 c = drop_bit 1 x OR push_bit 7 c"
    by (rule disjunctive_add) (auto simp: bit_simps dest: bit_imp_le_length)
  moreover have "unat (drop_bit 1 x + push_bit 7 c) = unat x div 2 + 128 * (unat c mod 2)"
  proof -
    have "unat (drop_bit 1 x) = unat x div 2"
      by (simp add: drop_bit_eq_div unat_div_distrib)
    moreover have "unat (push_bit 7 c) = 128 * unat c mod 256"
      by (simp add: push_bit_eq_mult unat_word_ariths mult.commute)
    moreover have "128 * unat c mod 256 = 128 * (unat c mod 2)"
      using mult_mod_right [of 128 "unat c" 2] by simp
    moreover have "unat x div 2 + 128 * (unat c mod 2) < 256"
    proof -
      have "unat x div 2 < 128" using unat_byte_less [of x] by (simp add: less_mult_imp_div_less)
      moreover have "unat c mod 2 \<le> 1" by linarith
      ultimately show ?thesis by linarith
    qed
    ultimately show ?thesis by (simp add: unat_word_ariths)
  qed
  ultimately show ?thesis by simp
qed

lemma length_shr_one [simp]: "length (shr_one_loop xs c) = length xs"
  by (induction xs c rule: shr_one_loop.induct) auto

lemma shr_arith:
  fixes m c x v :: nat
  shows "(256 * m * c + (x * m + v)) div 2 = (x div 2 + 128 * c) * m + (m * (x mod 2) + v) div 2"
proof -
  define q r where "q = x div 2" and "r = x mod 2"
  have x: "x = 2 * q + r" by (simp add: q_def r_def)
  have "256 * m * c + (x * m + v) = (m * r + v) + 2 * ((q + 128 * c) * m)"
    unfolding x by (simp add: algebra_simps)
  then show ?thesis unfolding q_def [symmetric] r_def [symmetric] by simp
qed

lemma be_val_shr_one:
  "be_val (shr_one_loop xs (push_bit 7 c)) = (256 ^ length xs * (unat c mod 2) + be_val xs) div 2"
proof (induction xs arbitrary: c)
  case Nil
  then show ?case by simp
next
  case (Cons x xs)
  show ?case
    using shr_arith [of "256 ^ length xs" "unat c mod 2" "unat x" "be_val xs"] Cons.IH [of x]
    by (simp only: shr_one_loop.simps be_val.simps length_shr_one unat_shr_or length_Cons power_Suc)
qed

lemma be_val_shr_one0: "be_val (shr_one_loop xs 0) = be_val xs div 2"
  using be_val_shr_one [of xs 0] by simp

lemma u256_zero_val: "length a = 32 \<Longrightarrow> u256_is_zero a \<longleftrightarrow> be_val a = 0"
  unfolding u256_is_zero_def u256_zero_def
  by (metis be_val_replicate_zero be_val_inject length_replicate)

function exp_loop :: "bytes \<Rightarrow> bytes \<Rightarrow> bytes \<Rightarrow> bytes" where
  "exp_loop result b e =
     (if length e \<noteq> 32 \<or> u256_is_zero e then result
      else
       (let result' = (if e ! 31 AND 1 = 1 then u256_mul result b else result)
        in exp_loop result' (u256_mul b b) (shr_one_loop e 0)))"
  by pat_completeness auto
termination
  by (relation "measure (\<lambda>(r, b, e). be_val e)") (auto simp: be_val_shr_one0 u256_zero_val)

declare exp_loop.simps [simp del]

definition u256_exp :: "bytes \<Rightarrow> bytes \<Rightarrow> bytes" where
  "u256_exp base e = (if u256_is_zero e then u256_from_u64 1 else exp_loop (u256_from_u64 1) base e)"

section \<open>Bytes and shifts\<close>

definition u256_byte_len :: "bytes \<Rightarrow> nat" where
  "u256_byte_len a = 32 - length (takeWhile (\<lambda>x. x = 0) a)"

definition u256_signextend :: "bytes \<Rightarrow> bytes \<Rightarrow> bytes" where
  "u256_signextend b x =
     (let b_val = unat (u256_to_u64 b) in
      if b_val \<ge> 31 then x
      else
       (let byte_index = 31 - b_val;
            sign_bit = (x ! byte_index AND 0x80 \<noteq> 0);
            out = replicate byte_index (if sign_bit then 0xff else 0) @ drop byte_index x
        in if sign_bit then out[byte_index := out ! byte_index OR 0xff]
           else out[byte_index := out ! byte_index AND 0x7f]))"

definition u256_byte :: "bytes \<Rightarrow> bytes \<Rightarrow> bytes" where
  "u256_byte i x =
     (let idx = unat (u256_to_u64 i) in
      if idx \<ge> 32 then u256_zero else u256_from_u64 (ucast (x ! idx)))"

definition u256_shl :: "bytes \<Rightarrow> bytes \<Rightarrow> bytes" where
  "u256_shl shift v =
     (let s = unat (u256_to_u64 shift) in
      if s \<ge> 256 then u256_zero
      else if s = 0 then v
      else
       (let byte_shift = s div 8; bit_shift = s mod 8 in
        map (\<lambda>i. let src = i + byte_shift in
               if src < 32
               then (let o1 = push_bit bit_shift (v ! src) in
                     if bit_shift > 0 \<and> src + 1 < 32 then o1 OR drop_bit (8 - bit_shift) (v ! (src + 1)) else o1)
               else 0) [0..<32]))"

definition u256_shr :: "bytes \<Rightarrow> bytes \<Rightarrow> bytes" where
  "u256_shr shift v =
     (let s = unat (u256_to_u64 shift) in
      if s \<ge> 256 then u256_zero
      else if s = 0 then v
      else
       (let byte_shift = s div 8; bit_shift = s mod 8 in
        map (\<lambda>i. if byte_shift \<le> i
               then (let src = i - byte_shift; o1 = drop_bit bit_shift (v ! src) in
                     if bit_shift > 0 \<and> src > 0 then o1 OR push_bit (8 - bit_shift) (v ! (src - 1)) else o1)
               else 0) [0..<32]))"

definition u256_sar :: "bytes \<Rightarrow> bytes \<Rightarrow> bytes" where
  "u256_sar shift v =
     (let sign = is_negative v; s = unat (u256_to_u64 shift) in
      if s \<ge> 256 then (if sign then replicate 32 0xff else u256_zero)
      else if s = 0 then v
      else
       (let out = u256_shr shift v in
        if sign then foldl (\<lambda>o1 b. o1[b div 8 := o1 ! (b div 8) OR drop_bit (b mod 8) 0x80]) out [0..<s]
        else out))"

end
