(* ===== verification/Evm_Arith.thy ===== *)
theory Evm_Arith
  imports Evm_Word
begin

text \<open>
  The 256-bit routines of Evm_Word compute what the EVM asks for: unsigned and signed
  arithmetic modulo \<open>2 ^ 256\<close>, comparisons, shifts, modular addition and multiplication
  and exponentiation, each stated on the numeric value of the byte array.
\<close>

section \<open>Comparison\<close>

lemma bytes_less_val: "length a = length b \<Longrightarrow> bytes_less a b \<longleftrightarrow> be_val a < be_val b"
proof (induction a b rule: bytes_less.induct)
  case (3 x xs y ys)
  let ?m = "256 ^ length ys :: nat"
  have v: "be_val xs < ?m" "be_val ys < ?m" using be_val_less [of xs] be_val_less [of ys] 3(2) by auto
  have lt: "unat x * ?m + be_val xs < unat y * ?m + be_val ys" if "unat x < unat y"
  proof -
    have "unat x * ?m + be_val xs < (unat x + 1) * ?m" using v by simp
    also have "\<dots> \<le> unat y * ?m" using that by (intro mult_right_mono) auto
    finally show ?thesis by simp
  qed
  have gt: "unat y * ?m + be_val ys < unat x * ?m + be_val xs" if "unat y < unat x"
  proof -
    have "unat y * ?m + be_val ys < (unat y + 1) * ?m" using v by simp
    also have "\<dots> \<le> unat x * ?m" using that by (intro mult_right_mono) auto
    finally show ?thesis by simp
  qed
  consider "unat x < unat y" | "x = y" | "unat y < unat x" by (metis linorder_neqE_nat word_unat_eq_iff)
  then show ?case
  proof cases
    case 1
    then show ?thesis using lt 3(2) by (simp add: word_less_nat_alt)
  next
    case 2
    then show ?thesis using 3 by simp
  next
    case 3
    then show ?thesis using gt \<open>length (x # xs) = length (y # ys)\<close> by (auto simp: word_less_nat_alt)
  qed
qed auto

lemma u256_lt_val: "is_u256 a \<Longrightarrow> is_u256 b \<Longrightarrow> u256_lt a b \<longleftrightarrow> be_val a < be_val b"
  by (simp add: u256_lt_def is_u256_def bytes_less_val)

lemma be_val_bound: "is_u256 a \<Longrightarrow> be_val a < 2 ^ 256"
  using be_val_less [of a] by (simp add: is_u256_def)

lemma pow_256_32: "(256 :: nat) ^ 32 = 2 ^ 256"
  by simp

lemma val_eqI: "is_u256 a \<Longrightarrow> is_u256 b \<Longrightarrow> be_val a = be_val b \<Longrightarrow> a = b"
  by (simp add: is_u256_def be_val_inject)

section \<open>Addition and subtraction\<close>

lemma unat_ucast_byte_16 [simp]: "unat (ucast (x :: byte) :: 16 word) = unat x"
proof -
  have "unat x < 2 ^ 16" using less_le_trans [OF unat_byte_less [of x], of "2 ^ 16"] by simp
  then show ?thesis by (simp add: unsigned_ucast_eq take_bit_nat_eq_self)
qed

lemma carry_arith:
  fixes s M R :: nat
  shows "(s mod 256) * M + R + s div 256 * (256 * M) = s * M + R"
proof -
  have "s * M = (256 * (s div 256) + s mod 256) * M" by (simp only: mult_div_mod_eq)
  also have "\<dots> = (s mod 256) * M + s div 256 * (256 * M)"
    by (simp only: add_mult_distrib mult.assoc mult.left_commute mult.commute add.commute add_mult_distrib2)
  finally show ?thesis by simp
qed

lemma add_fold:
  assumes "length a = length b"
  shows "let (res, c) = foldr add_step (zip a b) ([], 0) in
     length res = length a \<and> c \<le> 1 \<and> be_val res + unat c * 256 ^ length a = be_val a + be_val b"
  using assms
proof (induction a b rule: list_induct2)
  case (Cons x a y b)
  obtain res c where f: "foldr add_step (zip a b) ([], 0) = (res, c)" by fastforce
  then have IH: "length res = length a" "c \<le> 1" "be_val res + unat c * 256 ^ length a = be_val a + be_val b"
    using Cons.IH by auto
  define s where "s = unat x + unat y + unat c"
  have c: "unat c \<le> 1" using IH(2) by (simp add: word_le_nat_alt)
  have small: "s < 512" using unat_byte_less [of x] unat_byte_less [of y] c unfolding s_def by linarith
  have sum: "unat (ucast x + ucast y + c :: 16 word) = s"
  proof -
    have "unat x + unat y < 65536" "unat x + unat y + unat c < 65536" using small unfolding s_def by linarith+
    then show ?thesis unfolding s_def by (simp add: unat_word_ariths)
  qed
  have lo: "unat (ucast (ucast x + ucast y + c :: 16 word) :: byte) = s mod 256"
    using sum by (simp add: unsigned_ucast_eq take_bit_eq_mod)
  have hi: "unat (drop_bit 8 (ucast x + ucast y + c :: 16 word)) = s div 256"
    using sum by (simp add: drop_bit_eq_div unat_div_distrib)
  have "s div 256 \<le> 1" using small by linarith
  then have c1: "drop_bit 8 (ucast x + ucast y + c :: 16 word) \<le> 1" using hi by (simp add: word_le_nat_alt)
  have "(s mod 256) * 256 ^ length a + be_val res + s div 256 * (256 * 256 ^ length a)
      = s * 256 ^ length a + be_val res" by (rule carry_arith)
  also have "\<dots> = unat x * 256 ^ length a + unat y * 256 ^ length a + (be_val a + be_val b)"
    using IH(3) unfolding s_def by (simp add: algebra_simps)
  finally show ?case using f IH(1) Cons.hyps lo hi c1
    by (simp add: add_step_def Let_def algebra_simps)
qed (simp add: word_le_nat_alt)

lemma u256_add_val:
  assumes "is_u256 a" "is_u256 b"
  shows "is_u256 (u256_add a b)" "be_val (u256_add a b) = (be_val a + be_val b) mod 2 ^ 256"
proof -
  obtain res c where f: "foldr add_step (zip a b) ([], 0) = (res, c)" by fastforce
  have l: "length a = length b" using assms by (simp add: is_u256_def)
  have r: "length res = 32" "be_val res + unat c * 2 ^ 256 = be_val a + be_val b"
    using add_fold [OF l] f assms(1) by (auto simp: is_u256_def)
  show u: "is_u256 (u256_add a b)" using f r by (simp add: u256_add_def is_u256_def)
  show "be_val (u256_add a b) = (be_val a + be_val b) mod 2 ^ 256"
    using r(2) [symmetric] be_val_bound [OF u] f by (simp add: u256_add_def)
qed

lemma sub_fold:
  assumes "length a = length b"
  shows "let (res, c) = foldr sub_step (zip a b) ([], 0) in
     length res = length a \<and> (c = 0 \<or> c = 1) \<and> int (be_val res) = int (be_val a) - int (be_val b) + c * 256 ^ length a"
  using assms
proof (induction a b rule: list_induct2)
  case (Cons x a y b)
  obtain res c where f: "foldr sub_step (zip a b) ([], 0) = (res, c)" by fastforce
  then have IH: "length res = length a" "c = 0 \<or> c = 1"
    "int (be_val res) = int (be_val a) - int (be_val b) + c * 256 ^ length a"
    using Cons.IH by auto
  define d where "d = uint x - uint y - c"
  define c' where "c' = (if d < 0 then 1 else 0 :: int)"
  have b: "0 \<le> uint x" "uint x < 256" "0 \<le> uint y" "uint y < 256"
    using uint_lt2p [of x] uint_lt2p [of y] by auto
  have m: "d mod 256 = d + 256 * c'"
  proof (cases "d < 0")
    case True
    have "0 \<le> d + 256" using b IH(2) unfolding d_def by (elim disjE; linarith)
    then have "(d + 256) mod 256 = d + 256" using True by (intro mod_pos_pos_trivial) auto
    then show ?thesis using True by (simp add: c'_def)
  next
    case False
    have "d < 256" using b IH(2) unfolding d_def by (elim disjE; linarith)
    then show ?thesis using False by (simp add: c'_def)
  qed
  have "uint (of_int d :: byte) = d mod 256" by (simp add: uint_word_of_int)
  then have e: "int (unat (of_int d :: byte)) = d + 256 * c'" using m by simp
  have "int (unat (of_int d :: byte)) * 256 ^ length a + int (be_val res)
      = (uint x * 256 ^ length a + int (be_val a)) - (uint y * 256 ^ length a + int (be_val b)) + c' * (256 * 256 ^ length a)"
    unfolding e IH(3) by (simp add: d_def algebra_simps)
  moreover have "foldr sub_step (zip (x # a) (y # b)) ([], 0) = (of_int d # res, c')"
    using f by (simp add: sub_step_def Let_def d_def c'_def)
  moreover have "c' = 0 \<or> c' = 1" by (simp add: c'_def)
  ultimately show ?case using IH(1) Cons.hyps by simp
qed simp

lemma u256_sub_val:
  assumes "is_u256 a" "is_u256 b"
  shows "is_u256 (u256_sub a b)"
    "be_val b \<le> be_val a \<Longrightarrow> be_val (u256_sub a b) = be_val a - be_val b"
    "int (be_val (u256_sub a b)) = (int (be_val a) - int (be_val b)) mod 2 ^ 256"
proof -
  obtain res c where f: "foldr sub_step (zip a b) ([], 0) = (res, c)" by fastforce
  have l: "length a = length b" using assms by (simp add: is_u256_def)
  have r: "length res = 32" "int (be_val res) = int (be_val a) - int (be_val b) + c * 2 ^ 256"
    using sub_fold [OF l] f assms(1) by (auto simp: is_u256_def)
  have e: "u256_sub a b = res" using f by (simp add: u256_sub_def)
  show u: "is_u256 (u256_sub a b)" using e r by (simp add: is_u256_def)
  have "int (be_val res) < 2 ^ 256" using be_val_bound [OF u] e by (metis of_nat_less_iff of_nat_numeral of_nat_power)
  then have "int (be_val res) mod 2 ^ 256 = int (be_val res)" by (intro mod_pos_pos_trivial) auto
  then show m: "int (be_val (u256_sub a b)) = (int (be_val a) - int (be_val b)) mod 2 ^ 256"
    unfolding e r(2) by (metis mod_mult_self1)
  assume "be_val b \<le> be_val a"
  then have "(int (be_val a) - int (be_val b)) mod 2 ^ 256 = int (be_val a - be_val b)"
    using be_val_bound [OF assms(1)] by (simp add: of_nat_diff flip: of_nat_power)
  then show "be_val (u256_sub a b) = be_val a - be_val b" using m by linarith
qed

section \<open>Multiplication\<close>

primrec le_val :: "u64 list \<Rightarrow> nat" where
  "le_val [] = 0"
| "le_val (x # xs) = unat x + 2 ^ 64 * le_val xs"

lemma unat_ucast_64_128 [simp]: "unat (ucast (x :: u64) :: u128) = unat x"
proof -
  have "unat x < 2 ^ 64" using unsigned_less [of x, where 'a = nat] by simp
  then have "unat x < 2 ^ 128" by simp
  then show ?thesis by (simp add: unsigned_ucast_eq take_bit_nat_eq_self)
qed

lemma mul_prod_exact:
  fixes x y r c :: u64
  defines "p \<equiv> unat x * unat y + unat r + unat c"
  shows "unat (ucast x * ucast y + ucast r + ucast c :: u128) = p"
    "unat (ucast (ucast x * ucast y + ucast r + ucast c :: u128) :: u64) = p mod 2 ^ 64"
    "unat (ucast (drop_bit 64 (ucast x * ucast y + ucast r + ucast c :: u128)) :: u64) = p div 2 ^ 64"
proof -
  have b: "unat x \<le> 2 ^ 64 - 1" "unat y \<le> 2 ^ 64 - 1" "unat r \<le> 2 ^ 64 - 1" "unat c \<le> 2 ^ 64 - 1"
    using unsigned_less [of x, where 'a = nat] unsigned_less [of y, where 'a = nat]
      unsigned_less [of r, where 'a = nat] unsigned_less [of c, where 'a = nat] by simp_all
  have "unat x * unat y \<le> (2 ^ 64 - 1) * (2 ^ 64 - 1)" using b by (intro mult_mono) auto
  then have p: "p < 2 ^ 128" "unat x * unat y + unat r < 2 ^ 128" "unat x * unat y < 2 ^ 128"
    using b unfolding p_def by simp_all
  then show e: "unat (ucast x * ucast y + ucast r + ucast c :: u128) = p"
    by (simp add: unat_word_ariths p_def)
  show "unat (ucast (ucast x * ucast y + ucast r + ucast c :: u128) :: u64) = p mod 2 ^ 64"
    using e by (simp add: unsigned_ucast_eq take_bit_eq_mod)
  have "p div 2 ^ 64 < 2 ^ 64" using p(1) by (intro less_mult_imp_div_less) simp
  then show "unat (ucast (drop_bit 64 (ucast x * ucast y + ucast r + ucast c :: u128)) :: u64) = p div 2 ^ 64"
    using e by (simp add: unsigned_ucast_eq take_bit_eq_mod drop_bit_eq_div unat_div_distrib)
qed

lemma length_mul_row [simp]: "length (mul_row x ys rs c) = length rs"
  by (induction x ys rs c rule: mul_row.induct) (auto simp: Let_def)

lemma mod_scale_add:
  fixes a b m k r :: nat
  assumes "a mod m = b mod m"
  shows "(r + k * a) mod (k * m) = (r + k * b) mod (k * m)"
  by (metis assms mod_add_right_eq mult_mod_right)

lemma mul_row_val:
  "length rs \<le> length ys \<Longrightarrow>
   le_val (mul_row x ys rs c) mod 2 ^ (64 * length rs) = (le_val rs + unat x * le_val ys + unat c) mod 2 ^ (64 * length rs)"
proof (induction x ys rs c rule: mul_row.induct)
  case (1 x y ys r rs c)
  define p where "p = unat x * unat y + unat r + unat c"
  let ?m = "2 ^ (64 * length rs) :: nat"
  let ?h = "ucast (drop_bit 64 (ucast x * ucast y + ucast r + ucast c :: u128)) :: u64"
  have "le_val (mul_row x ys rs ?h) mod ?m = (le_val rs + unat x * le_val ys + unat ?h) mod ?m"
    using 1 by simp
  then have IH: "le_val (mul_row x ys rs ?h) mod ?m = (le_val rs + unat x * le_val ys + p div 2 ^ 64) mod ?m"
    by (simp only: mul_prod_exact(3) p_def)
  have "le_val (mul_row x (y # ys) (r # rs) c) = p mod 2 ^ 64 + 2 ^ 64 * le_val (mul_row x ys rs ?h)"
    by (simp only: mul_row.simps Let_def le_val.simps mul_prod_exact(2) p_def)
  moreover have "2 ^ (64 * length (r # rs)) = 2 ^ 64 * ?m" by (simp add: power_add)
  moreover note mod_scale_add [OF IH, of "p mod 2 ^ 64" "2 ^ 64"]
  moreover have "p mod 2 ^ 64 + 2 ^ 64 * (le_val rs + unat x * le_val ys + p div 2 ^ 64)
      = (2 ^ 64 * (p div 2 ^ 64) + p mod 2 ^ 64) + 2 ^ 64 * (le_val rs + unat x * le_val ys)"
    by (simp only: add_mult_distrib2 add.assoc add.commute add.left_commute)
  moreover have "2 ^ 64 * (p div 2 ^ 64) + p mod 2 ^ 64 = p" by (rule mult_div_mod_eq)
  moreover have "p + 2 ^ 64 * (le_val rs + unat x * le_val ys) = le_val (r # rs) + unat x * le_val (y # ys) + unat c"
    by (simp add: p_def algebra_simps)
  ultimately show ?case by (simp only:)
qed auto

lemma length_mul_rows [simp]: "length (mul_rows xs lb rs) = length rs"
proof (induction xs lb rs rule: mul_rows.induct)
  case (1 x xs lb rs)
  have "length (mul_row x lb rs 0) = length rs" by simp
  then show ?case using 1 by (cases "mul_row x lb rs 0") (auto split: list.splits)
qed simp

lemma mul_rows_val:
  "length rs = length xs \<Longrightarrow> length rs \<le> length lb \<Longrightarrow>
   le_val (mul_rows xs lb rs) mod 2 ^ (64 * length rs) = (le_val rs + le_val xs * le_val lb) mod 2 ^ (64 * length rs)"
proof (induction xs lb rs rule: mul_rows.induct)
  case (1 x xs lb rs)
  obtain r rs' where row: "mul_row x lb rs 0 = r # rs'" using 1(2) length_mul_row [of x lb rs 0]
    by (cases "mul_row x lb rs 0") auto
  then have l: "length rs = Suc (length rs')" using length_mul_row [of x lb rs 0] by simp
  let ?m = "2 ^ (64 * length rs') :: nat"
  have e: "2 ^ (64 * length rs) = 2 ^ 64 * ?m" by (simp only: l mult_Suc_right power_add)
  have IH: "le_val (mul_rows xs lb rs') mod ?m = (le_val rs' + le_val xs * le_val lb) mod ?m"
    using 1 row l by simp
  have R: "(unat r + 2 ^ 64 * le_val rs') mod (2 ^ 64 * ?m) = (le_val rs + unat x * le_val lb) mod (2 ^ 64 * ?m)"
    using mul_row_val [of rs lb x 0, OF 1(3)] by (simp only: e row le_val.simps unat_0 add_0_right)
  have "le_val (mul_rows (x # xs) lb rs) = unat r + 2 ^ 64 * le_val (mul_rows xs lb rs')" using row by simp
  also have "\<dots> mod (2 ^ 64 * ?m) = (unat r + 2 ^ 64 * (le_val rs' + le_val xs * le_val lb)) mod (2 ^ 64 * ?m)"
    by (rule mod_scale_add [OF IH])
  also have "\<dots> = ((unat r + 2 ^ 64 * le_val rs') + 2 ^ 64 * (le_val xs * le_val lb)) mod (2 ^ 64 * ?m)"
    by (simp only: add_mult_distrib2 add.assoc)
  also have "\<dots> = ((le_val rs + unat x * le_val lb) + 2 ^ 64 * (le_val xs * le_val lb)) mod (2 ^ 64 * ?m)"
    by (rule mod_add_cong [OF R refl])
  also have "(le_val rs + unat x * le_val lb) + 2 ^ 64 * (le_val xs * le_val lb) = le_val rs + le_val (x # xs) * le_val lb"
    by (simp add: algebra_simps)
  finally show ?case by (simp only: e)
qed simp

lemma unat_from_be: "length bs = 8 \<Longrightarrow> unat (from_be bs) = be_val bs"
  using be_val_less [of bs] by (simp add: from_be_def unat_of_nat)

lemma to_le_limbs_val:
  assumes "is_u256 a"
  shows "le_val (to_le_limbs a) = be_val a" "length (to_le_limbs a) = 4"
proof -
  have "a = take 8 a @ take 8 (drop 8 a) @ take 8 (drop 16 a) @ take 8 (drop 24 a)"
    using assms append_take_drop_id [of 8 a] append_take_drop_id [of 8 "drop 8 a"]
      append_take_drop_id [of 8 "drop 16 a"] append_take_drop_id [of 8 "drop 24 a"]
    by (simp add: is_u256_def)
  then have "be_val a = be_val (take 8 a @ take 8 (drop 8 a) @ take 8 (drop 16 a) @ take 8 (drop 24 a))" by simp
  then show "le_val (to_le_limbs a) = be_val a"
    using assms by (simp add: to_le_limbs_def unat_from_be is_u256_def be_val_append)
qed (simp add: to_le_limbs_def)

lemma from_le_limbs_val:
  assumes "length l = 4"
  shows "is_u256 (from_le_limbs l)" "be_val (from_le_limbs l) = le_val l"
proof -
  obtain a b c d where l: "l = [a, b, c, d]" using assms by (auto simp: length_Suc_conv numeral_eq_Suc)
  have w: "be_val (be_bytes 8 (unat x)) = unat x" for x :: u64
    using unsigned_less [of x, where 'a = nat] by (simp add: be_val_be_bytes)
  show "is_u256 (from_le_limbs l)" by (simp add: from_le_limbs_def is_u256_def)
  show "be_val (from_le_limbs l) = le_val l" by (simp add: l from_le_limbs_def be_val_append w)
qed

lemma u256_mul_val:
  assumes "is_u256 a" "is_u256 b"
  shows "is_u256 (u256_mul a b)" "be_val (u256_mul a b) = (be_val a * be_val b) mod 2 ^ 256"
proof -
  let ?r = "mul_rows (to_le_limbs a) (to_le_limbs b) [0, 0, 0, 0]"
  have l: "length ?r = 4" by simp
  show u: "is_u256 (u256_mul a b)" using from_le_limbs_val(1) [OF l] by (simp add: u256_mul_def)
  have v: "be_val (u256_mul a b) = le_val ?r" using from_le_limbs_val(2) [OF l] by (simp add: u256_mul_def)
  have "le_val ?r mod 2 ^ 256 = (be_val a * be_val b) mod 2 ^ 256"
    using mul_rows_val [of "[0, 0, 0, 0]" "to_le_limbs a" "to_le_limbs b"] to_le_limbs_val [OF assms(1)] to_le_limbs_val [OF assms(2)]
    by simp
  then show "be_val (u256_mul a b) = (be_val a * be_val b) mod 2 ^ 256"
    using be_val_bound [OF u] v by simp
qed

section \<open>Bits of the value\<close>

text \<open>Bit \<open>n\<close> of the value is bit \<open>n mod 8\<close> of the byte \<open>n div 8\<close> places from the end.\<close>

lemma bit_byte_or_high: "j < 8 \<Longrightarrow> bit (unat (x :: byte)) j = bit x j"
  by (simp add: bit_unsigned_iff)

lemma bit_be_val_Cons:
  "bit (unat x * 256 ^ length xs + be_val xs) n \<longleftrightarrow>
     (if n < 8 * length xs then bit (be_val xs) n else bit x (n - 8 * length xs))"
proof -
  have p: "(256 :: nat) ^ length xs = 2 ^ (8 * length xs)" by (simp add: power_mult)
  have "unat x * 256 ^ length xs + be_val xs = push_bit (8 * length xs) (unat x) + take_bit (8 * length xs) (be_val xs)"
    using be_val_less [of xs] by (simp add: push_bit_eq_mult take_bit_eq_mod p)
  also have "\<dots> = push_bit (8 * length xs) (unat x) OR take_bit (8 * length xs) (be_val xs)"
    by (rule disjunctive_add) (auto simp: bit_simps)
  finally show ?thesis by (auto simp: bit_simps)
qed

lemma bit_be_val:
  "bit (be_val a) n \<longleftrightarrow> n < 8 * length a \<and> bit (a ! (length a - 1 - n div 8)) (n mod 8)"
proof (induction a)
  case (Cons x xs)
  show ?case
  proof (cases "n < 8 * length xs")
    case True
    then have "length (x # xs) - 1 - n div 8 = Suc (length xs - 1 - n div 8)" by (simp add: Suc_diff_Suc)
    then show ?thesis using True Cons by (simp add: bit_be_val_Cons)
  next
    case False
    then have d: "length xs \<le> n div 8" by linarith
    show ?thesis
    proof (cases "n < 8 * Suc (length xs)")
      case True
      then have "n div 8 = length xs"
        using d less_mult_imp_div_less [of n "Suc (length xs)" 8] by (simp add: mult.commute)
      then have "n - 8 * length xs = n mod 8" by (metis minus_mult_div_eq_mod)
      then show ?thesis using False True d by (simp add: bit_be_val_Cons)
    next
      case F2: False
      then have "\<not> bit x (n - 8 * length xs)" using bit_imp_le_length [of x "n - 8 * length xs"] by auto
      then show ?thesis using False F2 by (simp add: bit_be_val_Cons)
    qed
  qed
qed simp

lemma bit_u256:
  "is_u256 a \<Longrightarrow> bit (be_val a) n \<longleftrightarrow> n < 256 \<and> bit (a ! (31 - n div 8)) (n mod 8)"
  by (simp add: bit_be_val is_u256_def)

lemma bit_u256_rev:
  assumes "is_u256 a" "k < 256"
  shows "bit (be_val a) (255 - k) \<longleftrightarrow> bit (a ! (k div 8)) (7 - k mod 8)"
proof -
  have k: "k div 8 \<le> 31" using assms(2) by simp
  have lt: "255 - k < 256" by linarith
  define j where "j = 7 - k mod 8"
  have j: "j < 8" by (simp add: j_def)
  have "255 - k = j + 8 * (31 - k div 8)"
    using mult_div_mod_eq [of 8 k] mod_less_divisor [of 8 k] k unfolding j_def by linarith
  then have "(255 - k) div 8 = 31 - k div 8" "(255 - k) mod 8 = 7 - k mod 8" using j by (simp_all add: j_def [symmetric])
  then show ?thesis using assms k lt by (simp add: bit_u256)
qed

lemma u256_bitwise_val:
  assumes "is_u256 a" "is_u256 b"
  shows "be_val (u256_and a b) = be_val a AND be_val b"
    "be_val (u256_or a b) = be_val a OR be_val b"
    "be_val (u256_xor a b) = be_val a XOR be_val b"
    "be_val (u256_not a) = 2 ^ 256 - 1 - be_val a"
    "is_u256 (u256_and a b)" "is_u256 (u256_or a b)" "is_u256 (u256_xor a b)" "is_u256 (u256_not a)"
proof -
  show u: "is_u256 (u256_and a b)" "is_u256 (u256_or a b)" "is_u256 (u256_xor a b)" "is_u256 (u256_not a)"
    using assms by (simp_all add: is_u256_def u256_and_def u256_or_def u256_xor_def u256_not_def)
  have i: "31 - n div 8 < length a" "31 - n div 8 < length b" for n
    using assms by (simp_all add: is_u256_def)
  show "be_val (u256_and a b) = be_val a AND be_val b"
    using u assms i by (auto intro!: bit_eqI simp: bit_u256 bit_simps u256_and_def)
  show "be_val (u256_or a b) = be_val a OR be_val b"
    using u assms i by (auto intro!: bit_eqI simp: bit_u256 bit_simps u256_or_def)
  show "be_val (u256_xor a b) = be_val a XOR be_val b"
    using u assms i by (auto intro!: bit_eqI simp: bit_u256 bit_simps u256_xor_def)
  have "be_val (u256_not a) + be_val a = be_val (u256_not a) OR be_val a"
    using u assms i by (intro disjunctive_add) (auto simp: bit_u256 bit_simps u256_not_def)
  also have "\<dots> = mask 256"
    using u assms i by (auto intro!: bit_eqI simp: bit_u256 bit_simps u256_not_def)
  finally show "be_val (u256_not a) = 2 ^ 256 - 1 - be_val a" by (simp add: mask_eq_exp_minus_1)
qed

section \<open>Long division\<close>

lemma length_shl_fold: "length (fst (foldr shl_one_step a (res, c))) = length a + length res"
  by (induction a) (auto simp: shl_one_step_def split_beta)

lemma shl_one_byte:
  assumes "unat c \<le> 1"
  shows "unat (push_bit 1 x OR c) = (2 * unat (x :: byte)) mod 256 + unat (c :: byte)"
proof -
  have c: "c = 0 \<or> c = 1" using assms by (metis le_eq_less_or_eq less_one unat_1 unat_0 word_unat_eq_iff)
  have e: "unat (push_bit 1 x) = (2 * unat x) mod 256"
    by (simp add: push_bit_eq_mult unat_word_ariths mult.commute)
  have o: "push_bit 1 x OR 1 = push_bit 1 x + 1"
    by (simp add: or_one_eq push_bit_eq_mult)
  have "unat (push_bit 1 x + 1) = (2 * unat x) mod 256 + 1"
  proof -
    have h: "(2 * unat x) mod 256 = 2 * (unat x mod 128)" using mult_mod_right [of 2 "unat x" 128] by simp
    have "unat x mod 128 \<le> 127" by linarith
    then have "2 * (unat x mod 128) + 1 < 256" by linarith
    then show ?thesis unfolding h using e h by (simp add: unat_word_ariths)
  qed
  then show ?thesis using c e by (auto simp only: o unat_0 unat_1 or.right_neutral add_0_right)
qed

lemma double_split:
  fixes x r q M :: nat
  assumes "2 * x = r + 256 * q"
  shows "2 * (x * M) = r * M + q * (256 * M)"
proof -
  have "2 * (x * M) = (2 * x) * M" by simp
  also have "\<dots> = r * M + q * (256 * M)" unfolding assms by (simp add: algebra_simps)
  finally show ?thesis .
qed

lemma shl_fold_val:
  "(let (res, c) = foldr shl_one_step a ([], 0) in
     unat c \<le> 1 \<and> be_val res + unat c * 256 ^ length a = 2 * be_val a)"
proof (induction a)
  case (Cons x a)
  obtain res c where f: "foldr shl_one_step a ([], 0) = (res, c)" by fastforce
  have l: "length res = length a" using length_shl_fold [of a "[]" 0] f by simp
  have IH: "unat c \<le> 1" "be_val res + unat c * 256 ^ length a = 2 * be_val a" using Cons f by auto
  have d: "unat (drop_bit 7 x) = unat x div 128" by (simp add: drop_bit_eq_div unat_div_distrib)
  have "2 * unat x = (2 * unat x) mod 256 + 256 * (unat x div 128)"
    using mult_div_mod_eq [of 256 "2 * unat x"] by simp
  then have x: "2 * (unat x * 256 ^ length a) = ((2 * unat x) mod 256) * 256 ^ length a + unat x div 128 * (256 * 256 ^ length a)"
    by (rule double_split)
  have s: "foldr shl_one_step (x # a) ([], 0) = ((push_bit 1 x OR c) # res, drop_bit 7 x)"
    by (simp only: foldr.simps o_apply f shl_one_step_def prod.case)
  have "unat (drop_bit 7 x) \<le> 1" using unat_byte_less [of x] unfolding d by linarith
  moreover have "be_val ((push_bit 1 x OR c) # res) + unat (drop_bit 7 x) * 256 ^ length (x # a) = 2 * be_val (x # a)"
    using IH(2) x unfolding be_val.simps l shl_one_byte [OF IH(1)] d
    by (simp only: add_mult_distrib add_mult_distrib2 length_Cons power_Suc)
  ultimately show ?case by (simp only: s Let_def prod.case simp_thms)
qed simp

lemma shl_one_val:
  assumes "is_u256 a"
  shows "is_u256 (u256_shl_one a)" "be_val (u256_shl_one a) = (2 * be_val a) mod 2 ^ 256"
proof -
  show u: "is_u256 (u256_shl_one a)"
    using assms by (simp add: is_u256_def u256_shl_one_def length_shl_fold)
  obtain res c where f: "foldr shl_one_step a ([], 0) = (res, c)" by fastforce
  have v: "be_val res + unat c * 256 ^ 32 = 2 * be_val a" using shl_fold_val [of a] f assms by (simp add: is_u256_def)
  have "be_val res < 2 ^ 256" using be_val_bound [OF u] f by (simp add: u256_shl_one_def)
  then have "(be_val res + unat c * 2 ^ 256) mod 2 ^ 256 = be_val res" by (simp only: mod_mult_self1 mod_less)
  then show "be_val (u256_shl_one a) = (2 * be_val a) mod 2 ^ 256"
    using v f by (simp only: pow_256_32 u256_shl_one_def fst_conv)
qed

text \<open>The shift drops the top bit.\<close>

lemma rem_shift_wrap:
  assumes "is_u256 r" "unat b \<le> 1"
  shows "is_u256 (rem_shift r b)" "be_val (rem_shift r b) = (2 * be_val r) mod 2 ^ 256 + unat b"
proof -
  let ?r = "u256_shl_one r"
  note v = shl_one_val [OF assms(1)]
  show "is_u256 (rem_shift r b)" using v by (simp add: is_u256_def rem_shift_def Let_def)
  have n: "?r \<noteq> []" "length (butlast ?r) = 31" using v(1) by (auto simp: is_u256_def)
  have e: "?r = butlast ?r @ [last ?r]" using append_butlast_last_id [OF n(1)] by (rule sym)
  have val: "256 * be_val (butlast ?r) + unat (last ?r) = (2 * be_val r) mod 2 ^ 256"
    using v(2) arg_cong [OF e, of be_val] be_val_append [of "butlast ?r" "[last ?r]"] by simp
  moreover have "even ((2 * be_val r) mod 2 ^ 256)" by (rule dvd_mod) simp_all
  ultimately have "even (256 * be_val (butlast ?r) + unat (last ?r))" by (simp only: val)
  then have ev: "even (unat (last ?r))" by simp
  have "unat (last ?r OR b) = unat (last ?r) + unat b"
  proof -
    have b: "b = 0 \<or> b = 1" using assms(2) by (metis le_eq_less_or_eq less_one unat_1 unat_0 word_unat_eq_iff)
    have "even (last ?r)" using ev bit_byte_or_high [of 0 "last ?r"] by (simp add: bit_0)
    then have "last ?r OR 1 = last ?r + 1" by (simp add: or_one_eq)
    moreover have "unat (last ?r) + 1 < 256" using ev unat_byte_less [of "last ?r"] by presburger
    ultimately show ?thesis using b by (auto simp: unat_word_ariths)
  qed
  moreover have "rem_shift r b = butlast ?r @ [last ?r OR b]"
    unfolding rem_shift_def Let_def using e n(2) by (metis list_update_length nth_append_length)
  ultimately show "be_val (rem_shift r b) = (2 * be_val r) mod 2 ^ 256 + unat b"
    using val by (simp add: be_val_append)
qed

lemma rem_shift_val:
  assumes "is_u256 r" "unat b \<le> 1" "2 * be_val r < 2 ^ 256"
  shows "is_u256 (rem_shift r b)" "be_val (rem_shift r b) = 2 * be_val r + unat b"
  using rem_shift_wrap [OF assms(1,2)] assms(3) by simp_all

lemma bit_at_val:
  assumes "is_u256 a" "k < 256"
  shows "unat (bit_at a k) = be_val a div 2 ^ (255 - k) mod 2"
proof -
  have "bit_at a k = of_bool (bit (a ! (k div 8)) (7 - k mod 8))"
    by (simp add: bit_at_def and_one_eq bit_iff_odd_drop_bit flip: mod_2_eq_odd)
  also have "\<dots> = of_bool (bit (be_val a) (255 - k))" using bit_u256_rev [OF assms] by simp
  finally show ?thesis by (simp add: bit_iff_odd mod_2_eq_odd)
qed

text \<open>The bits read so far, as a number, and how one more bit extends it.\<close>

lemma prefix_step:
  fixes V k :: nat
  assumes "k < 256"
  shows "V div 2 ^ (256 - Suc k) = 2 * (V div 2 ^ (256 - k)) + V div 2 ^ (255 - k) mod 2"
proof -
  have "256 - k = Suc (255 - k)" using assms by linarith
  then have "(2 :: nat) ^ (256 - k) = 2 ^ (255 - k) * 2" by (simp only: power_Suc2)
  then have "V div 2 ^ (256 - k) = V div 2 ^ (255 - k) div 2" by (simp only: div_mult2_eq)
  then show ?thesis by simp
qed

lemma prefix_less:
  fixes V k :: nat
  assumes "V < 2 ^ 256" "k \<le> 256"
  shows "V div 2 ^ (256 - k) < 2 ^ k"
proof -
  have "(2 :: nat) ^ 256 = 2 ^ k * 2 ^ (256 - k)" using assms(2) by (simp flip: power_add)
  then show ?thesis using assms(1) by (simp add: less_mult_imp_div_less)
qed

lemma reduce_once:
  assumes "is_u256 r" "is_u256 b" "be_val r < 2 * be_val b"
  shows "is_u256 (if \<not> u256_lt r b then u256_sub r b else r)"
    "be_val (if \<not> u256_lt r b then u256_sub r b else r) = be_val r mod be_val b"
    "be_val r div be_val b = (if \<not> u256_lt r b then 1 else 0)"
proof -
  show "is_u256 (if \<not> u256_lt r b then u256_sub r b else r)" using assms u256_sub_val by auto
  have s: "be_val (u256_sub r b) = be_val r - be_val b" if "be_val b \<le> be_val r"
    using u256_sub_val(2) assms that by simp
  show "be_val (if \<not> u256_lt r b then u256_sub r b else r) = be_val r mod be_val b"
    using assms s by (auto simp: u256_lt_val mod_if le_mod_geq)
  show "be_val r div be_val b = (if \<not> u256_lt r b then 1 else 0)"
    using assms by (auto simp: u256_lt_val div_if)
qed

lemma mod_shift_bound:
  fixes p B k :: nat
  assumes "p < 2 ^ k" "k < 256" "0 < B"
  shows "2 * (p mod B) < 2 ^ 256"
proof -
  have "p mod B < 2 ^ k" using assms(1) mod_less_eq_dividend [of p B] by linarith
  moreover have "(2 :: nat) ^ k \<le> 2 ^ 255" using assms(2) by (intro power_increasing) auto
  moreover have "(2 :: nat) ^ 256 = 2 * 2 ^ 255" by simp
  ultimately show ?thesis by linarith
qed

text \<open>One round of the division loop, on values: the shifted remainder stays below twice the divisor.\<close>

lemma div_round:
  assumes "is_u256 r" "is_u256 b" "0 < be_val b" "unat c \<le> 1" "be_val r = p mod be_val b" "2 * (p mod be_val b) < 2 ^ 256"
  shows "is_u256 (rem_shift r c)" "be_val (rem_shift r c) = 2 * (p mod be_val b) + unat c"
    "be_val (rem_shift r c) < 2 * be_val b"
    "be_val (rem_shift r c) mod be_val b = (2 * p + unat c) mod be_val b"
    "(2 * p + unat c) div be_val b = 2 * (p div be_val b) + be_val (rem_shift r c) div be_val b"
proof -
  let ?B = "be_val b" and ?q = "p div be_val b" and ?m = "p mod be_val b"
  show "is_u256 (rem_shift r c)" and v: "be_val (rem_shift r c) = 2 * ?m + unat c"
    using rem_shift_val [OF assms(1,4)] assms(5,6) by simp_all
  have "?m < ?B" using assms(3) by simp
  then show "be_val (rem_shift r c) < 2 * ?B" using v assms(4) by linarith
  have "p = ?B * ?q + ?m" by simp
  then have "2 * p + unat c = 2 * (?B * ?q + ?m) + unat c" by simp
  also have "\<dots> = (2 * ?m + unat c) + ?B * (2 * ?q)" by (simp only: add_mult_distrib2 mult.left_commute add.assoc add.left_commute add.commute)
  finally have e: "2 * p + unat c = (2 * ?m + unat c) + ?B * (2 * ?q)" .
  show "be_val (rem_shift r c) mod ?B = (2 * p + unat c) mod ?B" unfolding v e by simp
  show "(2 * p + unat c) div ?B = 2 * ?q + be_val (rem_shift r c) div ?B" unfolding v e using assms(3) by simp
qed

lemma bit_at_le: "unat (bit_at a k) \<le> 1"
proof -
  have "bit_at a k = of_bool (odd (drop_bit (7 - k mod 8) (a ! (k div 8))))"
    by (simp add: bit_at_def and_one_eq mod_2_eq_odd)
  then show ?thesis by simp
qed

text \<open>The loop that keeps only the remainder, started from any reduced prefix.\<close>

lemma mod_loop:
  assumes "is_u256 a" "is_u256 n" "0 < be_val n" "is_u256 r" "be_val r = P mod be_val n"
    "\<And>j. j < k \<Longrightarrow> 2 * ((P * 2 ^ j + be_val a div 2 ^ (256 - j)) mod be_val n) < 2 ^ 256" "k \<le> 256"
  shows "is_u256 (foldl (mod_step a n) r [0..<k])"
    "be_val (foldl (mod_step a n) r [0..<k]) = (P * 2 ^ k + be_val a div 2 ^ (256 - k)) mod be_val n"
proof -
  have "is_u256 (foldl (mod_step a n) r [0..<k]) \<and>
      be_val (foldl (mod_step a n) r [0..<k]) = (P * 2 ^ k + be_val a div 2 ^ (256 - k)) mod be_val n"
    using assms(6,7)
  proof (induction k)
    case 0
    have "be_val a div 2 ^ 256 = 0" using be_val_bound [OF assms(1)] by (rule div_less)
    then show ?case using assms(4,5) by simp
  next
    case (Suc k)
    let ?r = "foldl (mod_step a n) r [0..<k]" and ?p = "P * 2 ^ k + be_val a div 2 ^ (256 - k)" and ?c = "bit_at a k"
    have IH: "is_u256 ?r" "be_val ?r = ?p mod be_val n" using Suc by simp_all
    have c: "unat ?c = be_val a div 2 ^ (255 - k) mod 2" using bit_at_val [OF assms(1)] Suc(3) by simp
    note d = div_round [OF IH(1) assms(2,3) bit_at_le IH(2) Suc(2) [OF lessI], of a k]
    note r = reduce_once [OF d(1) assms(2) d(3)]
    have "2 * ?p + unat ?c = P * 2 ^ Suc k + be_val a div 2 ^ (256 - Suc k)"
      using prefix_step [of k "be_val a"] Suc(3) c by simp
    then show ?case using r(1,2) d(4) by (simp only: upt_Suc_append foldl_append foldl.simps mod_step_def [of a n ?r k] Let_def simp_thms le0)
  qed
  then show "is_u256 (foldl (mod_step a n) r [0..<k])"
    "be_val (foldl (mod_step a n) r [0..<k]) = (P * 2 ^ k + be_val a div 2 ^ (256 - k)) mod be_val n" by simp_all
qed

lemma u256_zero_simps [simp]: "is_u256 u256_zero" "be_val u256_zero = 0"
  by (simp_all add: is_u256_def u256_zero_def)

lemma u256_is_zero_iff: "is_u256 a \<Longrightarrow> u256_is_zero a \<longleftrightarrow> be_val a = 0"
  by (simp add: is_u256_def u256_zero_val)

lemma u256_mod_val:
  assumes "is_u256 a" "is_u256 b"
  shows "is_u256 (u256_mod a b)" "be_val (u256_mod a b) = (if be_val b = 0 then 0 else be_val a mod be_val b)"
proof -
  have "is_u256 (u256_mod a b) \<and> be_val (u256_mod a b) = be_val a mod be_val b" if b: "0 < be_val b"
  proof -
    have bd: "2 * ((0 * 2 ^ j + be_val a div 2 ^ (256 - j)) mod be_val b) < 2 ^ 256" if "j < 256" for j
      using mod_shift_bound [OF prefix_less [OF be_val_bound [OF assms(1)], of j] that b] that by simp
    show ?thesis
      using mod_loop [OF assms b, of u256_zero 0 256, OF _ _ bd] b assms(2)
      by (simp add: u256_mod_def u256_is_zero_iff)
  qed
  moreover have "u256_mod a b = u256_zero" if "be_val b = 0" using that assms(2) by (simp add: u256_mod_def u256_is_zero_iff)
  ultimately show "is_u256 (u256_mod a b)" "be_val (u256_mod a b) = (if be_val b = 0 then 0 else be_val a mod be_val b)"
    by (cases "be_val b = 0"; simp)+
qed

text \<open>Setting bit \<open>k\<close>, counted from the most significant end.\<close>

lemma set_bit_or:
  assumes "is_u256 q" "k < 256"
  shows "be_val (q[k div 8 := q ! (k div 8) OR push_bit (7 - k mod 8) 1]) = be_val q OR 2 ^ (255 - k)"
proof -
  let ?q = "q[k div 8 := q ! (k div 8) OR push_bit (7 - k mod 8) 1]"
  have u: "is_u256 ?q" using assms(1) by (simp add: is_u256_def)
  have k: "k div 8 < length q" using assms(1,2) by (simp add: is_u256_def less_mult_imp_div_less)
  have "bit (be_val ?q) n \<longleftrightarrow> bit (be_val q OR 2 ^ (255 - k)) n" for n
  proof (cases "n < 256")
    case True
    define j where "j = 255 - n"
    have j: "j < 256" "n = 255 - j" using True by (auto simp: j_def)
    have "j div 8 = k div 8 \<and> 7 - j mod 8 = 7 - k mod 8 \<longleftrightarrow> j = k"
    proof
      assume "j div 8 = k div 8 \<and> 7 - j mod 8 = 7 - k mod 8"
      moreover have "j mod 8 < 8" "k mod 8 < 8" by simp_all
      ultimately have "j div 8 = k div 8" "j mod 8 = k mod 8" by linarith+
      then show "j = k" by (metis div_mult_mod_eq)
    qed simp
    moreover have "255 - j = 255 - k \<longleftrightarrow> j = k" using j(1) assms(2) by linarith
    ultimately show ?thesis using bit_u256_rev [OF u j(1)] bit_u256_rev [OF assms(1) j(1)] k j
      by (auto simp: bit_simps nth_list_update)
  next
    case False
    then show ?thesis using bit_u256 [OF u] bit_u256 [OF assms(1)] by (auto simp: bit_simps)
  qed
  then show ?thesis by (rule bit_eqI)
qed

lemma set_bit_val:
  assumes "is_u256 q" "k < 256" "\<not> bit (be_val q) (255 - k)"
  shows "be_val (q[k div 8 := q ! (k div 8) OR push_bit (7 - k mod 8) 1]) = be_val q + 2 ^ (255 - k)"
  unfolding set_bit_or [OF assms(1,2)]
  using assms(3) by (intro disjunctive_add [symmetric]) (auto simp: bit_simps)

lemma quotient_arith:
  fixes Q c k :: nat
  assumes "k < 256"
  shows "(2 * Q) * 2 ^ (256 - Suc k) = Q * 2 ^ (256 - k)" "\<not> bit (Q * 2 ^ (256 - k)) (255 - k)"
proof -
  have e: "256 - k = Suc (255 - k)" "256 - Suc k = 255 - k" using assms by linarith+
  show "(2 * Q) * 2 ^ (256 - Suc k) = Q * 2 ^ (256 - k)" unfolding e by simp
  have "Q * 2 ^ (256 - k) = push_bit (256 - k) Q" by (simp only: push_bit_eq_mult)
  then show "\<not> bit (Q * 2 ^ (256 - k)) (255 - k)" using e(1) by (simp only: bit_push_bit_iff) simp
qed

lemma div_loop:
  assumes "is_u256 a" "is_u256 b" "0 < be_val b" "k \<le> 256"
  shows "(let (q, r) = foldl (div_step a b) (u256_zero, u256_zero) [0..<k]; p = be_val a div 2 ^ (256 - k) in
     is_u256 q \<and> is_u256 r \<and> be_val r = p mod be_val b \<and> be_val q = (p div be_val b) * 2 ^ (256 - k))"
  using assms(4)
proof (induction k)
  case 0
  have "be_val a div 2 ^ 256 = 0" using be_val_bound [OF assms(1)] by (rule div_less)
  then show ?case by simp
next
  case (Suc k)
  obtain q r where f: "foldl (div_step a b) (u256_zero, u256_zero) [0..<k] = (q, r)" by fastforce
  let ?p = "be_val a div 2 ^ (256 - k)" and ?c = "bit_at a k" and ?s = "rem_shift r (bit_at a k)"
  let ?p' = "be_val a div 2 ^ (256 - Suc k)"
  have k: "k < 256" using Suc(2) by simp
  have IH: "is_u256 q" "is_u256 r" "be_val r = ?p mod be_val b" "be_val q = (?p div be_val b) * 2 ^ (256 - k)"
    using Suc f by (auto simp: Let_def)
  have bd: "2 * (?p mod be_val b) < 2 ^ 256"
    using mod_shift_bound [OF prefix_less [OF be_val_bound [OF assms(1)], of k] k assms(3)] k by simp
  note d = div_round [OF IH(2) assms(2,3) bit_at_le IH(3) bd, of a k]
  note r = reduce_once [OF d(1) assms(2) d(3)]
  have p: "2 * ?p + unat ?c = ?p'" using prefix_step [OF k, of "be_val a"] bit_at_val [OF assms(1) k] by simp
  note qa = quotient_arith [OF k, of "?p div be_val b"]
  have quot: "?p' div be_val b = 2 * (?p div be_val b) + (if \<not> u256_lt ?s b then 1 else 0)" using d(5) r(3) p by simp
  have rm: "?p' mod be_val b = be_val ?s mod be_val b" using d(4) p by simp
  let ?q = "q[k div 8 := q ! (k div 8) OR push_bit (7 - k mod 8) 1]"
  have "div_step a b (q, r) k = (if \<not> u256_lt ?s b then ?q else q, if \<not> u256_lt ?s b then u256_sub ?s b else ?s)"
    by (simp add: div_step_def Let_def)
  then have step: "foldl (div_step a b) (u256_zero, u256_zero) [0..<Suc k] =
      (if \<not> u256_lt ?s b then ?q else q, if \<not> u256_lt ?s b then u256_sub ?s b else ?s)"
    by (simp only: upt_Suc_append le0 foldl_append foldl.simps f)
  have "is_u256 ?q" "be_val ?q = be_val q + 2 ^ (255 - k)"
    using set_bit_val [OF IH(1) k] qa(2) IH(1,4) by (simp_all add: is_u256_def)
  moreover have "(2 * (?p div be_val b) + 1) * 2 ^ (256 - Suc k) = be_val q + 2 ^ (255 - k)"
    unfolding add_mult_distrib qa(1) IH(4) by simp
  moreover have "2 * (?p div be_val b) * 2 ^ (256 - Suc k) = be_val q" unfolding qa(1) IH(4) ..
  ultimately have "is_u256 (if \<not> u256_lt ?s b then ?q else q)"
    "be_val (if \<not> u256_lt ?s b then ?q else q) = (?p' div be_val b) * 2 ^ (256 - Suc k)"
    using IH(1) unfolding quot by (simp_all split: if_split)
  then show ?case using r(1,2) unfolding step Let_def prod.case rm by simp
qed

lemma u256_div_val:
  assumes "is_u256 a" "is_u256 b"
  shows "is_u256 (u256_div a b)" "be_val (u256_div a b) = be_val a div be_val b"
proof -
  have "is_u256 (u256_div a b) \<and> be_val (u256_div a b) = be_val a div be_val b" if b: "0 < be_val b"
    using div_loop [OF assms b, of 256] b assms(2) by (auto simp: u256_div_def u256_is_zero_iff split_beta Let_def)
  moreover have "u256_div a b = u256_zero" if "be_val b = 0" using that assms(2) by (simp add: u256_div_def u256_is_zero_iff)
  ultimately show "is_u256 (u256_div a b)" "be_val (u256_div a b) = be_val a div be_val b"
    by (cases "be_val b = 0"; simp)+
qed

end
