(* ===== verification/Evm_Modular.thy ===== *)
theory Evm_Modular
  imports Evm_Arith
begin

text \<open>
  ADDMOD, MULMOD and EXP.  The modular operations reduce a 257-bit sum bit by bit in a
  256-bit remainder: this is exact while the remainder stays below \<open>2 ^ 255\<close>, in particular
  for every modulus up to \<open>2 ^ 255\<close>, and loses the top bit above it.
\<close>

section \<open>Modular addition\<close>

lemma carry_cases:
  assumes "is_u256 a" "is_u256 b"
  obtains (no_carry) s where "foldr add_step (zip a b) ([], 0) = (s, 0)" "is_u256 s" "be_val s = be_val a + be_val b"
  | (carry) s where "foldr add_step (zip a b) ([], 0) = (s, 1)" "is_u256 s" "2 ^ 256 + be_val s = be_val a + be_val b"
proof -
  obtain s c where f: "foldr add_step (zip a b) ([], 0) = (s, c)" by fastforce
  have l: "length a = length b" using assms by (simp add: is_u256_def)
  have r: "is_u256 s" "c \<le> 1" "be_val s + unat c * 256 ^ 32 = be_val a + be_val b"
    using add_fold [OF l] f assms(1) by (auto simp: is_u256_def)
  have "unat c \<le> unat (1 :: 16 word)" using r(2) by (simp only: word_le_nat_alt)
  then have "unat c = 0 \<or> unat c = 1" unfolding unat_1 by linarith
  then have "c = 0 \<or> c = 1" by (metis unat_0 unat_1 word_unat_eq_iff)
  then show thesis
  proof
    assume "c = 0"
    then show thesis using no_carry f r by simp
  next
    assume c: "c = 1"
    have "2 ^ 256 + be_val s = be_val a + be_val b" using r(3) unfolding c unat_1 pow_256_32 by linarith
    then show thesis using carry f r(1) c by simp
  qed
qed

lemma first_bit:
  assumes "is_u256 n" "0 < be_val n"
  shows "is_u256 (if \<not> u256_lt (rem_shift u256_zero 1) n then u256_sub (rem_shift u256_zero 1) n else rem_shift u256_zero 1)"
    "be_val (if \<not> u256_lt (rem_shift u256_zero 1) n then u256_sub (rem_shift u256_zero 1) n else rem_shift u256_zero 1) = 1 mod be_val n"
proof -
  have v: "is_u256 (rem_shift u256_zero 1)" "be_val (rem_shift u256_zero 1) = 1"
    using rem_shift_val [of u256_zero 1] by simp_all
  have "be_val (rem_shift u256_zero 1) < 2 * be_val n" using v(2) assms(2) by simp
  note r = reduce_once [OF v(1) assms(1) this]
  show "is_u256 (if \<not> u256_lt (rem_shift u256_zero 1) n then u256_sub (rem_shift u256_zero 1) n else rem_shift u256_zero 1)"
    by (rule r(1))
  show "be_val (if \<not> u256_lt (rem_shift u256_zero 1) n then u256_sub (rem_shift u256_zero 1) n else rem_shift u256_zero 1) = 1 mod be_val n"
    using r(2) by (simp only: v(2))
qed

lemma addmod_carry:
  assumes "foldr add_step (zip a b) ([], 0) = (s, 1)" "0 < be_val n" "is_u256 n"
  shows "u256_addmod a b n =
    foldl (mod_step s n) (if \<not> u256_lt (rem_shift u256_zero 1) n then u256_sub (rem_shift u256_zero 1) n else rem_shift u256_zero 1) [0..<256]"
  using assms by (simp add: u256_addmod_def u256_is_zero_iff Let_def)

lemma u256_addmod_val:
  assumes "is_u256 a" "is_u256 b" "is_u256 n" "be_val n \<le> 2 ^ 255 \<or> be_val a + be_val b < 2 ^ 256"
  shows "is_u256 (u256_addmod a b n)"
    "be_val (u256_addmod a b n) = (if be_val n = 0 then 0 else (be_val a + be_val b) mod be_val n)"
proof -
  have "is_u256 (u256_addmod a b n) \<and> be_val (u256_addmod a b n) = (be_val a + be_val b) mod be_val n" if n: "0 < be_val n"
    using assms(1,2)
  proof (cases rule: carry_cases)
    case (no_carry s)
    then have "u256_addmod a b n = u256_mod s n" using n assms(3) by (simp add: u256_addmod_def u256_is_zero_iff)
    then show ?thesis using u256_mod_val [OF no_carry(2) assms(3)] no_carry(3) n by simp
  next
    case (carry s)
    have le: "be_val n \<le> 2 ^ 255" using assms(4) carry(3) by linarith
    have bd: "2 * ((1 * 2 ^ j + be_val s div 2 ^ (256 - j)) mod be_val n) < 2 ^ 256" for j
    proof -
      have "(1 * 2 ^ j + be_val s div 2 ^ (256 - j)) mod be_val n < be_val n" using n by simp
      moreover have "(2 :: nat) * 2 ^ 255 = 2 ^ 256" by simp
      ultimately show ?thesis using le by linarith
    qed
    note m = mod_loop [OF carry(2) assms(3) n first_bit [OF assms(3) n], of 256, OF bd order_refl]
    show ?thesis using m carry(3) by (simp add: addmod_carry [OF carry(1) n assms(3)])
  qed
  moreover have "u256_addmod a b n = u256_zero" if "be_val n = 0"
    using that assms(3) by (simp add: u256_addmod_def u256_is_zero_iff)
  ultimately show "is_u256 (u256_addmod a b n)"
    "be_val (u256_addmod a b n) = (if be_val n = 0 then 0 else (be_val a + be_val b) mod be_val n)"
    by (cases "be_val n = 0"; simp)+
qed

text \<open>Above \<open>2 ^ 255\<close> the last doubling wraps: the result is what is left of the reduced half.\<close>

lemma u256_addmod_wrap:
  assumes "is_u256 a" "is_u256 b" "is_u256 n" "2 ^ 256 \<le> be_val a + be_val b" "2 ^ 255 < be_val n"
    "r = 2 * ((be_val a + be_val b) div 2 mod be_val n) mod 2 ^ 256 + (be_val a + be_val b) mod 2"
  shows "be_val (u256_addmod a b n) = (if be_val n \<le> r then r - be_val n else r)"
proof -
  have n: "0 < be_val n" using assms(5) by linarith
  show ?thesis using assms(1,2)
  proof (cases rule: carry_cases)
    case (no_carry s)
    then show ?thesis using assms(4) be_val_bound [OF no_carry(2)] by simp
  next
    case (carry s)
    let ?i = "if \<not> u256_lt (rem_shift u256_zero 1) n then u256_sub (rem_shift u256_zero 1) n else rem_shift u256_zero 1"
    have bd: "2 * ((1 * 2 ^ j + be_val s div 2 ^ (256 - j)) mod be_val n) < 2 ^ 256" if "j < 255" for j
    proof -
      have "be_val s div 2 ^ (256 - j) < 2 ^ j" using prefix_less [OF be_val_bound [OF carry(2)], of j] that by simp
      then have "1 * 2 ^ j + be_val s div 2 ^ (256 - j) < 2 ^ Suc j" by simp
      then show ?thesis by (rule mod_shift_bound) (use that n in simp_all)
    qed
    note m = mod_loop [OF carry(2) assms(3) n first_bit [OF assms(3) n], of 255, OF bd]
    let ?l = "foldl (mod_step s n) ?i [0..<255]"
    have l: "is_u256 ?l" "be_val ?l = (2 ^ 255 + be_val s div 2) mod be_val n" using m by simp_all
    have p: "(2 :: nat) ^ 256 = 2 * 2 ^ 255" by simp
    have h: "(be_val a + be_val b) div 2 = 2 ^ 255 + be_val s div 2" "(be_val a + be_val b) mod 2 = be_val s mod 2"
      unfolding carry(3) [symmetric] p by (simp_all only: div_mult_self4 mod_mult_self4 zero_neq_numeral not_False_eq_True)
    have c: "unat (bit_at s 255) = be_val s mod 2" using bit_at_val [OF carry(2), of 255] by simp
    note w = rem_shift_wrap [OF l(1) bit_at_le [of s 255]]
    have wr: "be_val (rem_shift ?l (bit_at s 255)) = r" unfolding w(2) l(2) c assms(6) h ..
    have "[0..<Suc 255] = [0..<255] @ [255]" by (rule upt_Suc_append) simp
    moreover have "Suc 255 = 256" by simp
    ultimately have "u256_addmod a b n = mod_step s n ?l 255"
      unfolding addmod_carry [OF carry(1) n assms(3)] by (simp only: foldl_append foldl.simps)
    moreover define z where "z = rem_shift ?l (bit_at s 255)"
    ultimately have "u256_addmod a b n = (if \<not> u256_lt z n then u256_sub z n else z)" by (simp only: mod_step_def Let_def)
    moreover have "is_u256 z" "be_val z = r" unfolding z_def by (rule w(1), rule wr)
    ultimately show ?thesis using u256_sub_val(2) [of z n] u256_lt_val [of z n] assms(3) by (simp add: not_less)
  qed
qed

section \<open>Modular multiplication\<close>

lemma mulmod_loop:
  assumes "is_u256 a" "is_u256 b" "is_u256 n" "0 < be_val n" "be_val n \<le> 2 ^ 255" "k \<le> 256"
  shows "(let acc = foldl (\<lambda>acc k. let acc' = u256_addmod acc acc n in
             if bit_at b k = 1 then u256_addmod acc' a n else acc') u256_zero [0..<k]
     in is_u256 acc \<and> be_val acc = (be_val b div 2 ^ (256 - k)) * be_val a mod be_val n)"
  using assms(6)
proof (induction k)
  case 0
  have "be_val b div 2 ^ 256 = 0" using be_val_bound [OF assms(2)] by (rule div_less)
  then show ?case by simp
next
  case (Suc k)
  let ?f = "\<lambda>acc k. let acc' = u256_addmod acc acc n in if bit_at b k = 1 then u256_addmod acc' a n else acc'"
  let ?acc = "foldl ?f u256_zero [0..<k]" and ?p = "be_val b div 2 ^ (256 - k)" and ?N = "be_val n" and ?A = "be_val a"
  have IH: "is_u256 ?acc" "be_val ?acc = ?p * ?A mod ?N" using Suc by (auto simp: Let_def)
  have le: "?N \<le> 2 ^ 255 \<or> P" for P using assms(5) by blast
  note d = u256_addmod_val [OF IH(1) IH(1) assms(3) le]
  have d2: "be_val (u256_addmod ?acc ?acc n) = 2 * ?p * ?A mod ?N"
    using d(2) assms(4) mod_add_eq [of "?p * ?A" ?N "?p * ?A"] unfolding IH(2) by (simp add: mult_2 add_mult_distrib)
  note e = u256_addmod_val [OF d(1) assms(1,3) le]
  have e2: "be_val (u256_addmod (u256_addmod ?acc ?acc n) a n) = (2 * ?p + 1) * ?A mod ?N"
    using e(2) assms(4) mod_add_left_eq [of "2 * ?p * ?A" ?N ?A] unfolding d2 by (simp add: add_mult_distrib add.commute)
  have c: "unat (bit_at b k) = be_val b div 2 ^ (255 - k) mod 2" using bit_at_val [OF assms(2)] Suc(2) by simp
  have p: "be_val b div 2 ^ (256 - Suc k) = 2 * ?p + unat (bit_at b k)" using prefix_step [of k "be_val b"] Suc(2) c by simp
  have s: "foldl ?f u256_zero [0..<Suc k] = ?f ?acc k" by simp
  have "bit_at b k = 1 \<longleftrightarrow> unat (bit_at b k) = 1" by (metis unat_1 word_unat_eq_iff)
  moreover have "unat (bit_at b k) = 0" if "unat (bit_at b k) \<noteq> 1" using bit_at_le [of b k] that by linarith
  ultimately show ?case using d(1) d2 e(1) e2 unfolding s Let_def p by auto
qed

lemma u256_mulmod_val:
  assumes "is_u256 a" "is_u256 b" "is_u256 n" "be_val n \<le> 2 ^ 255"
  shows "is_u256 (u256_mulmod a b n)"
    "be_val (u256_mulmod a b n) = (if be_val n = 0 then 0 else be_val a * be_val b mod be_val n)"
proof -
  have "is_u256 (u256_mulmod a b n) \<and> be_val (u256_mulmod a b n) = be_val a * be_val b mod be_val n" if n: "0 < be_val n"
    using mulmod_loop [OF assms(1-3) n assms(4), of 256] n assms(3)
    by (simp add: u256_mulmod_def u256_is_zero_iff Let_def mult.commute)
  moreover have "u256_mulmod a b n = u256_zero" if "be_val n = 0"
    using that assms(3) by (simp add: u256_mulmod_def u256_is_zero_iff)
  ultimately show "is_u256 (u256_mulmod a b n)"
    "be_val (u256_mulmod a b n) = (if be_val n = 0 then 0 else be_val a * be_val b mod be_val n)"
    by (cases "be_val n = 0"; simp)+
qed

section \<open>Exponentiation\<close>

lemma last_bit: "is_u256 e \<Longrightarrow> (e ! 31 AND 1 = 1) = odd (be_val e)"
  using bit_u256 [of e 0] by (simp add: and_one_eq mod_2_eq_odd bit_0)

lemma exp_step_val:
  fixes R B e :: nat
  assumes "R' mod M = R * (if odd e then B else 1) mod M" "B' mod M = B * B mod M"
  shows "R' * B' ^ (e div 2) mod M = R * B ^ e mod M"
proof -
  have "R' * B' ^ (e div 2) mod M = (R' mod M) * ((B' mod M) ^ (e div 2) mod M) mod M" by (simp add: mod_simps)
  also have "\<dots> = (R * (if odd e then B else 1)) * (B * B) ^ (e div 2) mod M"
    unfolding assms by (simp only: mod_simps)
  also have "(R * (if odd e then B else 1)) * (B * B) ^ (e div 2) = R * B ^ e"
  proof -
    have "(B * B) ^ (e div 2) = B ^ (2 * (e div 2))" by (simp add: power_mult power2_eq_square)
    moreover have "B ^ (2 * (e div 2)) * (if odd e then B else 1) = B ^ e"
      by (cases "odd e") (simp_all add: odd_two_times_div_two_succ flip: power_Suc2)
    ultimately show ?thesis by (metis mult.assoc mult.commute)
  qed
  finally show ?thesis .
qed

lemma exp_loop_val:
  "is_u256 r \<Longrightarrow> is_u256 b \<Longrightarrow> is_u256 e \<Longrightarrow>
   is_u256 (exp_loop r b e) \<and> be_val (exp_loop r b e) = be_val r * be_val b ^ be_val e mod 2 ^ 256"
proof (induction r b e rule: exp_loop.induct)
  case (1 r b e)
  show ?case
  proof (cases "u256_is_zero e")
    case True
    then have "exp_loop r b e = r" "be_val e = 0" using 1(4) by (simp_all add: exp_loop.simps [of r b e] u256_is_zero_iff)
    then show ?thesis using 1(2) be_val_bound [OF 1(2)] by simp
  next
    case False
    let ?r = "if e ! 31 AND 1 = 1 then u256_mul r b else r"
    have l: "length e = 32" using 1(4) by (simp add: is_u256_def)
    have u: "is_u256 ?r" "is_u256 (u256_mul b b)" "is_u256 (shr_one_loop e 0)"
      using 1 u256_mul_val by (auto simp: is_u256_def)
    have s: "exp_loop r b e = exp_loop ?r (u256_mul b b) (shr_one_loop e 0)"
      using False l by (simp add: exp_loop.simps [of r b e] Let_def)
    have "be_val ?r mod 2 ^ 256 = be_val r * (if odd (be_val e) then be_val b else 1) mod 2 ^ 256"
      using u256_mul_val(2) [OF 1(2,3)] last_bit [OF 1(4)] by simp
    moreover have "be_val (u256_mul b b) mod 2 ^ 256 = be_val b * be_val b mod 2 ^ 256"
      using u256_mul_val(2) [OF 1(3,3)] by simp
    ultimately have "be_val ?r * be_val (u256_mul b b) ^ (be_val e div 2) mod 2 ^ 256 = be_val r * be_val b ^ be_val e mod 2 ^ 256"
      by (rule exp_step_val)
    moreover have "is_u256 (exp_loop ?r (u256_mul b b) (shr_one_loop e 0)) \<and>
      be_val (exp_loop ?r (u256_mul b b) (shr_one_loop e 0))
        = be_val ?r * be_val (u256_mul b b) ^ be_val (shr_one_loop e 0) mod 2 ^ 256"
      using 1(1) [OF _ refl u] False l by blast
    ultimately show ?thesis unfolding s be_val_shr_one0 by simp
  qed
qed

lemma u256_from_u64_val: "is_u256 (u256_from_u64 v)" "be_val (u256_from_u64 v) = unat v"
proof -
  have "be_val (be_bytes 8 (unat v)) = unat v"
    using unsigned_less [of v, where 'a = nat] by (simp add: be_val_be_bytes)
  then show "is_u256 (u256_from_u64 v)" "be_val (u256_from_u64 v) = unat v"
    by (simp_all add: is_u256_def u256_from_u64_def be_val_append)
qed

lemma u256_exp_val:
  assumes "is_u256 b" "is_u256 e"
  shows "is_u256 (u256_exp b e)" "be_val (u256_exp b e) = be_val b ^ be_val e mod 2 ^ 256"
proof -
  note one = u256_from_u64_val [of 1]
  have "is_u256 (u256_exp b e) \<and> be_val (u256_exp b e) = be_val b ^ be_val e mod 2 ^ 256"
  proof (cases "u256_is_zero e")
    case True
    then show ?thesis using one assms by (simp add: u256_exp_def u256_is_zero_iff)
  next
    case False
    then show ?thesis using exp_loop_val [OF one(1) assms] one(2) by (simp add: u256_exp_def)
  qed
  then show "is_u256 (u256_exp b e)" "be_val (u256_exp b e) = be_val b ^ be_val e mod 2 ^ 256" by simp_all
qed

end
