(* ===== verification/Evm_Signed.thy ===== *)
theory Evm_Signed
  imports Evm_Modular "HOL-Library.Signed_Division"
begin

text \<open>
  Signed arithmetic (SDIV, SMOD, SLT, SGT, SAR), shifts, BYTE and SIGNEXTEND.  The signed
  value of a word is its two's complement reading.
\<close>

section \<open>The signed value\<close>

definition sval :: "bytes \<Rightarrow> int" where
  "sval a = signed_take_bit 255 (int (be_val a))"

lemma is_negative_val:
  assumes "is_u256 a"
  shows "is_negative a \<longleftrightarrow> bit (be_val a) 255" "is_negative a \<longleftrightarrow> 2 ^ 255 \<le> be_val a"
proof -
  have "(0x80 :: byte) = 2 ^ 7" by simp
  then have "is_negative a \<longleftrightarrow> bit (a ! 0) 7" unfolding is_negative_def by (simp only: and_exp_eq_0_iff_not_bit) simp
  also have "\<dots> \<longleftrightarrow> bit (be_val a) 255" using bit_u256_rev [OF assms, of 0] by simp
  finally show b: "is_negative a \<longleftrightarrow> bit (be_val a) 255" .
  have "be_val a div 2 ^ 255 < 2"
    by (rule less_mult_imp_div_less) (use be_val_bound [OF assms] in simp)
  then have "odd (be_val a div 2 ^ 255) \<longleftrightarrow> 1 \<le> be_val a div 2 ^ 255"
    by (cases "be_val a div 2 ^ 255 = 0") (auto simp: less_2_cases_iff)
  then show "is_negative a \<longleftrightarrow> 2 ^ 255 \<le> be_val a"
    unfolding b bit_iff_odd by (simp add: le_div_geq div_greater_zero_iff Suc_le_eq)
qed

lemma sval_cases:
  assumes "is_u256 a"
  shows "sval a = (if is_negative a then int (be_val a) - 2 ^ 256 else int (be_val a))"
proof -
  have "take_bit 256 (int (be_val a)) = int (be_val a)"
    using be_val_bound [OF assms] by (simp add: take_bit_int_eq_self_iff)
  moreover have "bit (int (be_val a)) 255 \<longleftrightarrow> is_negative a"
    unfolding is_negative_val(1) [OF assms] by (simp add: bit_of_nat_iff_bit)
  moreover have "Suc 255 = 256" by simp
  ultimately show ?thesis unfolding sval_def signed_take_bit_eq_take_bit_minus by simp
qed

lemma sval_eqI:
  assumes "int (be_val a) mod 2 ^ 256 = k mod 2 ^ 256"
  shows "sval a = signed_take_bit 255 k"
proof -
  have "Suc 255 = 256" by simp
  then show ?thesis using assms unfolding sval_def signed_take_bit_eq_iff_take_bit_eq by (simp only: take_bit_eq_mod)
qed

lemma sval_range:
  assumes "is_u256 a"
  shows "- (2 ^ 255) \<le> sval a" "sval a < 2 ^ 255"
  using is_negative_val(2) [OF assms] be_val_bound [OF assms] sval_cases [OF assms] by (auto split: if_splits)

lemma sval_mod: "is_u256 a \<Longrightarrow> sval a mod 2 ^ 256 = int (be_val a)"
  using sval_cases [of a] be_val_bound [of a] is_negative_val(2) [of a]
  by (auto simp: mod_pos_pos_trivial minus_mod_self2)

lemma signed_take_bit_id:
  "- (2 ^ 255) \<le> k \<Longrightarrow> k < 2 ^ 255 \<Longrightarrow> signed_take_bit 255 k = (k :: int)"
  by (simp add: signed_take_bit_int_eq_self)

lemma negate_val:
  assumes "is_u256 a"
  shows "is_u256 (negate a)" "int (be_val (negate a)) = (- int (be_val a)) mod 2 ^ 256"
proof -
  note n = u256_bitwise_val(4,8) [OF assms assms]
  note o = u256_from_u64_val [of 1]
  note v = u256_add_val [OF n(2) o(1)]
  show "is_u256 (negate a)" using v(1) by (simp add: negate_def)
  have "2 ^ 256 - 1 - be_val a + unat (1 :: u64) = 2 ^ 256 - be_val a"
    using be_val_bound [OF assms] unfolding unat_1 by linarith
  then have "be_val (negate a) = (2 ^ 256 - be_val a) mod 2 ^ 256" unfolding negate_def v(2) n(1) o(2) by (rule arg_cong)
  then have "int (be_val (negate a)) = (2 ^ 256 - int (be_val a)) mod 2 ^ 256"
    using be_val_bound [OF assms] by (simp add: zmod_int of_nat_diff)
  then show "int (be_val (negate a)) = (- int (be_val a)) mod 2 ^ 256"
    using minus_mod_self1 [of "2 ^ 256" "int (be_val a)"] by simp
qed

text \<open>The magnitude that SDIV and SMOD work on.\<close>

lemma abs_val:
  assumes "is_u256 a"
  shows "is_u256 (if is_negative a then negate a else a)"
    "int (be_val (if is_negative a then negate a else a)) = \<bar>sval a\<bar>"
proof -
  show "is_u256 (if is_negative a then negate a else a)" using assms negate_val by simp
  have "int (be_val (negate a)) = 2 ^ 256 - int (be_val a)" if "is_negative a"
  proof -
    have v: "2 ^ 255 \<le> be_val a" "be_val a < 2 ^ 256" using that is_negative_val(2) [OF assms] be_val_bound [OF assms] by auto
    have "(- int (be_val a)) mod 2 ^ 256 = (2 ^ 256 - int (be_val a)) mod 2 ^ 256"
      by (simp add: minus_mod_self1)
    also have "\<dots> = 2 ^ 256 - int (be_val a)" using v by (intro mod_pos_pos_trivial) auto
    finally show ?thesis using negate_val(2) [OF assms] by simp
  qed
  then show "int (be_val (if is_negative a then negate a else a)) = \<bar>sval a\<bar>"
    using sval_cases [OF assms] be_val_bound [OF assms] by auto
qed

lemma sval_neg_iff: "is_u256 a \<Longrightarrow> is_negative a \<longleftrightarrow> sval a < 0"
  using sval_cases [of a] be_val_bound [of a] by (auto split: if_splits)

lemma sval_zero_iff: "is_u256 a \<Longrightarrow> sval a = 0 \<longleftrightarrow> be_val a = 0"
  using sval_cases [of a] be_val_bound [of a] is_negative_val(2) [of a] by (auto split: if_splits)

section \<open>Signed comparison\<close>

lemma u256_slt_val:
  assumes "is_u256 a" "is_u256 b"
  shows "u256_slt a b \<longleftrightarrow> sval a < sval b" "u256_sgt a b \<longleftrightarrow> sval b < sval a"
proof -
  have l: "bytes_less a b \<longleftrightarrow> be_val a < be_val b" "bytes_less b a \<longleftrightarrow> be_val b < be_val a"
    using assms by (simp_all add: bytes_less_val is_u256_def)
  note c = sval_cases [OF assms(1)] sval_cases [OF assms(2)]
  note r = sval_neg_iff [OF assms(1)] sval_neg_iff [OF assms(2)]
  show "u256_slt a b \<longleftrightarrow> sval a < sval b" "u256_sgt a b \<longleftrightarrow> sval b < sval a"
    using c r by (auto simp: u256_slt_def u256_sgt_def l Let_def split: if_splits)
qed

section \<open>Signed division\<close>

lemma int_div_abs:
  assumes "is_u256 x" "is_u256 y"
  shows "int (be_val (u256_div x y)) = int (be_val x) div int (be_val y)"
    "be_val y \<noteq> 0 \<Longrightarrow> int (be_val (u256_mod x y)) = int (be_val x) mod int (be_val y)"
  using u256_div_val(2) [OF assms] u256_mod_val(2) [OF assms] by (simp_all add: zdiv_int zmod_int)

text \<open>The source's special case agrees with the general one: dividing by 1 gives back the least integer.\<close>

lemma min_int_val: "is_u256 min_int" "be_val min_int = 2 ^ 255" "sval min_int = - (2 ^ 255)"
proof -
  show u: "is_u256 min_int" by (simp add: min_int_def is_u256_def)
  show v: "be_val min_int = 2 ^ 255" by (simp add: min_int_def)
  show "sval min_int = - (2 ^ 255)" using sval_cases [OF u] is_negative_val(2) [OF u] v by simp
qed

lemma one_sval: "sval (replicate 31 0 @ [1]) = 1"
proof -
  have "be_val (replicate 31 0 @ [1]) = 1" by (simp add: be_val_append)
  then show ?thesis by (simp add: sval_def)
qed

lemma sval_negate:
  assumes "is_u256 q" "int (be_val q) = k"
  shows "sval (negate q) = signed_take_bit 255 (- k)" "sval q = signed_take_bit 255 k"
  using negate_val(2) [OF assms(1)] assms(2) by (auto intro: sval_eqI)

lemma u256_sdiv_val:
  assumes "is_u256 a" "is_u256 b"
  shows "is_u256 (u256_sdiv a b)" "sval (u256_sdiv a b) = signed_take_bit 255 (sval a sdiv sval b)"
proof -
  let ?x = "if is_negative a then negate a else a" and ?y = "if is_negative b then negate b else b"
  note x = abs_val [OF assms(1)] and y = abs_val [OF assms(2)]
  note q = u256_div_val(1) [OF x(1) y(1)]
  have v: "int (be_val (u256_div ?x ?y)) = \<bar>sval a\<bar> div \<bar>sval b\<bar>" using int_div_abs(1) [OF x(1) y(1)] x(2) y(2) by simp
  note n = sval_negate [OF q v]
  have "is_u256 (u256_sdiv a b) \<and> sval (u256_sdiv a b) = signed_take_bit 255 (sval a sdiv sval b)"
  proof (cases "u256_is_zero b")
    case True
    then have "sval b = 0" "u256_sdiv a b = u256_zero" using assms by (simp_all add: u256_sdiv_def sval_zero_iff u256_is_zero_iff)
    then show ?thesis by (simp add: signed_divide_int_def sval_def)
  next
    case nz: False
    then have b0: "sval b \<noteq> 0" using assms by (simp add: sval_zero_iff u256_is_zero_iff)
    show ?thesis
    proof (cases "a = min_int \<and> b = replicate 31 0 @ [1]")
      case True
      then have "u256_sdiv a b = min_int" "sval a sdiv sval b = - (2 ^ 255)"
        using nz min_int_val(3) one_sval by (simp_all add: u256_sdiv_def Let_def signed_divide_int_def)
      then show ?thesis using min_int_val signed_take_bit_id [of "- (2 ^ 255)"] by simp
    next
      case False
      then have r: "u256_sdiv a b = (if is_negative a \<noteq> is_negative b then negate (u256_div ?x ?y) else u256_div ?x ?y)"
        using nz unfolding u256_sdiv_def Let_def by presburger
      have "sval a sdiv sval b = (if is_negative a \<noteq> is_negative b then - (\<bar>sval a\<bar> div \<bar>sval b\<bar>) else \<bar>sval a\<bar> div \<bar>sval b\<bar>)"
        using b0 unfolding signed_divide_int_def sval_neg_iff [OF assms(1)] sval_neg_iff [OF assms(2)]
        by (cases "sval a = 0") (auto simp: sgn_if)
      then show ?thesis using n negate_val(1) [OF q] q unfolding r by presburger
    qed
  qed
  then show "is_u256 (u256_sdiv a b)" "sval (u256_sdiv a b) = signed_take_bit 255 (sval a sdiv sval b)" by simp_all
qed

lemma u256_smod_val:
  assumes "is_u256 a" "is_u256 b"
  shows "is_u256 (u256_smod a b)" "sval (u256_smod a b) = (if sval b = 0 then 0 else sval a smod sval b)"
proof -
  let ?x = "if is_negative a then negate a else a" and ?y = "if is_negative b then negate b else b"
  note x = abs_val [OF assms(1)] and y = abs_val [OF assms(2)]
  let ?r = "u256_mod ?x ?y"
  note q = u256_mod_val(1) [OF x(1) y(1)]
  have "is_u256 (u256_smod a b) \<and> sval (u256_smod a b) = (if sval b = 0 then 0 else sval a smod sval b)"
  proof (cases "u256_is_zero b")
    case True
    then have "sval b = 0" "u256_smod a b = u256_zero" using assms by (simp_all add: u256_smod_def sval_zero_iff u256_is_zero_iff)
    then show ?thesis by (simp add: sval_def)
  next
    case nz: False
    then have b0: "sval b \<noteq> 0" using assms by (simp add: sval_zero_iff u256_is_zero_iff)
    then have "be_val ?y \<noteq> 0" using y(2) by auto
    then have v: "int (be_val ?r) = \<bar>sval a\<bar> mod \<bar>sval b\<bar>" using int_div_abs(2) [OF x(1) y(1)] x(2) y(2) by simp
    note n = sval_negate [OF q v]
    have lt: "\<bar>sval a\<bar> mod \<bar>sval b\<bar> < 2 ^ 255" "0 \<le> \<bar>sval a\<bar> mod \<bar>sval b\<bar>"
    proof -
      have "\<bar>sval a\<bar> mod \<bar>sval b\<bar> < \<bar>sval b\<bar>" using b0 by simp
      then show "\<bar>sval a\<bar> mod \<bar>sval b\<bar> < 2 ^ 255" using sval_range [OF assms(2)] by linarith
    qed (use b0 in simp)
    have s: "sval (negate ?r) = - (\<bar>sval a\<bar> mod \<bar>sval b\<bar>)" "sval ?r = \<bar>sval a\<bar> mod \<bar>sval b\<bar>"
      using n lt signed_take_bit_id by simp_all
    have r: "u256_smod a b = (if is_negative a \<and> \<not> u256_is_zero ?r then negate ?r else ?r)"
      using nz unfolding u256_smod_def Let_def by presburger
    have "sval a smod sval b = (if is_negative a \<and> \<not> u256_is_zero ?r then - (\<bar>sval a\<bar> mod \<bar>sval b\<bar>) else \<bar>sval a\<bar> mod \<bar>sval b\<bar>)"
      using v u256_is_zero_iff [OF q] unfolding signed_modulo_int_def sval_neg_iff [OF assms(1)] by (auto simp: sgn_if)
    then show ?thesis using s q negate_val(1) [OF q] b0 unfolding r by presburger
  qed
  then show "is_u256 (u256_smod a b)" "sval (u256_smod a b) = (if sval b = 0 then 0 else sval a smod sval b)" by simp_all
qed

end
