(* ===== verification/Evm_Shift.thy ===== *)
theory Evm_Shift
  imports Evm_Signed
begin

text \<open>
  SHL, SHR, SAR, BYTE and SIGNEXTEND.  The shift amount and the byte index are read from the
  last eight bytes of their word only.
\<close>

lemma u256_to_u64_val:
  assumes "is_u256 a"
  shows "unat (u256_to_u64 a) = be_val a mod 2 ^ 64"
proof -
  have l: "length (drop 24 a) = 8" using assms by (simp add: is_u256_def)
  then have lt: "be_val (drop 24 a) < 2 ^ 64" using be_val_less [of "drop 24 a"] by simp
  have "be_val a = be_val (take 24 a) * 2 ^ 64 + be_val (drop 24 a)"
    using be_val_append [of "take 24 a" "drop 24 a"] l by (simp only: append_take_drop_id) simp
  then have "be_val a mod 2 ^ 64 = be_val (drop 24 a)" using lt by (simp only: mod_mult_self3 mod_less)
  then show ?thesis using lt by (simp add: u256_to_u64_def unat_of_nat)
qed

section \<open>Shifts\<close>

lemma bit_u256_split:
  assumes "is_u256 a" "j < 8"
  shows "bit (be_val a) (8 * N + j) \<longleftrightarrow> N < 32 \<and> bit (a ! (31 - N)) j"
proof -
  have "(8 * N + j) div 8 = N" "(8 * N + j) mod 8 = j" using assms(2) by simp_all
  moreover have "8 * N + j < 256 \<longleftrightarrow> N < 32" using assms(2) by linarith
  ultimately show ?thesis using bit_u256 [OF assms(1), of "8 * N + j"] by simp
qed

lemma u256_bits_eqI:
  assumes "is_u256 a" "\<And>N j. N < 32 \<Longrightarrow> j < 8 \<Longrightarrow> bit (a ! (31 - N)) j \<longleftrightarrow> bit K (8 * N + j)"
    "\<And>n. 256 \<le> n \<Longrightarrow> \<not> bit K n"
  shows "be_val a = K"
proof (rule bit_eqI)
  fix n :: nat
  have j: "n mod 8 < 8" by simp
  have n: "n = 8 * (n div 8) + n mod 8" by simp
  show "bit (be_val a) n \<longleftrightarrow> bit K n"
  proof (cases "n < 256")
    case True
    then have "n div 8 < 32" by simp
    then show ?thesis using bit_u256_split [OF assms(1) j, of "n div 8"] assms(2) [of "n div 8" "n mod 8"] j n by metis
  next
    case False
    then show ?thesis using bit_u256 [OF assms(1), of n] assms(3) [of n] by simp
  qed
qed

text \<open>A non-zero shift amount below 256 splits into whole bytes and bits.\<close>

lemma u256_shl_bits:
  assumes v: "is_u256 v" and s: "s = unat (u256_to_u64 shift)" "0 < s" "s < 256"
  shows "be_val (u256_shl shift v) = take_bit 256 (push_bit s (be_val v))"
proof (rule u256_bits_eqI)
  define B b where "B = s div 8" and "b = s mod 8"
  have sB: "s = 8 * B + b" "b < 8" by (simp_all add: B_def b_def)
  let ?g = "\<lambda>i. let src = i + B in
     if src < 32 then (let o1 = push_bit b (v ! src) in
        if b > 0 \<and> src + 1 < 32 then o1 OR drop_bit (8 - b) (v ! (src + 1)) else o1) else 0"
  have o: "u256_shl shift v = map ?g [0..<32]"
    using s unfolding u256_shl_def B_def b_def by (simp add: Let_def)
  show "is_u256 (u256_shl shift v)" by (simp add: o is_u256_def)
  show "bit (u256_shl shift v ! (31 - N)) j \<longleftrightarrow> bit (take_bit 256 (push_bit s (be_val v))) (8 * N + j)"
    if N: "N < 32" and j: "j < 8" for N j
  proof -
    have g: "u256_shl shift v ! (31 - N) = ?g (31 - N)" using N by (simp add: o)
    have n: "8 * N + j < 256" using N j by linarith
    show ?thesis
    proof (cases "b \<le> j")
      case True
      have lo: "\<not> bit (drop_bit (8 - b) x) j" for x :: byte
        using True sB(2) bit_imp_le_length [of x "8 - b + j"] by (auto simp: bit_drop_bit_eq)
      have G: "bit (?g (31 - N)) j \<longleftrightarrow> B \<le> N \<and> bit (v ! (31 - N + B)) (j - b)"
        using True j N lo by (auto simp: Let_def bit_push_bit_iff bit_or_iff)
      have "8 * N + j - s = 8 * (N - B) + (j - b)" if "B \<le> N" using that True sB(1) by linarith
      moreover have "s \<le> 8 * N + j \<longleftrightarrow> B \<le> N" using True sB j by linarith
      moreover have "31 - (N - B) = 31 - N + B" "N - B < 32" if "B \<le> N" using that N by linarith+
      moreover have "j - b < 8" using j by linarith
      ultimately show ?thesis unfolding g G
        using bit_u256_split [OF v, of "j - b" "N - B"] n by (auto simp: bit_take_bit_iff bit_push_bit_iff)
    next
      case False
      have G: "bit (?g (31 - N)) j \<longleftrightarrow> B < N \<and> bit (v ! (31 - N + B + 1)) (8 - b + j)"
        using False j N by (auto simp: Let_def bit_push_bit_iff bit_or_iff bit_drop_bit_eq)
      have "8 * N + j - s = 8 * (N - B - 1) + (8 - b + j)" if "B < N" using that False sB by linarith
      moreover have "s \<le> 8 * N + j \<longleftrightarrow> B < N" using False sB j by linarith
      moreover have "31 - (N - B - 1) = 31 - N + B + 1" "N - B - 1 < 32" if "B < N" using that N by linarith+
      moreover have "8 - b + j < 8" using False sB(2) by linarith
      ultimately show ?thesis unfolding g G
        using bit_u256_split [OF v, of "8 - b + j" "N - B - 1"] n by (auto simp: bit_take_bit_iff bit_push_bit_iff)
    qed
  qed
qed (simp add: bit_take_bit_iff)

lemma u256_shr_bits:
  assumes v: "is_u256 v" and s: "s = unat (u256_to_u64 shift)" "0 < s" "s < 256"
  shows "is_u256 (u256_shr shift v)" "be_val (u256_shr shift v) = drop_bit s (be_val v)"
proof -
  define B b where "B = s div 8" and "b = s mod 8"
  have sB: "s = 8 * B + b" "b < 8" by (simp_all add: B_def b_def)
  let ?g = "\<lambda>i. if B \<le> i then (let src = i - B; o1 = drop_bit b (v ! src) in
        if b > 0 \<and> src > 0 then o1 OR push_bit (8 - b) (v ! (src - 1)) else o1) else 0"
  have o: "u256_shr shift v = map ?g [0..<32]"
    using s unfolding u256_shr_def B_def b_def by (simp add: Let_def)
  show u: "is_u256 (u256_shr shift v)" by (simp add: o is_u256_def)
  have db: "bit (drop_bit s (be_val v)) k \<longleftrightarrow> bit (be_val v) (s + k)" for k by (simp add: bit_drop_bit_eq)
  show "be_val (u256_shr shift v) = drop_bit s (be_val v)"
  proof (rule u256_bits_eqI [OF u])
    show "bit (u256_shr shift v ! (31 - N)) j \<longleftrightarrow> bit (drop_bit s (be_val v)) (8 * N + j)"
      if N: "N < 32" and j: "j < 8" for N j
    proof -
      have g: "u256_shr shift v ! (31 - N) = ?g (31 - N)" using N by (simp add: o)
      show ?thesis
      proof (cases "b + j < 8")
        case True
        have lo: "\<not> 8 - b \<le> j" if "0 < b" using True that by linarith
        have G: "bit (?g (31 - N)) j \<longleftrightarrow> N + B < 32 \<and> bit (v ! (31 - (N + B))) (b + j)"
          using j N lo by (auto simp: Let_def bit_push_bit_iff bit_or_iff bit_drop_bit_eq)
        have e: "s + (8 * N + j) = 8 * (N + B) + (b + j)" by (simp add: sB(1))
        show ?thesis unfolding g G db e using bit_u256_split [OF v True, of "N + B"] by (rule sym)
      next
        case False
        have hi: "\<not> bit x (b + j)" for x :: byte using False bit_imp_le_length [of x "b + j"] by auto
        have "8 - b \<le> j" using False by linarith
        then have G: "bit (?g (31 - N)) j \<longleftrightarrow> N + B + 1 < 32 \<and> bit (v ! (31 - (N + B + 1))) (j + b - 8)"
          using j N False hi sB by (auto simp: Let_def bit_push_bit_iff bit_or_iff bit_drop_bit_eq)
        have e: "s + (8 * N + j) = 8 * (N + B + 1) + (j + b - 8)" using sB(1) False by presburger
        have l: "j + b - 8 < 8" using sB j by linarith
        show ?thesis unfolding g G db e using bit_u256_split [OF v l, of "N + B + 1"] by (rule sym)
      qed
    qed
    show "\<not> bit (drop_bit s (be_val v)) n" if "256 \<le> n" for n
      using bit_u256 [OF v] that by (simp add: bit_drop_bit_eq)
  qed
qed

lemma u256_shl_val:
  assumes "is_u256 v" "is_u256 shift"
  shows "is_u256 (u256_shl shift v)"
    "be_val (u256_shl shift v) = be_val v * 2 ^ (be_val shift mod 2 ^ 64) mod 2 ^ 256"
proof -
  define s where "s = unat (u256_to_u64 shift)"
  have e: "be_val shift mod 2 ^ 64 = s" unfolding s_def by (rule u256_to_u64_val [OF assms(2), symmetric])
  show "is_u256 (u256_shl shift v)" using assms(1) by (simp add: u256_shl_def Let_def is_u256_def u256_zero_def)
  consider "s = 0" | "0 < s" "s < 256" | "256 \<le> s" by linarith
  then have "be_val (u256_shl shift v) = be_val v * 2 ^ s mod 2 ^ 256"
  proof cases
    case 1
    then show ?thesis using be_val_bound [OF assms(1)] by (simp add: u256_shl_def s_def [symmetric])
  next
    case 2
    then show ?thesis using u256_shl_bits [OF assms(1) s_def] by (simp only: take_bit_eq_mod push_bit_eq_mult)
  next
    case 3
    then have "(2 :: nat) ^ 256 dvd be_val v * 2 ^ s" by (intro dvd_mult le_imp_power_dvd)
    then show ?thesis using 3 by (simp add: u256_shl_def s_def [symmetric])
  qed
  then show "be_val (u256_shl shift v) = be_val v * 2 ^ (be_val shift mod 2 ^ 64) mod 2 ^ 256" by (simp only: e)
qed

lemma u256_shr_val:
  assumes "is_u256 v" "is_u256 shift"
  shows "is_u256 (u256_shr shift v)" "be_val (u256_shr shift v) = be_val v div 2 ^ (be_val shift mod 2 ^ 64)"
proof -
  define s where "s = unat (u256_to_u64 shift)"
  have e: "be_val shift mod 2 ^ 64 = s" unfolding s_def by (rule u256_to_u64_val [OF assms(2), symmetric])
  show "is_u256 (u256_shr shift v)" using assms(1) by (simp add: u256_shr_def Let_def is_u256_def u256_zero_def)
  consider "s = 0" | "0 < s" "s < 256" | "256 \<le> s" by linarith
  then have "be_val (u256_shr shift v) = be_val v div 2 ^ s"
  proof cases
    case 1
    then show ?thesis by (simp add: u256_shr_def s_def [symmetric])
  next
    case 2
    then show ?thesis using u256_shr_bits(2) [OF assms(1) s_def] by (simp only: drop_bit_eq_div)
  next
    case 3
    then have "(2 :: nat) ^ 256 \<le> 2 ^ s" by (intro power_increasing) auto
    then have "be_val v div 2 ^ s = 0" using be_val_bound [OF assms(1)] by (intro div_less) linarith
    then show ?thesis using 3 by (simp add: u256_shr_def s_def [symmetric])
  qed
  then show "be_val (u256_shr shift v) = be_val v div 2 ^ (be_val shift mod 2 ^ 64)" by (simp only: e)
qed

section \<open>Arithmetic right shift\<close>

lemma drop_sign_bit:
  assumes "m < 8"
  shows "drop_bit m (0x80 :: byte) = push_bit (7 - m) 1"
proof -
  have "(0x80 :: byte) = 2 ^ 7" by simp
  then show ?thesis using assms by (simp only: drop_bit_exp_eq) (simp add: push_bit_eq_mult)
qed

lemma sign_fill:
  assumes "is_u256 x" "s \<le> 256"
  shows "(let y = foldl (\<lambda>o1 b. o1[b div 8 := o1 ! (b div 8) OR drop_bit (b mod 8) 0x80]) x [0..<s]
     in is_u256 y \<and> (\<forall>n. bit (be_val y) n \<longleftrightarrow> bit (be_val x) n \<or> n < 256 \<and> 255 - n < s))"
  using assms(2)
proof (induction s)
  case 0
  then show ?case using assms(1) by simp
next
  case (Suc s)
  let ?f = "\<lambda>o1 b. o1[b div 8 := o1 ! (b div 8) OR drop_bit (b mod 8) (0x80 :: byte)]"
  let ?y = "foldl ?f x [0..<s]"
  have IH: "is_u256 ?y" "bit (be_val ?y) n \<longleftrightarrow> bit (be_val x) n \<or> n < 256 \<and> 255 - n < s" for n
    using Suc by (simp_all add: Let_def)
  have s: "foldl ?f x [0..<Suc s] = ?y[s div 8 := ?y ! (s div 8) OR push_bit (7 - s mod 8) 1]"
    by (simp add: drop_sign_bit)
  have v: "be_val (?y[s div 8 := ?y ! (s div 8) OR push_bit (7 - s mod 8) 1]) = be_val ?y OR 2 ^ (255 - s)"
    by (rule set_bit_or [OF IH(1)]) (use Suc(2) in simp)
  have n: "n = 255 - s \<or> n < 256 \<and> 255 - n < s \<longleftrightarrow> n < 256 \<and> 255 - n < Suc s" for n
    using Suc(2) by auto
  have "bit (be_val ?y OR 2 ^ (255 - s)) n \<longleftrightarrow> bit (be_val x) n \<or> n < 256 \<and> 255 - n < Suc s" for n
    using IH(2) [of n] n [of n] by (auto simp: bit_simps)
  then show ?case unfolding s Let_def v using IH(1) by (simp add: is_u256_def)
qed

lemma u256_sar_val:
  assumes "is_u256 v" "is_u256 shift"
  shows "is_u256 (u256_sar shift v)" "sval (u256_sar shift v) = sval v div 2 ^ (be_val shift mod 2 ^ 64)"
proof -
  define s where "s = unat (u256_to_u64 shift)"
  have e: "be_val shift mod 2 ^ 64 = s" unfolding s_def by (rule u256_to_u64_val [OF assms(2), symmetric])
  have d: "sval v div 2 ^ s = drop_bit s (sval v)" by (simp only: drop_bit_eq_div)
  have b: "bit (sval a) n \<longleftrightarrow> bit (be_val a) (min 255 n)" for a n
    by (simp add: sval_def bit_simps bit_of_nat_iff_bit)
  consider (zero) "s = 0" | (mid) "0 < s" "s < 256" | (big) "256 \<le> s" by linarith
  then have "is_u256 (u256_sar shift v) \<and> sval (u256_sar shift v) = sval v div 2 ^ s"
  proof cases
    case zero
    then show ?thesis using assms(1) by (simp add: u256_sar_def s_def [symmetric])
  next
    case mid
    note r = u256_shr_bits [OF assms(1) s_def mid]
    have nb: "\<not> bit (be_val v) n" if "256 \<le> n" for n using bit_u256 [OF assms(1), of n] that by simp
    show ?thesis
    proof (cases "is_negative v")
      case True
      let ?y = "foldl (\<lambda>o1 b. o1[b div 8 := o1 ! (b div 8) OR drop_bit (b mod 8) 0x80]) (u256_shr shift v) [0..<s]"
      have y: "u256_sar shift v = ?y" using mid True by (simp add: u256_sar_def s_def [symmetric] Let_def)
      have f: "is_u256 ?y" "bit (be_val ?y) n \<longleftrightarrow> bit (be_val (u256_shr shift v)) n \<or> n < 256 \<and> 255 - n < s" for n
        using sign_fill [OF r(1), of s] mid by (simp_all add: Let_def)
      have top: "bit (be_val v) 255" using True is_negative_val(1) [OF assms(1)] by simp
      have "bit (sval ?y) n \<longleftrightarrow> bit (drop_bit s (sval v)) n" for n
      proof -
        have "bit (sval ?y) n \<longleftrightarrow> bit (be_val v) (s + min 255 n) \<or> 255 - min 255 n < s"
          using f(2) [of "min 255 n"] unfolding b r(2) by (auto simp: bit_drop_bit_eq)
        also have "\<dots> \<longleftrightarrow> bit (be_val v) (min 255 (s + n))"
        proof (cases "s + n \<le> 255")
          case True
          then have "min 255 n = n" "min 255 (s + n) = s + n" "\<not> 255 - n < s" by simp_all
          then show ?thesis by simp
        next
          case False
          then have "min 255 (s + n) = 255" "255 - min 255 n < s" using mid by auto
          then show ?thesis using top by simp
        qed
        finally show ?thesis by (simp add: bit_drop_bit_eq b)
      qed
      then have "sval ?y = drop_bit s (sval v)" by (intro bit_eqI) blast
      then show ?thesis using f(1) unfolding y d by simp
    next
      case False
      have y: "u256_sar shift v = u256_shr shift v" using mid False by (simp add: u256_sar_def s_def [symmetric] Let_def)
      have "bit (sval (u256_shr shift v)) n \<longleftrightarrow> bit (drop_bit s (sval v)) n" for n
      proof -
        have top: "\<not> bit (be_val v) 255" using False is_negative_val(1) [OF assms(1)] by simp
        have "bit (be_val v) (s + min 255 n) \<longleftrightarrow> bit (be_val v) (min 255 (s + n))"
        proof (cases "s + n \<le> 255")
          case True
          then show ?thesis by simp
        next
          case F: False
          have "min 255 (s + n) = 255" using F by simp
          moreover have "\<not> bit (be_val v) (s + min 255 n)"
          proof (cases "s + min 255 n = 255")
            case True
            then show ?thesis using top by simp
          next
            case False
            then have "256 \<le> s + min 255 n" using F mid by (simp add: min_def split: if_splits)
            then show ?thesis by (rule nb)
          qed
          ultimately show ?thesis using top by simp
        qed
        then show ?thesis unfolding b r(2) by (simp add: bit_drop_bit_eq b)
      qed
      then have "sval (u256_shr shift v) = drop_bit s (sval v)" by (intro bit_eqI) blast
      then show ?thesis using r(1) unfolding y d by simp
    qed
  next
    case big
    let ?m = "replicate 32 0xff :: bytes"
    have "(2 :: int) ^ 255 \<le> 2 ^ s" using big by (intro power_increasing) auto
    note rg = sval_range [OF assms(1)] this
    show ?thesis
    proof (cases "is_negative v")
      case True
      have "?m = u256_not u256_zero" by (simp add: u256_not_def u256_zero_def)
      then have u: "is_u256 ?m" "be_val ?m = 2 ^ 256 - 1"
        using u256_bitwise_val(4,8) [of u256_zero u256_zero] by simp_all
      then have "sval ?m = - 1" using sval_cases [OF u(1)] is_negative_val(2) [OF u(1)] by simp
      moreover have "sval v < 0" using True sval_neg_iff [OF assms(1)] by simp
      then have "sval v div 2 ^ s = - 1" using rg by (intro int_div_pos_eq [where r = "sval v + 2 ^ s"]) linarith+
      ultimately show ?thesis using u True big by (simp add: u256_sar_def s_def [symmetric])
    next
      case False
      have "0 \<le> sval v" using False sval_neg_iff [OF assms(1)] by simp
      then have "sval v div 2 ^ s = 0" using rg by (intro div_pos_pos_trivial) linarith+
      then show ?thesis using False big by (simp add: u256_sar_def s_def [symmetric] sval_def)
    qed
  qed
  then show "is_u256 (u256_sar shift v)" "sval (u256_sar shift v) = sval v div 2 ^ (be_val shift mod 2 ^ 64)"
    unfolding e by simp_all
qed

section \<open>BYTE and SIGNEXTEND\<close>

lemma nth_byte_val:
  assumes "is_u256 x" "i < 32"
  shows "unat (x ! i) = be_val x div 256 ^ (31 - i) mod 256"
proof -
  have l: "length (drop (Suc i) x) = 31 - i" using assms by (simp add: is_u256_def)
  have "x = take i x @ x ! i # drop (Suc i) x" using assms by (simp add: is_u256_def id_take_nth_drop)
  then have "be_val x = be_val (take i x @ x ! i # drop (Suc i) x)" by simp
  also have "\<dots> = (be_val (take i x) * 256 + unat (x ! i)) * 256 ^ (31 - i) + be_val (drop (Suc i) x)"
    by (simp only: be_val_append be_val.simps length_Cons l power_Suc) (simp add: algebra_simps)
  finally have e: "be_val x = be_val (drop (Suc i) x) + (be_val (take i x) * 256 + unat (x ! i)) * 256 ^ (31 - i)" by simp
  have "be_val (drop (Suc i) x) < 256 ^ (31 - i)" using be_val_less [of "drop (Suc i) x"] unfolding l .
  then have "be_val x div 256 ^ (31 - i) = be_val (take i x) * 256 + unat (x ! i)" unfolding e by simp
  then show ?thesis by simp
qed

lemma u256_byte_val:
  assumes "is_u256 i" "is_u256 x"
  shows "is_u256 (u256_byte i x)"
    "be_val (u256_byte i x) = (let idx = be_val i mod 2 ^ 64 in if idx < 32 then be_val x div 256 ^ (31 - idx) mod 256 else 0)"
proof -
  have u: "unat (ucast (y :: byte) :: u64) = unat y" for y
  proof -
    have "unat y < 2 ^ 64" using less_le_trans [OF unat_byte_less [of y], of "2 ^ 64"] by simp
    then show ?thesis by (simp add: unsigned_ucast_eq take_bit_nat_eq_self_iff)
  qed
  define k where "k = be_val i mod 2 ^ 64"
  have e: "unat (u256_to_u64 i) = k" unfolding k_def by (rule u256_to_u64_val [OF assms(1)])
  show "is_u256 (u256_byte i x)" using u256_from_u64_val(1) by (simp add: u256_byte_def Let_def)
  show "be_val (u256_byte i x) = (let idx = be_val i mod 2 ^ 64 in if idx < 32 then be_val x div 256 ^ (31 - idx) mod 256 else 0)"
    unfolding u256_byte_def e k_def [symmetric] Let_def
    using nth_byte_val [OF assms(2), of k] u256_from_u64_val(2) u by auto
qed

text \<open>SIGNEXTEND with a set sign bit overwrites the whole sign byte with ones.\<close>

lemma sign_byte: "x AND 0x80 \<noteq> 0 \<longleftrightarrow> 128 \<le> unat (x :: byte)" "x AND 0x80 = 0 \<Longrightarrow> x AND 0x7f = x"
proof -
  have e: "(0x80 :: byte) = 2 ^ 7" by simp
  have "unat x div 128 < 2" using unat_byte_less [of x] by (intro less_mult_imp_div_less) simp
  then have o: "odd (unat x div 128) \<longleftrightarrow> 128 \<le> unat x" by (cases "unat x div 128 = 0") (auto simp: less_2_cases_iff div_eq_0_iff)
  have b: "x AND 0x80 \<noteq> 0 \<longleftrightarrow> bit x 7" unfolding e by (simp only: and_exp_eq_0_iff_not_bit) simp
  also have "\<dots> \<longleftrightarrow> 128 \<le> unat x" using bit_byte_or_high [of 7 x] o by (simp add: bit_iff_odd)
  finally show "x AND 0x80 \<noteq> 0 \<longleftrightarrow> 128 \<le> unat x" .
  assume "x AND 0x80 = 0"
  then have "\<not> bit x 7" using b by simp
  moreover have "(0x7f :: byte) = mask 7" by (simp add: mask_eq_exp_minus_1)
  ultimately show "x AND 0x7f = x"
  proof -
    have "bit (x AND mask 7) n \<longleftrightarrow> bit x n" for n
      using \<open>\<not> bit x 7\<close> bit_imp_le_length [of x n] by (cases "n = 7") (auto simp: bit_simps)
    then have "x AND mask 7 = x" by (intro bit_eqI) blast
    then show ?thesis unfolding \<open>0x7f = mask 7\<close> .
  qed
qed

lemma u256_signextend_cases:
  assumes "is_u256 b" "is_u256 x" "k = be_val b mod 2 ^ 64"
  shows "u256_signextend b x =
    (if 31 \<le> k then x
     else if 128 \<le> unat (x ! (31 - k)) then replicate (32 - k) 0xff @ drop (32 - k) x
     else replicate (31 - k) 0 @ drop (31 - k) x)"
proof (cases "31 \<le> k")
  case True
  then show ?thesis using u256_to_u64_val [OF assms(1)] assms(3) by (simp add: u256_signextend_def)
next
  case False
  define i where "i = 31 - k"
  have i: "0 < i" "i \<le> 31" "32 - k = Suc i" "\<not> 31 \<le> k" using False by (auto simp: i_def)
  have l: "length x = 32" using assms(2) by (simp add: is_u256_def)
  have d: "drop i x = x ! i # drop (Suc i) x" using i l by (simp add: Cons_nth_drop_Suc)
  have ff: "y OR 0xff = (0xff :: byte)" for y
  proof -
    have "(0xff :: byte) = - 1" by simp
    then show ?thesis by (simp only: bit.disj_one_right)
  qed
  have upd: "(replicate i c @ x ! i # drop (Suc i) x)[i := y] = replicate i c @ y # drop (Suc i) x" for c y
    using list_update_length [of "replicate i c" "x ! i" "drop (Suc i) x" y] by simp
  have nth: "(replicate i c @ x ! i # drop (Suc i) x) ! i = x ! i" for c
    using nth_append_length [of "replicate i c" "x ! i"] by simp
  have s: "u256_signextend b x =
      (if 128 \<le> unat (x ! i) then replicate i 0xff @ 0xff # drop (Suc i) x else replicate i 0 @ x ! i # drop (Suc i) x)"
    unfolding u256_signextend_def Let_def u256_to_u64_val [OF assms(1)] assms(3) [symmetric] i_def [symmetric] d
    using i sign_byte [of "x ! i"] ff by (auto simp: upd nth)
  show ?thesis unfolding s i_def [symmetric] i(3) d using i(4) by (auto simp: replicate_app_Cons_same replicate_append_same)
qed

end
