(* ===== verification/Evm_Word_Props.thy ===== *)
theory Evm_Word_Props
  imports Evm_Shift
begin

text \<open>
  What the 256-bit arithmetic of zbx-evm promises to the interpreter, stated on the numeric
  value \<open>be_val\<close> and the two's complement value \<open>sval\<close> of the byte arrays.
\<close>

section \<open>Concrete words for the witnesses\<close>

definition word_max :: bytes where
  "word_max = replicate 32 0xff"

lemma word_max_val: "is_u256 word_max" "be_val word_max = 2 ^ 256 - 1" "sval word_max = - 1"
proof -
  have "word_max = u256_not u256_zero" by (simp add: word_max_def u256_not_def u256_zero_def)
  then show u: "is_u256 word_max" and v: "be_val word_max = 2 ^ 256 - 1"
    using u256_bitwise_val(4,8) [of u256_zero u256_zero] by simp_all
  show "sval word_max = - 1" using sval_cases [OF u] is_negative_val(2) [OF u] v by simp
qed

lemma small_word_val:
  "is_u256 (u256_from_u64 v)" "be_val (u256_from_u64 v) = unat v" "sval (u256_from_u64 v) = int (unat v)"
proof -
  show u: "is_u256 (u256_from_u64 v)" and b: "be_val (u256_from_u64 v) = unat v" by (rule u256_from_u64_val)+
  have "unat v < 2 ^ 64" using unsigned_less [of v, where 'a = nat] by simp
  then have "\<not> 2 ^ 255 \<le> unat v" by simp
  then show "sval (u256_from_u64 v) = int (unat v)" using sval_cases [OF u] is_negative_val(2) [OF u] b by simp
qed

section \<open>Arithmetic of the values\<close>

text \<open>C26. The unsigned instructions compute on the values of their words and return 32-byte words:
  ADD, SUB and MUL, with byte carries, byte borrows and 64-bit limbs, are exact modulo \<open>2 ^ 256\<close>;
  DIV and MOD, by bitwise long division, are quotient and remainder, both zero for a zero divisor;
  EXP, by repeated squaring, is the power modulo \<open>2 ^ 256\<close>.\<close>

theorem evm_unsigned_arithmetic:
  assumes "is_u256 a" "is_u256 b"
  shows "is_u256 (u256_add a b) \<and> be_val (u256_add a b) = (be_val a + be_val b) mod 2 ^ 256 \<and>
    is_u256 (u256_sub a b) \<and> int (be_val (u256_sub a b)) = (int (be_val a) - int (be_val b)) mod 2 ^ 256 \<and>
    is_u256 (u256_mul a b) \<and> be_val (u256_mul a b) = (be_val a * be_val b) mod 2 ^ 256 \<and>
    is_u256 (u256_div a b) \<and> be_val (u256_div a b) = be_val a div be_val b \<and>
    is_u256 (u256_mod a b) \<and> be_val (u256_mod a b) = (if be_val b = 0 then 0 else be_val a mod be_val b) \<and>
    is_u256 (u256_exp a b) \<and> be_val (u256_exp a b) = be_val a ^ be_val b mod 2 ^ 256"
  using u256_add_val [OF assms] u256_sub_val(1,3) [OF assms] u256_mul_val [OF assms] u256_div_val [OF assms]
    u256_mod_val [OF assms] u256_exp_val [OF assms] by blast

theorem evm_unsigned_arithmetic_witness:
  "is_u256 word_max \<and> is_u256 (u256_from_u64 2) \<and> be_val (u256_add word_max (u256_from_u64 2)) = 1 \<and>
   be_val (u256_mul word_max (u256_from_u64 2)) = 2 ^ 256 - 2 \<and> be_val (u256_div word_max (u256_from_u64 2)) = 2 ^ 255 - 1 \<and>
   be_val (u256_mod word_max (u256_from_u64 2)) = 1"
  using evm_unsigned_arithmetic [OF word_max_val(1) small_word_val(1) [of 2]]
  by (simp add: word_max_val small_word_val)

text \<open>C27. The signed instructions compute on the two's complement values: SDIV and SMOD truncate
  towards zero (the quotient wraps in the one overflowing case) and give zero for a zero divisor;
  the lexicographic comparisons of byte arrays LT, GT and EQ compare the unsigned values, SLT and
  SGT the signed ones, and ISZERO is the test for zero.\<close>

theorem evm_signed_and_comparisons:
  assumes "is_u256 a" "is_u256 b"
  shows "sval (u256_sdiv a b) = signed_take_bit 255 (sval a sdiv sval b) \<and>
    sval (u256_smod a b) = (if sval b = 0 then 0 else sval a smod sval b) \<and>
    (u256_lt a b \<longleftrightarrow> be_val a < be_val b) \<and> (u256_gt a b \<longleftrightarrow> be_val b < be_val a) \<and>
    (u256_eq a b \<longleftrightarrow> be_val a = be_val b) \<and> (u256_is_zero a \<longleftrightarrow> be_val a = 0) \<and>
    (u256_slt a b \<longleftrightarrow> sval a < sval b) \<and> (u256_sgt a b \<longleftrightarrow> sval b < sval a)"
  using u256_sdiv_val(2) [OF assms] u256_smod_val(2) [OF assms]
    u256_lt_val [OF assms] u256_lt_val [OF assms(2,1)] u256_slt_val [OF assms] u256_is_zero_iff [OF assms(1)]
    val_eqI [OF assms] by (auto simp: u256_gt_def u256_eq_def u256_lt_def)

theorem evm_signed_and_comparisons_witness:
  "is_u256 min_int \<and> is_u256 word_max \<and> sval (u256_sdiv min_int word_max) = - (2 ^ 255) \<and>
   sval (u256_smod min_int word_max) = 0 \<and> u256_slt min_int word_max"
proof -
  have "Suc 255 = 256" by simp
  then have "signed_take_bit 255 (2 ^ 255 :: int) = - (2 ^ 255)"
    unfolding signed_take_bit_eq_take_bit_minus by (simp add: bit_exp_iff take_bit_eq_mod)
  then show ?thesis
    using evm_signed_and_comparisons [OF min_int_val(1) word_max_val(1)] min_int_val(1) word_max_val(1)
    by (simp add: min_int_val(3) word_max_val(3) signed_divide_int_def signed_modulo_int_def)
qed

section \<open>Modular arithmetic\<close>

lemma addmod_top_bit_lost:
  "be_val (u256_addmod (u256_not (u256_from_u64 1)) (u256_not (u256_from_u64 1)) word_max) = 2 ^ 256 - 4 \<and>
   (be_val (u256_not (u256_from_u64 1)) + be_val (u256_not (u256_from_u64 1))) mod be_val word_max = 2 ^ 256 - 3"
proof -
  let ?a = "u256_not (u256_from_u64 1)"
  have a: "is_u256 ?a" "be_val ?a = 2 ^ 256 - 2"
    using u256_bitwise_val(4,8) [OF small_word_val(1) [of 1] small_word_val(1) [of 1]] small_word_val(2) [of 1] by simp_all
  show ?thesis
    using u256_addmod_wrap [OF a(1) a(1) word_max_val(1), of "2 ^ 256 - 4"] unfolding a(2) word_max_val(2) by simp
qed

section \<open>Shifts, bytes and modular arithmetic\<close>

lemma signextend_fills:
  assumes "is_u256 x" "k < 31" "128 \<le> unat (x ! (31 - k))"
  shows "u256_signextend (u256_from_u64 (of_nat k)) x = replicate (32 - k) 0xff @ drop (32 - k) x"
proof -
  have "k = be_val (u256_from_u64 (of_nat k)) mod 2 ^ 64"
    using assms(2) small_word_val(2) [of "of_nat k"] by (simp add: unat_of_nat)
  from u256_signextend_cases [OF small_word_val(1) assms(1) this] assms(2,3) show ?thesis by simp
qed

lemma sign_byte_set: "128 \<le> unat (u256_from_u64 0x80 ! (31 - 0))"
  using nth_byte_val [OF small_word_val(1), of 31] small_word_val(2) by simp

text \<open>The shift is read from the last eight bytes of its word, and none is made when they are zero.\<close>

lemma shift_by_cut_word:
  assumes "is_u256 b" "be_val b mod 2 ^ 64 = 0"
  shows "u256_shl b a = a" "u256_shr b a = a" "u256_sar b a = a"
proof -
  have "unat (u256_to_u64 b) = 0" using u256_to_u64_val [OF assms(1)] assms(2) by simp
  then show "u256_shl b a = a" "u256_shr b a = a" "u256_sar b a = a" by (simp_all add: u256_shl_def u256_shr_def u256_sar_def Let_def)
qed

text \<open>C28. ADDMOD and MULMOD are exact (the sum and the product are not truncated first) for every
  modulus up to \<open>2 ^ 255\<close>, the zero modulus giving zero.  Above \<open>2 ^ 255\<close> ADDMOD can be wrong, because the
  shifted remainder loses its top bit: with both operands \<open>2 ^ 256 - 2\<close> and modulus \<open>2 ^ 256 - 1\<close> the
  result is one less than the sum modulo the modulus.  SHL, SHR and SAR shift by the value of the last eight
  bytes of the shift word: left modulo \<open>2 ^ 256\<close>, right unsigned, and right with the sign kept (rounding
  down); so a shift word of \<open>2 ^ 64\<close>, far above 256, leaves the value as it is, where the comments of the code
  promise 0 or -1.  SIGNEXTEND of a value whose byte \<open>k < 31\<close> has its sign bit set replaces that byte by 0xff as well
  as the bytes above it, so the low bits of the sign byte are lost: extending byte 0 of 0x80 gives -1 and
  not -128.\<close>

theorem evm_modular_and_shifts:
  assumes "is_u256 a" "is_u256 b" "is_u256 n" "be_val n \<le> 2 ^ 255"
  shows "be_val (u256_addmod a b n) = (if be_val n = 0 then 0 else (be_val a + be_val b) mod be_val n) \<and>
    be_val (u256_mulmod a b n) = (if be_val n = 0 then 0 else be_val a * be_val b mod be_val n) \<and>
    be_val (u256_addmod (u256_not (u256_from_u64 1)) (u256_not (u256_from_u64 1)) word_max) + 1 =
      (be_val (u256_not (u256_from_u64 1)) + be_val (u256_not (u256_from_u64 1))) mod be_val word_max \<and>
    be_val (u256_shl b a) = be_val a * 2 ^ (be_val b mod 2 ^ 64) mod 2 ^ 256 \<and>
    be_val (u256_shr b a) = be_val a div 2 ^ (be_val b mod 2 ^ 64) \<and>
    sval (u256_sar b a) = sval a div 2 ^ (be_val b mod 2 ^ 64) \<and>
    (be_val b mod 2 ^ 64 = 0 \<longrightarrow> u256_shl b a = a \<and> u256_shr b a = a \<and> u256_sar b a = a) \<and>
    (\<forall>k<31. 128 \<le> unat (a ! (31 - k)) \<longrightarrow> u256_signextend (u256_from_u64 (of_nat k)) a = replicate (32 - k) 0xff @ drop (32 - k) a)"
proof (intro conjI)
  show "be_val (u256_addmod a b n) = (if be_val n = 0 then 0 else (be_val a + be_val b) mod be_val n)"
    using u256_addmod_val(2) [OF assms(1-3)] assms(4) by simp
  show "be_val (u256_mulmod a b n) = (if be_val n = 0 then 0 else be_val a * be_val b mod be_val n)"
    using u256_mulmod_val(2) [OF assms] by simp
  show "\<forall>k<31. 128 \<le> unat (a ! (31 - k)) \<longrightarrow> u256_signextend (u256_from_u64 (of_nat k)) a = replicate (32 - k) 0xff @ drop (32 - k) a"
    using signextend_fills [OF assms(1)] by blast
  show "be_val b mod 2 ^ 64 = 0 \<longrightarrow> u256_shl b a = a \<and> u256_shr b a = a \<and> u256_sar b a = a"
    by (simp add: shift_by_cut_word [OF assms(2)])
  show "be_val (u256_addmod (u256_not (u256_from_u64 1)) (u256_not (u256_from_u64 1)) word_max) + 1 =
      (be_val (u256_not (u256_from_u64 1)) + be_val (u256_not (u256_from_u64 1))) mod be_val word_max"
    using addmod_top_bit_lost by simp
qed (rule u256_shl_val(2) [OF assms(1,2)] u256_shr_val(2) [OF assms(1,2)] u256_sar_val(2) [OF assms(1,2)])+

theorem evm_modular_and_shifts_witness:
  "be_val (u256_addmod word_max word_max (u256_from_u64 7)) = (2 * (2 ^ 256 - 1)) mod 7 \<and>
   be_val (u256_mulmod word_max word_max (u256_from_u64 7)) = ((2 ^ 256 - 1) * (2 ^ 256 - 1)) mod 7 \<and>
   be_val (u256_shl (u256_from_u64 255) word_max) = 2 ^ 255 \<and>
   be_val (u256_shr (u256_from_u64 255) word_max) = 1 \<and> sval (u256_sar (u256_from_u64 255) word_max) = - 1 \<and>
   sval (u256_signextend (u256_from_u64 0) (u256_from_u64 0x80)) = - 1"
proof -
  have n: "is_u256 (u256_from_u64 7)" "be_val (u256_from_u64 7) \<le> 2 ^ 255" by (simp_all add: small_word_val)
  note m = evm_modular_and_shifts [OF word_max_val(1) word_max_val(1) n]
  note p = evm_modular_and_shifts [OF word_max_val(1) small_word_val(1) [of 255] n]
  note q = evm_modular_and_shifts [OF small_word_val(1) [of 128] small_word_val(1) [of 255] n]
  have "u256_signextend (u256_from_u64 (of_nat 0)) (u256_from_u64 0x80) = replicate (32 - 0) 0xff @ drop (32 - 0) (u256_from_u64 0x80)"
    by (rule q [THEN conjunct2, THEN conjunct2, THEN conjunct2, THEN conjunct2, THEN conjunct2, THEN conjunct2, THEN conjunct2, rule_format, OF _ sign_byte_set]) simp
  then have "u256_signextend (u256_from_u64 0) (u256_from_u64 0x80) = word_max"
    using small_word_val(1) [of 128] by (simp add: word_max_def is_u256_def)
  then show ?thesis
    using m [THEN conjunct1] m [THEN conjunct2, THEN conjunct1] p by (simp add: word_max_val small_word_val)
qed

end
