(* ===== verification/Machine.thy ===== *)
theory Machine
  imports Zbx_Prelude
begin

text \<open>
  The saturating and checked operations of Rust's unsigned integers and the casts between them, with
  their values: what \<^verbatim>\<open>saturating_add\<close>, \<^verbatim>\<open>checked_mul\<close> and \<^verbatim>\<open>as\<close> mean on words.  Plain \<open>+\<close>, \<open>-\<close> and
  \<open>*\<close> on words wrap, as the arithmetic of the release build does.
\<close>

section \<open>Operations\<close>

definition sat_add64 :: "u64 \<Rightarrow> u64 \<Rightarrow> u64" where
  "sat_add64 a b = (if unat a + unat b < 2 ^ 64 then a + b else - 1)"

definition sat_sub64 :: "u64 \<Rightarrow> u64 \<Rightarrow> u64" where
  "sat_sub64 a b = (if b \<le> a then a - b else 0)"

definition sat_mul64 :: "u64 \<Rightarrow> u64 \<Rightarrow> u64" where
  "sat_mul64 a b = (if unat a * unat b < 2 ^ 64 then a * b else - 1)"

definition checked_add64 :: "u64 \<Rightarrow> u64 \<Rightarrow> u64 option" where
  "checked_add64 a b = (if unat a + unat b < 2 ^ 64 then Some (a + b) else None)"

definition checked_mul64 :: "u64 \<Rightarrow> u64 \<Rightarrow> u64 option" where
  "checked_mul64 a b = (if unat a * unat b < 2 ^ 64 then Some (a * b) else None)"

definition sat_add128 :: "u128 \<Rightarrow> u128 \<Rightarrow> u128" where
  "sat_add128 a b = (if unat a + unat b < 2 ^ 128 then a + b else - 1)"

definition sat_sub128 :: "u128 \<Rightarrow> u128 \<Rightarrow> u128" where
  "sat_sub128 a b = (if b \<le> a then a - b else 0)"

definition sat_mul128 :: "u128 \<Rightarrow> u128 \<Rightarrow> u128" where
  "sat_mul128 a b = (if unat a * unat b < 2 ^ 128 then a * b else - 1)"

definition checked_add128 :: "u128 \<Rightarrow> u128 \<Rightarrow> u128 option" where
  "checked_add128 a b = (if unat a + unat b < 2 ^ 128 then Some (a + b) else None)"

definition checked_sub128 :: "u128 \<Rightarrow> u128 \<Rightarrow> u128 option" where
  "checked_sub128 a b = (if b \<le> a then Some (a - b) else None)"

definition checked_mul128 :: "u128 \<Rightarrow> u128 \<Rightarrow> u128 option" where
  "checked_mul128 a b = (if unat a * unat b < 2 ^ 128 then Some (a * b) else None)"

section \<open>Values\<close>

lemma unat_u64_less: "unat (v :: u64) < 2 ^ 64"
  using unsigned_less [of v, where 'a = nat] by simp

lemma unat_u128_less: "unat (v :: u128) < 2 ^ 128"
  using unsigned_less [of v, where 'a = nat] by simp

lemma unat_max: "unat (max a b :: 'l::len word) = max (unat a) (unat b)"
  by (simp add: max_def word_le_nat_alt)

lemma unat_min: "unat (min a b :: 'l::len word) = min (unat a) (unat b)"
  by (simp add: min_def word_le_nat_alt)

lemma unat_ucast_u64 [simp]: "unat (ucast (v :: u64) :: u128) = unat v"
  using unat_u64_less [of v] by (simp add: unsigned_ucast_eq take_bit_eq_mod)

lemma unat_ucast_down: "unat (x :: u128) < 2 ^ 64 \<Longrightarrow> unat (ucast x :: u64) = unat x"
  by (simp add: unsigned_ucast_eq take_bit_eq_mod)

lemma unat_sat_sub64 [simp]: "unat (sat_sub64 a b) = unat a - unat b"
  by (auto simp: sat_sub64_def unat_sub word_le_nat_alt)

lemma unat_sat_sub128 [simp]: "unat (sat_sub128 a b) = unat a - unat b"
  by (auto simp: sat_sub128_def unat_sub word_le_nat_alt)

lemma unat_sat_add64 [simp]: "unat (sat_add64 a b) = min (unat a + unat b) (2 ^ 64 - 1)"
  by (auto simp: sat_add64_def unat_word_ariths(1) unsigned_minus_1_eq_mask mask_eq_exp_minus_1)

lemma unat_sat_mul64 [simp]: "unat (sat_mul64 a b) = min (unat a * unat b) (2 ^ 64 - 1)"
  by (auto simp: sat_mul64_def unat_word_ariths(2) unsigned_minus_1_eq_mask mask_eq_exp_minus_1)

lemma sat_add128_exact: "unat a + unat b < 2 ^ 128 \<Longrightarrow> unat (sat_add128 a b) = unat a + unat b"
  by (simp add: sat_add128_def unat_word_ariths)

lemma unat_mul_u64: "unat (ucast (a :: u64) * ucast (b :: u64) :: u128) = unat a * unat b"
proof -
  have "unat a * unat b < 2 ^ 64 * 2 ^ 64" by (intro mult_strict_mono unat_u64_less) auto
  then show ?thesis by (simp add: unat_word_ariths(2))
qed

section \<open>Checked operations on 128 bits\<close>

lemma checked_mul128_Some: "checked_mul128 a b = Some c \<longleftrightarrow> unat a * unat b < 2 ^ 128 \<and> c = a * b"
  by (auto simp: checked_mul128_def)

lemma checked_add128_Some: "checked_add128 a b = Some c \<longleftrightarrow> unat a + unat b < 2 ^ 128 \<and> c = a + b"
  by (auto simp: checked_add128_def)

lemma checked_sub128_Some: "checked_sub128 a b = Some c \<longleftrightarrow> b \<le> a \<and> c = a - b"
  by (auto simp: checked_sub128_def)

lemma unat_mul128: "unat a * unat b < 2 ^ 128 \<Longrightarrow> unat (a * b :: u128) = unat a * unat b"
  by (simp add: unat_word_ariths(2))

lemma unat_add128: "unat a + unat b < 2 ^ 128 \<Longrightarrow> unat (a + b :: u128) = unat a + unat b"
  by (simp add: unat_word_ariths(1))

lemma unat_sub128: "b \<le> a \<Longrightarrow> unat (a - b :: u128) = unat a - unat b"
  by (simp add: unat_sub)

lemmas checked128 = checked_mul128_Some checked_add128_Some checked_sub128_Some

end
