(* ===== verification/Evm_Gas.thy ===== *)
theory Evm_Gas
  imports Evm_Word Machine
begin

text \<open>
  The error type, the gas schedule, the opcode table and the linear memory of zbx-evm
  (\<^verbatim>\<open>error.rs\<close>, \<^verbatim>\<open>gas.rs\<close>, \<^verbatim>\<open>opcodes.rs\<close>, \<^verbatim>\<open>memory.rs\<close>) and the word stack of \<^verbatim>\<open>stack.rs\<close>.
  A \<^verbatim>\<open>usize\<close> is a natural number below \<open>2 ^ 64\<close>; the additions that can leave that range are
  the checked or saturating ones of the source.
\<close>

section \<open>Errors\<close>

datatype evm_error =
    OutOfGas
  | StackUnderflow
  | StackOverflow
  | InvalidOpcode byte
  | InvalidJump nat
  | MemoryOutOfBounds nat nat
  | WriteProtection
  | Revert string
  | Precompile string
  | CallDepthExceeded
  | StaticStateChange
  | InsufficientBalance
  | NonceOverflow
  | InitcodeOversize nat
  | InvalidDeployedCodePrefix
  | CreateCollision

section \<open>Gas schedule\<close>

definition GAS_ZERO :: u64 where "GAS_ZERO = 0"
definition GAS_BASE :: u64 where "GAS_BASE = 2"
definition GAS_VERY_LOW :: u64 where "GAS_VERY_LOW = 3"
definition GAS_LOW :: u64 where "GAS_LOW = 5"
definition GAS_MID :: u64 where "GAS_MID = 8"
definition GAS_HIGH :: u64 where "GAS_HIGH = 10"
definition GAS_JUMPDEST :: u64 where "GAS_JUMPDEST = 1"
definition GAS_SLOAD_WARM :: u64 where "GAS_SLOAD_WARM = 100"
definition GAS_SLOAD_COLD :: u64 where "GAS_SLOAD_COLD = 2100"
definition GAS_SSTORE_SET :: u64 where "GAS_SSTORE_SET = 20000"
definition GAS_SSTORE_RESET :: u64 where "GAS_SSTORE_RESET = 2900"
definition GAS_CALL :: u64 where "GAS_CALL = 100"
definition GAS_CREATE :: u64 where "GAS_CREATE = 32000"
definition GAS_SHA3 :: u64 where "GAS_SHA3 = 30"
definition GAS_SHA3_WORD :: u64 where "GAS_SHA3_WORD = 6"
definition GAS_COPY_WORD :: u64 where "GAS_COPY_WORD = 3"
definition GAS_LOG_BASE :: u64 where "GAS_LOG_BASE = 375"
definition GAS_LOG_DATA :: u64 where "GAS_LOG_DATA = 8"
definition GAS_LOG_TOPIC :: u64 where "GAS_LOG_TOPIC = 375"
definition GAS_COLD_ACCOUNT_ACCESS :: u64 where "GAS_COLD_ACCOUNT_ACCESS = 2500"
definition GAS_CALL_VALUE_TRANSFER :: u64 where "GAS_CALL_VALUE_TRANSFER = 9000"
definition GAS_NEW_ACCOUNT :: u64 where "GAS_NEW_ACCOUNT = 25000"
definition GAS_CALL_STIPEND :: u64 where "GAS_CALL_STIPEND = 2300"
definition CALL_DEPTH_LIMIT :: nat where "CALL_DEPTH_LIMIT = 1024"
definition GAS_INITCODE_WORD :: u64 where "GAS_INITCODE_WORD = 2"
definition GAS_CODE_DEPOSIT_PER_BYTE :: u64 where "GAS_CODE_DEPOSIT_PER_BYTE = 200"
definition GAS_SELFDESTRUCT :: u64 where "GAS_SELFDESTRUCT = 5000"
definition MAX_INITCODE_SIZE :: nat where "MAX_INITCODE_SIZE = 49152"
definition MAX_CONTRACT_CODE_SIZE :: nat where "MAX_CONTRACT_CODE_SIZE = 24576"

lemmas gas_defs = GAS_ZERO_def GAS_BASE_def GAS_VERY_LOW_def GAS_LOW_def GAS_MID_def GAS_HIGH_def
  GAS_JUMPDEST_def GAS_SLOAD_WARM_def GAS_SLOAD_COLD_def GAS_SSTORE_SET_def GAS_SSTORE_RESET_def
  GAS_CALL_def GAS_CREATE_def GAS_SHA3_def GAS_SHA3_WORD_def GAS_COPY_WORD_def GAS_LOG_BASE_def
  GAS_LOG_DATA_def GAS_LOG_TOPIC_def GAS_COLD_ACCOUNT_ACCESS_def GAS_CALL_VALUE_TRANSFER_def
  GAS_NEW_ACCOUNT_def GAS_CALL_STIPEND_def GAS_INITCODE_WORD_def GAS_CODE_DEPOSIT_PER_BYTE_def
  GAS_SELFDESTRUCT_def

text \<open>Saturation on 128 bits.\<close>

definition sat128 :: "nat \<Rightarrow> nat" where
  "sat128 n = min n (2 ^ 128 - 1)"

definition memory_cost :: "u64 \<Rightarrow> nat" where
  "memory_cost n = sat128 (sat128 (3 * unat n) + sat128 (unat n * unat n) div 512)"

definition memory_expansion_cost :: "u64 \<Rightarrow> u64 \<Rightarrow> u64" where
  "memory_expansion_cost old_words new_words =
     (let diff = memory_cost new_words - memory_cost old_words in
      if diff > 2 ^ 64 - 1 then - 1 else of_nat diff)"

definition copy_cost :: "u64 \<Rightarrow> u64" where
  "copy_cost size_bytes = (let words = (size_bytes + 31) div 32 in GAS_COPY_WORD * words)"

definition sha3_cost :: "u64 \<Rightarrow> u64" where
  "sha3_cost size_bytes = (let words = (size_bytes + 31) div 32 in GAS_SHA3 + GAS_SHA3_WORD * words)"

definition log_cost :: "u64 \<Rightarrow> u64 \<Rightarrow> u64" where
  "log_cost data_size topic_count = GAS_LOG_BASE + GAS_LOG_DATA * data_size + GAS_LOG_TOPIC * topic_count"

definition forward_gas_eip150 :: "u64 \<Rightarrow> u64 \<Rightarrow> u64" where
  "forward_gas_eip150 gas_remaining requested =
     (let max_forwardable = sat_sub64 gas_remaining (gas_remaining div 64) in min requested max_forwardable)"

lemma sat_sub64_le: "sat_sub64 x y \<le> x"
  by (simp add: word_le_nat_alt unat_sat_sub64)

lemma forward_gas_le: "forward_gas_eip150 g r \<le> g"
  unfolding forward_gas_eip150_def Let_def by (rule order_trans [OF min.cobounded2 sat_sub64_le])

section \<open>Opcodes\<close>

text \<open>The enumeration has \<^verbatim>\<open>repr(u8)\<close>: a variant is its byte.  The variants PUSH2 to PUSH32, DUP2 to DUP16
  and SWAP2 to SWAP16 are never produced by \<open>from_u8\<close>.\<close>

type_synonym opcode = byte

abbreviation (input) "OP_STOP \<equiv> (0x00 :: opcode)"
abbreviation (input) "OP_ADD \<equiv> (0x01 :: opcode)"
abbreviation (input) "OP_MUL \<equiv> (0x02 :: opcode)"
abbreviation (input) "OP_SUB \<equiv> (0x03 :: opcode)"
abbreviation (input) "OP_DIV \<equiv> (0x04 :: opcode)"
abbreviation (input) "OP_SDIV \<equiv> (0x05 :: opcode)"
abbreviation (input) "OP_MOD \<equiv> (0x06 :: opcode)"
abbreviation (input) "OP_SMOD \<equiv> (0x07 :: opcode)"
abbreviation (input) "OP_ADDMOD \<equiv> (0x08 :: opcode)"
abbreviation (input) "OP_MULMOD \<equiv> (0x09 :: opcode)"
abbreviation (input) "OP_EXP \<equiv> (0x0a :: opcode)"
abbreviation (input) "OP_SIGNEXTEND \<equiv> (0x0b :: opcode)"
abbreviation (input) "OP_LT \<equiv> (0x10 :: opcode)"
abbreviation (input) "OP_GT \<equiv> (0x11 :: opcode)"
abbreviation (input) "OP_SLT \<equiv> (0x12 :: opcode)"
abbreviation (input) "OP_SGT \<equiv> (0x13 :: opcode)"
abbreviation (input) "OP_EQ \<equiv> (0x14 :: opcode)"
abbreviation (input) "OP_ISZERO \<equiv> (0x15 :: opcode)"
abbreviation (input) "OP_AND \<equiv> (0x16 :: opcode)"
abbreviation (input) "OP_OR \<equiv> (0x17 :: opcode)"
abbreviation (input) "OP_XOR \<equiv> (0x18 :: opcode)"
abbreviation (input) "OP_NOT \<equiv> (0x19 :: opcode)"
abbreviation (input) "OP_BYTE \<equiv> (0x1a :: opcode)"
abbreviation (input) "OP_SHL \<equiv> (0x1b :: opcode)"
abbreviation (input) "OP_SHR \<equiv> (0x1c :: opcode)"
abbreviation (input) "OP_SAR \<equiv> (0x1d :: opcode)"
abbreviation (input) "OP_SHA3 \<equiv> (0x20 :: opcode)"
abbreviation (input) "OP_ADDRESS \<equiv> (0x30 :: opcode)"
abbreviation (input) "OP_BALANCE \<equiv> (0x31 :: opcode)"
abbreviation (input) "OP_ORIGIN \<equiv> (0x32 :: opcode)"
abbreviation (input) "OP_CALLER \<equiv> (0x33 :: opcode)"
abbreviation (input) "OP_CALLVALUE \<equiv> (0x34 :: opcode)"
abbreviation (input) "OP_CALLDATALOAD \<equiv> (0x35 :: opcode)"
abbreviation (input) "OP_CALLDATASIZE \<equiv> (0x36 :: opcode)"
abbreviation (input) "OP_CALLDATACOPY \<equiv> (0x37 :: opcode)"
abbreviation (input) "OP_CODESIZE \<equiv> (0x38 :: opcode)"
abbreviation (input) "OP_CODECOPY \<equiv> (0x39 :: opcode)"
abbreviation (input) "OP_GASPRICE \<equiv> (0x3a :: opcode)"
abbreviation (input) "OP_EXTCODESIZE \<equiv> (0x3b :: opcode)"
abbreviation (input) "OP_EXTCODECOPY \<equiv> (0x3c :: opcode)"
abbreviation (input) "OP_RETURNDATASIZE \<equiv> (0x3d :: opcode)"
abbreviation (input) "OP_RETURNDATACOPY \<equiv> (0x3e :: opcode)"
abbreviation (input) "OP_EXTCODEHASH \<equiv> (0x3f :: opcode)"
abbreviation (input) "OP_BLOCKHASH \<equiv> (0x40 :: opcode)"
abbreviation (input) "OP_COINBASE \<equiv> (0x41 :: opcode)"
abbreviation (input) "OP_TIMESTAMP \<equiv> (0x42 :: opcode)"
abbreviation (input) "OP_NUMBER \<equiv> (0x43 :: opcode)"
abbreviation (input) "OP_PREVRANDAO \<equiv> (0x44 :: opcode)"
abbreviation (input) "OP_GASLIMIT \<equiv> (0x45 :: opcode)"
abbreviation (input) "OP_CHAINID \<equiv> (0x46 :: opcode)"
abbreviation (input) "OP_SELFBALANCE \<equiv> (0x47 :: opcode)"
abbreviation (input) "OP_BASEFEE \<equiv> (0x48 :: opcode)"
abbreviation (input) "OP_POP \<equiv> (0x50 :: opcode)"
abbreviation (input) "OP_MLOAD \<equiv> (0x51 :: opcode)"
abbreviation (input) "OP_MSTORE \<equiv> (0x52 :: opcode)"
abbreviation (input) "OP_MSTORE8 \<equiv> (0x53 :: opcode)"
abbreviation (input) "OP_SLOAD \<equiv> (0x54 :: opcode)"
abbreviation (input) "OP_SSTORE \<equiv> (0x55 :: opcode)"
abbreviation (input) "OP_JUMP \<equiv> (0x56 :: opcode)"
abbreviation (input) "OP_JUMPI \<equiv> (0x57 :: opcode)"
abbreviation (input) "OP_PC \<equiv> (0x58 :: opcode)"
abbreviation (input) "OP_MSIZE \<equiv> (0x59 :: opcode)"
abbreviation (input) "OP_GAS \<equiv> (0x5a :: opcode)"
abbreviation (input) "OP_JUMPDEST \<equiv> (0x5b :: opcode)"
abbreviation (input) "OP_PUSH0 \<equiv> (0x5f :: opcode)"
abbreviation (input) "OP_LOG0 \<equiv> (0xa0 :: opcode)"
abbreviation (input) "OP_LOG1 \<equiv> (0xa1 :: opcode)"
abbreviation (input) "OP_LOG2 \<equiv> (0xa2 :: opcode)"
abbreviation (input) "OP_LOG3 \<equiv> (0xa3 :: opcode)"
abbreviation (input) "OP_LOG4 \<equiv> (0xa4 :: opcode)"
abbreviation (input) "OP_CREATE \<equiv> (0xf0 :: opcode)"
abbreviation (input) "OP_CALL \<equiv> (0xf1 :: opcode)"
abbreviation (input) "OP_CALLCODE \<equiv> (0xf2 :: opcode)"
abbreviation (input) "OP_RETURN \<equiv> (0xf3 :: opcode)"
abbreviation (input) "OP_DELEGATECALL \<equiv> (0xf4 :: opcode)"
abbreviation (input) "OP_CREATE2 \<equiv> (0xf5 :: opcode)"
abbreviation (input) "OP_STATICCALL \<equiv> (0xfa :: opcode)"
abbreviation (input) "OP_REVERT \<equiv> (0xfd :: opcode)"
abbreviation (input) "OP_INVALID \<equiv> (0xfe :: opcode)"
abbreviation (input) "OP_SELFDESTRUCT \<equiv> (0xff :: opcode)"
abbreviation (input) "OP_PUSH1 \<equiv> (0x60 :: opcode)"
abbreviation (input) "OP_DUP1 \<equiv> (0x80 :: opcode)"
abbreviation (input) "OP_SWAP1 \<equiv> (0x90 :: opcode)"

definition opcode_table :: "opcode list" where
  "opcode_table =
    [OP_STOP, OP_ADD, OP_MUL, OP_SUB, OP_DIV, OP_SDIV, OP_MOD, OP_SMOD, OP_ADDMOD, OP_MULMOD, OP_EXP,
     OP_SIGNEXTEND, OP_LT, OP_GT, OP_SLT, OP_SGT, OP_EQ, OP_ISZERO, OP_AND, OP_OR, OP_XOR, OP_NOT,
     OP_BYTE, OP_SHL, OP_SHR, OP_SAR, OP_SHA3, OP_ADDRESS, OP_BALANCE, OP_ORIGIN, OP_CALLER, OP_CALLVALUE,
     OP_CALLDATALOAD, OP_CALLDATASIZE, OP_CALLDATACOPY, OP_CODESIZE, OP_CODECOPY, OP_GASPRICE,
     OP_EXTCODESIZE, OP_EXTCODECOPY, OP_RETURNDATASIZE, OP_RETURNDATACOPY, OP_EXTCODEHASH, OP_BLOCKHASH,
     OP_COINBASE, OP_TIMESTAMP, OP_NUMBER, OP_PREVRANDAO, OP_GASLIMIT, OP_CHAINID, OP_SELFBALANCE,
     OP_BASEFEE, OP_POP, OP_MLOAD, OP_MSTORE, OP_MSTORE8, OP_SLOAD, OP_SSTORE, OP_JUMP, OP_JUMPI, OP_PC,
     OP_MSIZE, OP_GAS, OP_JUMPDEST, OP_PUSH0, OP_LOG0, OP_LOG1, OP_LOG2, OP_LOG3, OP_LOG4, OP_CREATE,
     OP_CALL, OP_CALLCODE, OP_RETURN, OP_DELEGATECALL, OP_CREATE2, OP_STATICCALL, OP_REVERT, OP_INVALID,
     OP_SELFDESTRUCT]"

definition from_u8 :: "byte \<Rightarrow> opcode option" where
  "from_u8 b =
     (if 0x60 \<le> b \<and> b \<le> 0x7f then Some OP_PUSH1
      else if 0x80 \<le> b \<and> b \<le> 0x8f then Some OP_DUP1
      else if 0x90 \<le> b \<and> b \<le> 0x9f then Some OP_SWAP1
      else if b \<in> set opcode_table then Some b
      else None)"

definition static_gas :: "opcode \<Rightarrow> u64" where
  "static_gas op =
     (if op \<in> {OP_STOP, OP_RETURN, OP_REVERT} then GAS_ZERO
      else if op \<in> {OP_SHA3, OP_LOG0, OP_LOG1, OP_LOG2, OP_LOG3, OP_LOG4} then GAS_ZERO
      else if op \<in> {OP_MUL, OP_DIV, OP_SDIV, OP_MOD, OP_SMOD, OP_SIGNEXTEND} then GAS_LOW
      else if op \<in> {OP_ADDMOD, OP_MULMOD, OP_JUMP} then GAS_MID
      else if op = OP_EXP then GAS_ZERO
      else if op \<in> {OP_JUMPI, OP_BLOCKHASH} then GAS_HIGH
      else if op = OP_JUMPDEST then GAS_JUMPDEST
      else if op \<in> {OP_BALANCE, OP_SELFBALANCE, OP_ORIGIN, OP_EXTCODESIZE, OP_EXTCODEHASH} then GAS_SLOAD_WARM
      else if op = OP_SLOAD then GAS_SLOAD_WARM
      else if op = OP_SSTORE then 0
      else if op = OP_EXTCODECOPY then GAS_SLOAD_WARM
      else if op \<in> {OP_CREATE, OP_CREATE2} then GAS_CREATE
      else if op \<in> {OP_CALL, OP_CALLCODE, OP_DELEGATECALL, OP_STATICCALL} then GAS_CALL
      else if op \<in> {OP_SELFDESTRUCT, OP_INVALID} then 0
      else GAS_VERY_LOW)"

section \<open>Memory\<close>

definition MAX_MEMORY :: nat where "MAX_MEMORY = 32 * 1024 * 1024"

text \<open>\<^verbatim>\<open>Vec::resize(n, 0)\<close>: truncate or pad with zeros.\<close>

definition resize :: "bytes \<Rightarrow> nat \<Rightarrow> bytes" where
  "resize xs n = take n xs @ replicate (n - length xs) 0"

definition mem_ensure :: "nat \<Rightarrow> nat \<Rightarrow> bytes \<Rightarrow> (evm_error, u64) res \<times> bytes" where
  "mem_ensure offset sz data =
     (if sz = 0 then (Inr 0, data)
      else if offset + sz \<ge> 2 ^ 64 then (Inl (Err (MemoryOutOfBounds offset sz)), data)
      else if offset + sz > MAX_MEMORY then (Inl (Err (MemoryOutOfBounds offset sz)), data)
      else
       (let old_words = (length data + 31) div 32; new_words = (offset + sz + 31) div 32 in
        if new_words > old_words
        then (Inr (memory_expansion_cost (of_nat old_words) (of_nat new_words)), resize data (new_words * 32))
        else (Inr 0, data)))"

definition mem_read :: "bytes \<Rightarrow> nat \<Rightarrow> nat \<Rightarrow> bytes" where
  "mem_read data offset sz =
     (if offset \<ge> length data then replicate sz 0
      else resize (take (min (offset + sz) (length data) - offset) (drop offset data)) sz)"

text \<open>The write panics beyond the memory limit, where the source has an explicit panic.\<close>

definition mem_write :: "nat \<Rightarrow> bytes \<Rightarrow> bytes \<Rightarrow> (evm_error, bytes) res" where
  "mem_write offset new data =
     (if new = [] then Inr data
      else
       (let last_byte = min (offset + length new) (2 ^ 64 - 1) in
        if last_byte > MAX_MEMORY then Inl Panic
        else
         (let data' = (if length data < last_byte then resize data last_byte else data)
          in Inr (take offset data' @ new @ drop (offset + length new) data'))))"

end
