(* ===== verification/Evm_Host.thy ===== *)
theory Evm_Host
  imports Evm_Gas Evm_Arith
begin

text \<open>
  \<^verbatim>\<open>zbx-evm/src/host.rs\<close>: the Host trait as a record of operations on a host state, and its
  implementation MockHost (account map, addresses created in the transaction, a stack of
  snapshots).  The contract of the trait (snapshots nest, mutations do not touch saved
  snapshots) is the locale \<open>journaled_host\<close> of the theory Evm_Journal.
\<close>

section \<open>The trait\<close>

record 'h host_ops =
  h_balance :: "'h \<Rightarrow> address \<Rightarrow> bytes"
  h_nonce :: "'h \<Rightarrow> address \<Rightarrow> u64"
  h_code :: "'h \<Rightarrow> address \<Rightarrow> bytes"
  h_code_hash :: "'h \<Rightarrow> address \<Rightarrow> bytes"
  h_storage_load :: "'h \<Rightarrow> address \<Rightarrow> bytes \<Rightarrow> bytes"
  h_storage_store :: "'h \<Rightarrow> address \<Rightarrow> bytes \<Rightarrow> bytes \<Rightarrow> 'h"
  h_set_code :: "'h \<Rightarrow> address \<Rightarrow> bytes \<Rightarrow> 'h"
  h_inc_nonce :: "'h \<Rightarrow> address \<Rightarrow> (evm_error + u64) \<times> 'h"
  h_transfer :: "'h \<Rightarrow> address \<Rightarrow> address \<Rightarrow> bytes \<Rightarrow> (evm_error + unit) \<times> 'h"
  h_is_empty :: "'h \<Rightarrow> address \<Rightarrow> bool"
  h_destruct :: "'h \<Rightarrow> address \<Rightarrow> address \<Rightarrow> 'h"
  h_mark_created_this_tx :: "'h \<Rightarrow> address \<Rightarrow> 'h"
  h_was_created_this_tx :: "'h \<Rightarrow> address \<Rightarrow> bool"
  h_snapshot :: "'h \<Rightarrow> u64 \<times> 'h"
  h_revert_to :: "'h \<Rightarrow> u64 \<Rightarrow> 'h"
  h_commit :: "'h \<Rightarrow> u64 \<Rightarrow> 'h"

section \<open>MockHost\<close>

record mock_account =
  ma_balance :: bytes
  ma_nonce :: u64
  ma_code :: bytes
  ma_storage :: "(bytes \<times> bytes) list"

record mock_snapshot =
  ms_id :: u64
  ms_accounts :: "(address \<times> mock_account) list"
  ms_created_this_tx :: "address list"

text \<open>Hash maps and sets are association lists and lists, the latest entry first.\<close>

record mock_host =
  mh_accounts :: "(address \<times> mock_account) list"
  mh_created_this_tx :: "address list"
  mh_snapshots :: "mock_snapshot list"
  mh_next_snapshot_id :: u64

definition mock_default :: mock_account where
  "mock_default = \<lparr>ma_balance = u256_zero, ma_nonce = 0, ma_code = [], ma_storage = []\<rparr>"

definition mock_new :: mock_host where
  "mock_new = \<lparr>mh_accounts = [], mh_created_this_tx = [], mh_snapshots = [], mh_next_snapshot_id = 1\<rparr>"

text \<open>\<^verbatim>\<open>accounts.entry(addr).or_default()\<close>, then a change of the entry.\<close>

definition mock_entry :: "mock_host \<Rightarrow> address \<Rightarrow> (mock_account \<Rightarrow> mock_account) \<Rightarrow> mock_host" where
  "mock_entry h addr f =
     (let e = (case map_of (mh_accounts h) addr of None \<Rightarrow> mock_default | Some a \<Rightarrow> a)
      in h\<lparr>mh_accounts := (addr, f e) # mh_accounts h\<rparr>)"

definition mock_install_code :: "mock_host \<Rightarrow> address \<Rightarrow> bytes \<Rightarrow> mock_host" where
  "mock_install_code h addr cd = mock_entry h addr (\<lambda>a. a\<lparr>ma_code := cd\<rparr>)"

definition mock_credit :: "mock_host \<Rightarrow> address \<Rightarrow> bytes \<Rightarrow> mock_host" where
  "mock_credit h addr v = mock_entry h addr (\<lambda>a. a\<lparr>ma_balance := u256_add (ma_balance a) v\<rparr>)"

definition mock_set_nonce :: "mock_host \<Rightarrow> address \<Rightarrow> u64 \<Rightarrow> mock_host" where
  "mock_set_nonce h addr n = mock_entry h addr (\<lambda>a. a\<lparr>ma_nonce := n\<rparr>)"

definition mock_balance :: "mock_host \<Rightarrow> address \<Rightarrow> bytes" where
  "mock_balance h addr = (case map_of (mh_accounts h) addr of None \<Rightarrow> u256_zero | Some a \<Rightarrow> ma_balance a)"

definition mock_nonce :: "mock_host \<Rightarrow> address \<Rightarrow> u64" where
  "mock_nonce h addr = (case map_of (mh_accounts h) addr of None \<Rightarrow> 0 | Some a \<Rightarrow> ma_nonce a)"

definition mock_code :: "mock_host \<Rightarrow> address \<Rightarrow> bytes" where
  "mock_code h addr = (case map_of (mh_accounts h) addr of None \<Rightarrow> [] | Some a \<Rightarrow> ma_code a)"

definition mock_code_hash :: "(bytes \<Rightarrow> bytes) \<Rightarrow> mock_host \<Rightarrow> address \<Rightarrow> bytes" where
  "mock_code_hash keccak256 h addr =
     (let cd = mock_code h addr in if cd = [] then u256_zero else keccak256 cd)"

definition mock_storage_load :: "mock_host \<Rightarrow> address \<Rightarrow> bytes \<Rightarrow> bytes" where
  "mock_storage_load h addr key =
     (case map_of (mh_accounts h) addr of
        None \<Rightarrow> u256_zero
      | Some a \<Rightarrow> (case map_of (ma_storage a) key of None \<Rightarrow> u256_zero | Some v \<Rightarrow> v))"

definition mock_storage_store :: "mock_host \<Rightarrow> address \<Rightarrow> bytes \<Rightarrow> bytes \<Rightarrow> mock_host" where
  "mock_storage_store h addr key v = mock_entry h addr (\<lambda>a. a\<lparr>ma_storage := (key, v) # ma_storage a\<rparr>)"

definition mock_set_code :: "mock_host \<Rightarrow> address \<Rightarrow> bytes \<Rightarrow> mock_host" where
  "mock_set_code h addr cd = mock_entry h addr (\<lambda>a. a\<lparr>ma_code := cd\<rparr>)"

definition mock_inc_nonce :: "mock_host \<Rightarrow> address \<Rightarrow> (evm_error + u64) \<times> mock_host" where
  "mock_inc_nonce h addr =
     (let n = mock_nonce h addr in
      if n = - 1 then (Inl NonceOverflow, mock_entry h addr (\<lambda>a. a))
      else (Inr (n + 1), mock_entry h addr (\<lambda>a. a\<lparr>ma_nonce := n + 1\<rparr>)))"

text \<open>The new balances are computed from the old state before either is written.\<close>

definition mock_transfer :: "mock_host \<Rightarrow> address \<Rightarrow> address \<Rightarrow> bytes \<Rightarrow> (evm_error + unit) \<times> mock_host" where
  "mock_transfer h src dst v =
     (if v = u256_zero then (Inr (), h)
      else
       (let from_bal = mock_balance h src in
        if bytes_less from_bal v then (Inl InsufficientBalance, h)
        else
         (let new_from_bal = u256_sub from_bal v;
              to_bal = mock_balance h dst;
              new_to_bal = u256_add to_bal v;
              h1 = mock_entry h src (\<lambda>a. a\<lparr>ma_balance := new_from_bal\<rparr>);
              h2 = mock_entry h1 dst (\<lambda>a. a\<lparr>ma_balance := new_to_bal\<rparr>)
          in (Inr (), h2))))"

definition mock_is_empty :: "mock_host \<Rightarrow> address \<Rightarrow> bool" where
  "mock_is_empty h addr =
     (case map_of (mh_accounts h) addr of
        None \<Rightarrow> True
      | Some a \<Rightarrow> ma_nonce a = 0 \<and> ma_balance a = u256_zero \<and> ma_code a = [])"

definition mock_was_created_this_tx :: "mock_host \<Rightarrow> address \<Rightarrow> bool" where
  "mock_was_created_this_tx h addr \<longleftrightarrow> addr \<in> set (mh_created_this_tx h)"

definition mock_mark_created_this_tx :: "mock_host \<Rightarrow> address \<Rightarrow> mock_host" where
  "mock_mark_created_this_tx h addr = h\<lparr>mh_created_this_tx := addr # mh_created_this_tx h\<rparr>"

definition mock_destruct :: "mock_host \<Rightarrow> address \<Rightarrow> address \<Rightarrow> mock_host" where
  "mock_destruct h addr beneficiary =
     (let bal = mock_balance h addr;
          h1 = (if bal \<noteq> u256_zero \<and> addr \<noteq> beneficiary then snd (mock_transfer h addr beneficiary bal) else h)
      in if mock_was_created_this_tx h1 addr then
           (case map_of (mh_accounts h1) addr of
              None \<Rightarrow> h1
            | Some a \<Rightarrow> h1\<lparr>mh_accounts := (addr, mock_default) # mh_accounts h1\<rparr>)
         else h1)"

text \<open>The snapshot vector grows at its end; here the latest snapshot is the head.\<close>

definition mock_do_snapshot :: "mock_host \<Rightarrow> u64 \<times> mock_host" where
  "mock_do_snapshot h =
     (let sid = mh_next_snapshot_id h in
      (sid, h\<lparr>mh_next_snapshot_id := sid + 1,
              mh_snapshots := \<lparr>ms_id = sid, ms_accounts = mh_accounts h,
                 ms_created_this_tx = mh_created_this_tx h\<rparr> # mh_snapshots h\<rparr>))"

definition mock_revert_to :: "mock_host \<Rightarrow> u64 \<Rightarrow> mock_host" where
  "mock_revert_to h sid =
     (case dropWhile (\<lambda>s. ms_id s \<noteq> sid) (mh_snapshots h) of
        [] \<Rightarrow> h
      | snap # below \<Rightarrow> h\<lparr>mh_snapshots := below, mh_accounts := ms_accounts snap,
            mh_created_this_tx := ms_created_this_tx snap\<rparr>)"

definition mock_commit :: "mock_host \<Rightarrow> u64 \<Rightarrow> mock_host" where
  "mock_commit h sid =
     h\<lparr>mh_snapshots := takeWhile (\<lambda>s. ms_id s \<noteq> sid) (mh_snapshots h)
         @ drop 1 (dropWhile (\<lambda>s. ms_id s \<noteq> sid) (mh_snapshots h))\<rparr>"

definition mock_ops :: "(bytes \<Rightarrow> bytes) \<Rightarrow> mock_host host_ops" where
  "mock_ops keccak256 = \<lparr>
     h_balance = mock_balance, h_nonce = mock_nonce, h_code = mock_code,
     h_code_hash = mock_code_hash keccak256, h_storage_load = mock_storage_load,
     h_storage_store = mock_storage_store, h_set_code = mock_set_code,
     h_inc_nonce = mock_inc_nonce, h_transfer = mock_transfer, h_is_empty = mock_is_empty,
     h_destruct = mock_destruct, h_mark_created_this_tx = mock_mark_created_this_tx,
     h_was_created_this_tx = mock_was_created_this_tx, h_snapshot = mock_do_snapshot,
     h_revert_to = mock_revert_to, h_commit = mock_commit\<rparr>"

end
