(* ===== verification/Evm_Interp.thy ===== *)
theory Evm_Interp
  imports Evm_Host
begin

text \<open>
  \<^verbatim>\<open>zbx-evm/src/interpreter.rs\<close>: one call frame of the EVM.  The frame is the record \<open>evm\<close>; a method
  on \<^verbatim>\<open>&mut self\<close> is a state computation that keeps the state reached when it fails.  Keccak-256,
  the precompiled contracts and the host are arguments (the record \<open>evm_env\<close>).  A sub-call runs
  the interpreter on a fresh frame: \<open>step\<close> and the call handlers take the run of the sub-frame
  as an argument, and \<open>run\<close> ties the knot with a bound on the number of steps and nested calls.
\<close>

section \<open>State\<close>

datatype exit_status = Succeeded | Reverted | Failed evm_error

record evm_context =
  cx_caller :: address
  cx_callee :: address
  cx_value :: bytes
  cx_calldata :: bytes
  cx_gas_limit :: u64
  cx_is_static :: bool
  cx_block_number :: u64
  cx_timestamp :: u64
  cx_coinbase :: address
  cx_base_fee :: u64
  cx_chain_id :: u64

definition CHAIN_ID :: u64 where
  "CHAIN_ID = 8989"

definition effective_chain_id :: "evm_context \<Rightarrow> u64" where
  "effective_chain_id c = (if cx_chain_id c = 0 then CHAIN_ID else cx_chain_id c)"

definition MAX_RETURN_DATA :: nat where
  "MAX_RETURN_DATA = 1024 * 1024"

record evm_log =
  lg_address :: address
  lg_topics :: "bytes list"
  lg_data :: bytes

record call_frame =
  cf_snapshot :: u64
  cf_gas_at_entry :: u64
  cf_created_address :: "address option"

datatype call_kind = Call | CallCode | DelegateCall | StaticCall

record 'h evm =
  ev_ctx :: evm_context
  ev_code :: bytes
  ev_jumpdests :: bytes
  ev_pc :: nat
  ev_stack :: "bytes list"
  ev_memory :: bytes
  ev_gas_remaining :: u64
  ev_return_data :: bytes
  ev_host :: 'h
  ev_frames :: "call_frame list"
  ev_warm_addresses :: "address set"
  ev_warm_storage :: "(address \<times> bytes) set"
  ev_logs :: "evm_log list"

record 'h evm_env =
  en_host :: "'h host_ops"
  en_keccak256 :: "bytes \<Rightarrow> bytes"
  en_precompile :: "'h \<Rightarrow> u64 \<Rightarrow> address \<Rightarrow> bytes \<Rightarrow> u64 \<Rightarrow> (bytes \<times> u64) option"

text \<open>The interpreter on MockHost, the host that the block executor and the RPC server hand to it.\<close>

definition mock_env :: "(bytes \<Rightarrow> bytes) \<Rightarrow> (mock_host \<Rightarrow> u64 \<Rightarrow> address \<Rightarrow> bytes \<Rightarrow> u64 \<Rightarrow> (bytes \<times> u64) option) \<Rightarrow>
    mock_host evm_env" where
  "mock_env keccak256 precompile =
     \<lparr>en_host = mock_ops keccak256, en_keccak256 = keccak256, en_precompile = precompile\<rparr>"

type_synonym ('h, 'a) evm_st = "('h evm, evm_error, 'a) st"

section \<open>Jump destinations\<close>

function jumpdest_loop :: "bytes \<Rightarrow> nat \<Rightarrow> bytes \<Rightarrow> bytes" where
  "jumpdest_loop code pc bm =
     (if pc < length code then
        (let op = code ! pc in
         if op = 0x5b then jumpdest_loop code (pc + 1) (bm[pc div 8 := bm ! (pc div 8) OR push_bit (pc mod 8) 1])
         else if 0x60 \<le> op \<and> op \<le> 0x7f then jumpdest_loop code (pc + (1 + unat (op - 0x5f))) bm
         else jumpdest_loop code (pc + 1) bm)
      else bm)"
  by pat_completeness auto
termination
  by (relation "measure (\<lambda>(code, pc, bm). length code - pc)") auto

declare jumpdest_loop.simps [simp del]

definition build_jumpdest_bitmap :: "bytes \<Rightarrow> bytes" where
  "build_jumpdest_bitmap code = jumpdest_loop code 0 (replicate ((length code + 7) div 8) 0)"

definition is_valid_jumpdest :: "'h evm \<Rightarrow> nat \<Rightarrow> bool" where
  "is_valid_jumpdest s dest \<longleftrightarrow>
     dest < length (ev_code s) \<and> (ev_jumpdests s ! (dest div 8)) AND push_bit (dest mod 8) 1 \<noteq> 0"

section \<open>Construction\<close>

definition precompile_address :: "byte \<Rightarrow> address" where
  "precompile_address i = replicate 19 0 @ [i]"

definition evm_new :: "evm_context \<Rightarrow> bytes \<Rightarrow> 'h \<Rightarrow> 'h evm" where
  "evm_new c code h = \<lparr>
     ev_ctx = c, ev_code = code, ev_jumpdests = build_jumpdest_bitmap code, ev_pc = 0, ev_stack = [],
     ev_memory = [], ev_gas_remaining = cx_gas_limit c, ev_return_data = [], ev_host = h, ev_frames = [],
     ev_warm_addresses = {cx_caller c, cx_callee c, cx_coinbase c}
        \<union> set (map precompile_address [1, 2, 3, 4, 5, 6, 7, 8, 9]),
     ev_warm_storage = {}, ev_logs = []\<rparr>"

definition gas_used :: "'h evm \<Rightarrow> u64" where
  "gas_used s = sat_sub64 (cx_gas_limit (ev_ctx s)) (ev_gas_remaining s)"

section \<open>Primitive operations on the frame\<close>

definition consume_gas :: "u64 \<Rightarrow> ('h, unit) evm_st" where
  "consume_gas amount s =
     (if ev_gas_remaining s < amount then (Inl (Err OutOfGas), s)
      else (Inr (), s\<lparr>ev_gas_remaining := ev_gas_remaining s - amount\<rparr>))"

definition refund_gas :: "u64 \<Rightarrow> ('h, unit) evm_st" where
  "refund_gas amount = smod (\<lambda>s. s\<lparr>ev_gas_remaining := sat_add64 (ev_gas_remaining s) amount\<rparr>)"

text \<open>The stack vector grows at its end; here the top is the head of the list.\<close>

definition MAX_STACK :: nat where
  "MAX_STACK = 1024"

definition stack_push :: "bytes \<Rightarrow> ('h, unit) evm_st" where
  "stack_push v s =
     (if length (ev_stack s) \<ge> MAX_STACK then (Inl (Err StackOverflow), s)
      else (Inr (), s\<lparr>ev_stack := v # ev_stack s\<rparr>))"

definition stack_pop :: "('h, bytes) evm_st" where
  "stack_pop s =
     (case ev_stack s of [] \<Rightarrow> (Inl (Err StackUnderflow), s) | v # vs \<Rightarrow> (Inr v, s\<lparr>ev_stack := vs\<rparr>))"

definition stack_peek :: "nat \<Rightarrow> ('h, bytes) evm_st" where
  "stack_peek depth s =
     (if depth \<ge> length (ev_stack s) then (Inl (Err StackUnderflow), s) else (Inr (ev_stack s ! depth), s))"

definition stack_swap :: "nat \<Rightarrow> ('h, unit) evm_st" where
  "stack_swap depth s =
     (if depth \<ge> length (ev_stack s) then (Inl (Err StackUnderflow), s)
      else (Inr (), s\<lparr>ev_stack := (ev_stack s)[0 := ev_stack s ! depth, depth := ev_stack s ! 0]\<rparr>))"

definition stack_dup :: "nat \<Rightarrow> ('h, unit) evm_st" where
  "stack_dup depth = sbind (stack_peek (depth - 1)) stack_push"

definition pop_address :: "('h, address) evm_st" where
  "pop_address = sbind stack_pop (\<lambda>w. sret (drop 12 w))"

definition pop_u64_capped :: "('h, u64) evm_st" where
  "pop_u64_capped = sbind stack_pop (\<lambda>w. sret (u256_to_u64 w))"

definition pop_usize :: "('h, nat) evm_st" where
  "pop_usize = sbind pop_u64_capped (\<lambda>v. sret (unat v))"

text \<open>\<open>self.memory.ensure(offset, size)?\<close> followed by \<open>self.consume_gas(cost)?\<close>.\<close>

definition ensure_paid :: "nat \<Rightarrow> nat \<Rightarrow> ('h, unit) evm_st" where
  "ensure_paid offset sz s =
     (case mem_ensure offset sz (ev_memory s) of
        (Inl e, m) \<Rightarrow> (Inl e, s\<lparr>ev_memory := m\<rparr>)
      | (Inr cost, m) \<Rightarrow> consume_gas cost (s\<lparr>ev_memory := m\<rparr>))"

definition memory_write :: "nat \<Rightarrow> bytes \<Rightarrow> ('h, unit) evm_st" where
  "memory_write offset new s =
     (case mem_write offset new (ev_memory s) of
        Inl e \<Rightarrow> (Inl e, s)
      | Inr m \<Rightarrow> (Inr (), s\<lparr>ev_memory := m\<rparr>))"

definition memory_read :: "nat \<Rightarrow> nat \<Rightarrow> ('h, bytes) evm_st" where
  "memory_read offset sz = sget (\<lambda>s. mem_read (ev_memory s) offset sz)"

text \<open>EIP-2929: pay once for the first access to an address or a storage slot.\<close>

definition touch_address :: "address \<Rightarrow> ('h, unit) evm_st" where
  "touch_address addr s =
     (if addr \<in> ev_warm_addresses s then (Inr (), s)
      else then_st (consume_gas GAS_COLD_ACCOUNT_ACCESS)
             (smod (\<lambda>s. s\<lparr>ev_warm_addresses := insert addr (ev_warm_addresses s)\<rparr>)) s)"

definition touch_slot :: "bytes \<Rightarrow> ('h, unit) evm_st" where
  "touch_slot key s =
     (let slot = (cx_callee (ev_ctx s), key) in
      if slot \<in> ev_warm_storage s then (Inr (), s)
      else then_st (consume_gas (sat_sub64 GAS_SLOAD_COLD GAS_SLOAD_WARM))
             (smod (\<lambda>s. s\<lparr>ev_warm_storage := insert slot (ev_warm_storage s)\<rparr>)) s)"

section \<open>Instruction handlers\<close>

text \<open>A handler falls through to the increment of the program counter, or returns early after
  a jump or with an exit status.\<close>

datatype flow = Fall | Jumped | Exit exit_status

definition fall :: "('h, unit) evm_st \<Rightarrow> ('h, flow) evm_st" where
  "fall m = then_st m (sret Fall)"

definition word_of_bool :: "bool \<Rightarrow> bytes" where
  "word_of_bool b = u256_from_u64 (if b then 1 else 0)"

definition address_word :: "address \<Rightarrow> bytes" where
  "address_word a = replicate 12 0 @ a"

definition alu1 :: "byte \<Rightarrow> (bytes \<Rightarrow> bytes) option" where
  "alu1 = map_of [(0x15, \<lambda>a. word_of_bool (u256_is_zero a)), (0x19, u256_not)]"

definition alu2 :: "byte \<Rightarrow> (bytes \<Rightarrow> bytes \<Rightarrow> bytes) option" where
  "alu2 = map_of
    [(0x01, u256_add), (0x02, u256_mul), (0x03, u256_sub), (0x04, u256_div), (0x05, u256_sdiv),
     (0x06, u256_mod), (0x07, u256_smod), (0x0b, u256_signextend),
     (0x10, \<lambda>a b. word_of_bool (bytes_less a b)), (0x11, \<lambda>a b. word_of_bool (u256_gt a b)),
     (0x12, \<lambda>a b. word_of_bool (u256_slt a b)), (0x13, \<lambda>a b. word_of_bool (u256_sgt a b)),
     (0x14, \<lambda>a b. word_of_bool (a = b)),
     (0x16, u256_and), (0x17, u256_or), (0x18, u256_xor), (0x1a, u256_byte),
     (0x1b, u256_shl), (0x1c, u256_shr), (0x1d, u256_sar)]"

definition alu3 :: "byte \<Rightarrow> (bytes \<Rightarrow> bytes \<Rightarrow> bytes \<Rightarrow> bytes) option" where
  "alu3 = map_of [(0x08, u256_addmod), (0x09, u256_mulmod)]"

definition op_exp :: "('h, unit) evm_st" where
  "op_exp =
     sbind stack_pop (\<lambda>base. sbind stack_pop (\<lambda>e.
       then_st (consume_gas (10 + 50 * of_nat (u256_byte_len e))) (stack_push (u256_exp base e))))"

definition op_sha3 :: "'h evm_env \<Rightarrow> ('h, unit) evm_st" where
  "op_sha3 E =
     sbind pop_usize (\<lambda>offset. sbind pop_usize (\<lambda>sz.
       then_st (ensure_paid offset sz) (then_st (consume_gas (sha3_cost (of_nat sz)))
        (sbind (memory_read offset sz) (\<lambda>data. stack_push (en_keccak256 E data))))))"

text \<open>Reads of the context that take no operand.\<close>

definition context_word :: "'h evm_env \<Rightarrow> byte \<Rightarrow> ('h evm \<Rightarrow> bytes) option" where
  "context_word E = map_of
    [(0x30, \<lambda>s. address_word (cx_callee (ev_ctx s))),
     (0x32, \<lambda>s. address_word (cx_caller (ev_ctx s))),
     (0x33, \<lambda>s. address_word (cx_caller (ev_ctx s))),
     (0x34, \<lambda>s. cx_value (ev_ctx s)),
     (0x36, \<lambda>s. u256_from_u64 (of_nat (length (cx_calldata (ev_ctx s))))),
     (0x38, \<lambda>s. u256_from_u64 (of_nat (length (ev_code s)))),
     (0x3a, \<lambda>s. u256_from_u64 (cx_base_fee (ev_ctx s))),
     (0x3d, \<lambda>s. u256_from_u64 (of_nat (length (ev_return_data s)))),
     (0x41, \<lambda>s. address_word (cx_coinbase (ev_ctx s))),
     (0x42, \<lambda>s. u256_from_u64 (cx_timestamp (ev_ctx s))),
     (0x43, \<lambda>s. u256_from_u64 (cx_block_number (ev_ctx s))),
     (0x44, \<lambda>s. u256_from_u64 (cx_block_number (ev_ctx s) * 0x517cc1b727220a95)),
     (0x45, \<lambda>s. u256_from_u64 30000000),
     (0x46, \<lambda>s. u256_from_u64 (effective_chain_id (ev_ctx s))),
     (0x47, \<lambda>s. h_balance (en_host E) (ev_host s) (cx_callee (ev_ctx s))),
     (0x48, \<lambda>s. u256_from_u64 (cx_base_fee (ev_ctx s))),
     (0x58, \<lambda>s. u256_from_u64 (of_nat (ev_pc s))),
     (0x59, \<lambda>s. u256_from_u64 (of_nat (length (ev_memory s)))),
     (0x5a, \<lambda>s. u256_from_u64 (ev_gas_remaining s)),
     (0x5f, \<lambda>s. u256_zero)]"

definition op_balance :: "'h evm_env \<Rightarrow> ('h, unit) evm_st" where
  "op_balance E = sbind pop_address (\<lambda>addr. then_st (touch_address addr)
     (sbind (sget (\<lambda>s. h_balance (en_host E) (ev_host s) addr)) stack_push))"

definition op_extcodesize :: "'h evm_env \<Rightarrow> ('h, unit) evm_st" where
  "op_extcodesize E = sbind pop_address (\<lambda>addr. then_st (touch_address addr)
     (sbind (sget (\<lambda>s. u256_from_u64 (of_nat (length (h_code (en_host E) (ev_host s) addr))))) stack_push))"

definition op_extcodehash :: "'h evm_env \<Rightarrow> ('h, unit) evm_st" where
  "op_extcodehash E = sbind pop_address (\<lambda>addr. then_st (touch_address addr)
     (sbind (sget (\<lambda>s. if h_is_empty (en_host E) (ev_host s) addr then u256_zero
                       else h_code_hash (en_host E) (ev_host s) addr)) stack_push))"

definition op_blockhash :: "('h, unit) evm_st" where
  "op_blockhash = then_st stack_pop (stack_push u256_zero)"

definition op_calldataload :: "('h, unit) evm_st" where
  "op_calldataload =
     sbind pop_usize (\<lambda>offset. sbind (sget (\<lambda>s. cx_calldata (ev_ctx s))) (\<lambda>data.
       let available = length data - offset; len = min available 32;
           w = take len (drop offset data) @ replicate (32 - len) 0
       in stack_push w))"

text \<open>The copy shared by CALLDATACOPY, CODECOPY and EXTCODECOPY; the slice panics when it starts
  behind the end of the data.\<close>

definition copy_to_memory :: "bytes \<Rightarrow> nat \<Rightarrow> nat \<Rightarrow> nat \<Rightarrow> ('h, unit) evm_st" where
  "copy_to_memory data dest src sz =
     then_st (ensure_paid dest sz) (then_st (consume_gas (copy_cost (of_nat sz)))
       (if sz > 0 then
         (let avail = length data - src; copy_len = min avail sz in
          sbind (slift (slice_chk data src (src + copy_len))) (\<lambda>chunk.
            memory_write dest (chunk @ replicate (sz - copy_len) 0)))
        else sret ()))"

definition op_calldatacopy :: "('h, unit) evm_st" where
  "op_calldatacopy = sbind pop_usize (\<lambda>dest. sbind pop_usize (\<lambda>src. sbind pop_usize (\<lambda>sz.
     sbind (sget (\<lambda>s. cx_calldata (ev_ctx s))) (\<lambda>data. copy_to_memory data dest src sz))))"

definition op_codecopy :: "('h, unit) evm_st" where
  "op_codecopy = sbind pop_usize (\<lambda>dest. sbind pop_usize (\<lambda>src. sbind pop_usize (\<lambda>sz.
     sbind (sget ev_code) (\<lambda>data. copy_to_memory data dest src sz))))"

definition op_extcodecopy :: "'h evm_env \<Rightarrow> ('h, unit) evm_st" where
  "op_extcodecopy E = sbind pop_address (\<lambda>addr.
     sbind pop_usize (\<lambda>dest. sbind pop_usize (\<lambda>src. sbind pop_usize (\<lambda>sz.
     then_st (touch_address addr)
       (sbind (sget (\<lambda>s. h_code (en_host E) (ev_host s) addr)) (\<lambda>data. copy_to_memory data dest src sz))))))"

definition op_returndatacopy :: "('h, unit) evm_st" where
  "op_returndatacopy = sbind pop_usize (\<lambda>dest. sbind pop_usize (\<lambda>off. sbind pop_usize (\<lambda>sz.
     sbind (sget ev_return_data) (\<lambda>rd.
       if off + sz \<ge> 2 ^ 64 \<or> off + sz > length rd then sfail (Err (MemoryOutOfBounds off sz))
       else then_st (ensure_paid dest sz) (then_st (consume_gas (3 * ((of_nat sz + 31) div 32)))
         (if sz > 0 then sbind (slift (slice_chk rd off (off + sz))) (memory_write dest) else sret ()))))))"

definition op_mload :: "('h, unit) evm_st" where
  "op_mload = sbind pop_usize (\<lambda>offset. then_st (ensure_paid offset 32)
     (sbind (memory_read offset 32) stack_push))"

definition op_mstore :: "('h, unit) evm_st" where
  "op_mstore = sbind pop_usize (\<lambda>offset. sbind stack_pop (\<lambda>val. then_st (ensure_paid offset 32)
     (memory_write offset val)))"

definition op_mstore8 :: "('h, unit) evm_st" where
  "op_mstore8 = sbind pop_usize (\<lambda>offset. sbind stack_pop (\<lambda>val. then_st (ensure_paid offset 1)
     (memory_write offset [val ! 31])))"

definition op_sload :: "'h evm_env \<Rightarrow> ('h, unit) evm_st" where
  "op_sload E = sbind stack_pop (\<lambda>key. then_st (touch_slot key)
     (sbind (sget (\<lambda>s. h_storage_load (en_host E) (ev_host s) (cx_callee (ev_ctx s)) key)) stack_push))"

definition guard_static :: "('h, unit) evm_st" where
  "guard_static s = (if cx_is_static (ev_ctx s) then (Inl (Err StaticStateChange), s) else (Inr (), s))"

definition op_sstore :: "'h evm_env \<Rightarrow> ('h, unit) evm_st" where
  "op_sstore E = then_st guard_static (sbind stack_pop (\<lambda>key. sbind stack_pop (\<lambda>v.
     sbind (sget (\<lambda>s. h_storage_load (en_host E) (ev_host s) (cx_callee (ev_ctx s)) key)) (\<lambda>current.
     then_st (touch_slot key)
      (then_st
        (if current \<noteq> v then
           (if u256_is_zero current \<and> \<not> u256_is_zero v then consume_gas GAS_SSTORE_SET
            else consume_gas GAS_SSTORE_RESET)
         else sret ())
        (smod (\<lambda>s. s\<lparr>ev_host := h_storage_store (en_host E) (ev_host s) (cx_callee (ev_ctx s)) key v\<rparr>)))))))"

definition op_jump :: "('h, flow) evm_st" where
  "op_jump = sbind pop_usize (\<lambda>dest. sbind (sget (\<lambda>s. is_valid_jumpdest s dest)) (\<lambda>ok.
     if \<not> ok then sfail (Err (InvalidJump dest))
     else then_st (smod (\<lambda>s. s\<lparr>ev_pc := dest\<rparr>)) (sret Jumped)))"

definition op_jumpi :: "('h, flow) evm_st" where
  "op_jumpi = sbind pop_usize (\<lambda>dest. sbind stack_pop (\<lambda>cond.
     if \<not> u256_is_zero cond then
       sbind (sget (\<lambda>s. is_valid_jumpdest s dest)) (\<lambda>ok.
         if \<not> ok then sfail (Err (InvalidJump dest))
         else then_st (smod (\<lambda>s. s\<lparr>ev_pc := dest\<rparr>)) (sret Jumped))
     else sret Fall))"

definition op_push :: "byte \<Rightarrow> ('h, unit) evm_st" where
  "op_push b =
     sbind (sget (\<lambda>s. (ev_pc s, ev_code s))) (\<lambda>(pc, code).
       let n = unat (b - 0x5f); start = pc + 1; stop = min (start + n) (length code);
           available = stop - start;
           v = replicate (32 - n) 0 @ take available (drop start code) @ replicate (n - available) 0
       in then_st (stack_push v) (smod (\<lambda>s. s\<lparr>ev_pc := ev_pc s + n\<rparr>)))"

primrec pop_many :: "nat \<Rightarrow> ('h, bytes list) evm_st" where
  "pop_many 0 = sret []"
| "pop_many (Suc n) = sbind stack_pop (\<lambda>t. sbind (pop_many n) (\<lambda>ts. sret (t # ts)))"

definition op_log :: "byte \<Rightarrow> ('h, unit) evm_st" where
  "op_log b = then_st guard_static
     (let topic_count = unat (b - 0xa0) in
      sbind pop_usize (\<lambda>offset. sbind pop_usize (\<lambda>sz. sbind (pop_many topic_count) (\<lambda>topics.
        then_st (ensure_paid offset sz) (then_st (consume_gas (log_cost (of_nat sz) (of_nat topic_count)))
          (sbind (memory_read offset sz) (\<lambda>data.
             smod (\<lambda>s. s\<lparr>ev_logs := ev_logs s @
               [\<lparr>lg_address = cx_callee (ev_ctx s), lg_topics = topics, lg_data = data\<rparr>]\<rparr>))))))))"

text \<open>RETURN and REVERT differ in the status only.\<close>

definition op_return :: "exit_status \<Rightarrow> ('h, flow) evm_st" where
  "op_return status = sbind pop_usize (\<lambda>offset. sbind pop_usize (\<lambda>sz.
     if sz > MAX_RETURN_DATA then sfail (Err (MemoryOutOfBounds offset sz))
     else then_st (ensure_paid offset sz) (sbind (memory_read offset sz) (\<lambda>data.
       then_st (smod (\<lambda>s. s\<lparr>ev_return_data := data\<rparr>)) (sret (Exit status))))))"

definition op_selfdestruct :: "'h evm_env \<Rightarrow> ('h, flow) evm_st" where
  "op_selfdestruct E = then_st guard_static (sbind pop_address (\<lambda>beneficiary.
     then_st (consume_gas GAS_SELFDESTRUCT) (then_st (touch_address beneficiary)
      (then_st (smod (\<lambda>s. s\<lparr>ev_host := h_destruct (en_host E) (ev_host s) (cx_callee (ev_ctx s)) beneficiary\<rparr>))
         (sret (Exit Succeeded))))))"

end
