(* ===== verification/Evm_Call.thy ===== *)
theory Evm_Call
  imports Evm_Interp
begin

text \<open>
  The CALL and CREATE families of \<^verbatim>\<open>interpreter.rs\<close> (\<open>do_call\<close>, \<open>do_create\<close>), the dispatch \<open>step\<close>
  and the loop \<open>run\<close>.  The long handlers are cut along their phases: operands, charges, entry,
  precompile or sub-frame, settlement.
\<close>

section \<open>Host access from a frame\<close>

definition host_get :: "('h \<Rightarrow> 'a) \<Rightarrow> ('h, 'a) evm_st" where
  "host_get f = sget (\<lambda>s. f (ev_host s))"

definition host_mod :: "('h \<Rightarrow> 'h) \<Rightarrow> ('h, unit) evm_st" where
  "host_mod f = smod (\<lambda>s. s\<lparr>ev_host := f (ev_host s)\<rparr>)"

definition host_call :: "('h \<Rightarrow> (evm_error + 'a) \<times> 'h) \<Rightarrow> ('h, 'a) evm_st" where
  "host_call f s =
     (case f (ev_host s) of
        (Inl e, h) \<Rightarrow> (Inl (Err e), s\<lparr>ev_host := h\<rparr>)
      | (Inr x, h) \<Rightarrow> (Inr x, s\<lparr>ev_host := h\<rparr>))"

text \<open>\<open>let _ = self.host.f(...)\<close>: the result is dropped.\<close>

definition host_ignore :: "('h \<Rightarrow> (evm_error + 'a) \<times> 'h) \<Rightarrow> ('h, unit) evm_st" where
  "host_ignore f = host_mod (\<lambda>h. snd (f h))"

definition take_snapshot :: "'h evm_env \<Rightarrow> ('h, u64) evm_st" where
  "take_snapshot E s = (case h_snapshot (en_host E) (ev_host s) of (sid, h) \<Rightarrow> (Inr sid, s\<lparr>ev_host := h\<rparr>))"

definition set_return_data :: "bytes \<Rightarrow> ('h, unit) evm_st" where
  "set_return_data d = smod (\<lambda>s. s\<lparr>ev_return_data := d\<rparr>)"

text \<open>A fresh interpreter on the sub-context with the parent's frames, one more frame and the
  parent's warm addresses; the parent takes over its host, warm addresses, return data and logs.\<close>

definition run_sub :: "('h, exit_status \<times> u64) evm_st \<Rightarrow> evm_context \<Rightarrow> bytes \<Rightarrow> call_frame \<Rightarrow>
    ('h, exit_status \<times> u64 \<times> bytes \<times> evm_log list) evm_st" where
  "run_sub RUN c code fr s =
     (let sub = (evm_new c code (ev_host s))\<lparr>ev_frames := fr # ev_frames s, ev_warm_addresses := ev_warm_addresses s\<rparr>
      in case RUN sub of
           (Inl e, t) \<Rightarrow> (Inl e, s\<lparr>ev_host := ev_host t\<rparr>)
         | (Inr (status, used), t) \<Rightarrow>
             (Inr (status, used, ev_return_data t, ev_logs t),
              s\<lparr>ev_host := ev_host t, ev_warm_addresses := ev_warm_addresses t\<rparr>))"

section \<open>The CALL family\<close>

record call_args =
  ca_gas_req :: u64
  ca_target :: address
  ca_value :: bytes
  ca_args_off :: nat
  ca_args_len :: nat
  ca_ret_off :: nat
  ca_ret_len :: nat

definition moves_value :: "call_kind \<Rightarrow> bytes \<Rightarrow> bool" where
  "moves_value kind v \<longleftrightarrow> (kind = Call \<or> kind = CallCode) \<and> \<not> u256_is_zero v"

definition call_operands :: "call_kind \<Rightarrow> ('h, call_args) evm_st" where
  "call_operands kind =
     sbind pop_u64_capped (\<lambda>gas_req. sbind pop_address (\<lambda>target.
     sbind (case kind of Call \<Rightarrow> stack_pop | CallCode \<Rightarrow> stack_pop
              | DelegateCall \<Rightarrow> sget (\<lambda>s. cx_value (ev_ctx s)) | StaticCall \<Rightarrow> sret u256_zero) (\<lambda>v.
     sbind (sget (\<lambda>s. cx_is_static (ev_ctx s))) (\<lambda>static.
     if static \<and> moves_value kind v then sfail (Err StaticStateChange)
     else
       sbind pop_usize (\<lambda>args_off. sbind pop_usize (\<lambda>args_len.
       sbind pop_usize (\<lambda>ret_off. sbind pop_usize (\<lambda>ret_len.
         sret \<lparr>ca_gas_req = gas_req, ca_target = target, ca_value = v, ca_args_off = args_off,
               ca_args_len = args_len, ca_ret_off = ret_off, ca_ret_len = ret_len\<rparr>))))))))"

definition call_charges :: "'h evm_env \<Rightarrow> call_kind \<Rightarrow> call_args \<Rightarrow> ('h, bytes) evm_st" where
  "call_charges E kind a =
     then_st (ensure_paid (ca_args_off a) (ca_args_len a))
     (sbind (memory_read (ca_args_off a) (ca_args_len a)) (\<lambda>calldata.
      then_st (touch_address (ca_target a))
      (then_st
        (if moves_value kind (ca_value a) then
           then_st (consume_gas GAS_CALL_VALUE_TRANSFER)
            (sbind (host_get (\<lambda>h. h_is_empty (en_host E) h (ca_target a))) (\<lambda>empty.
              if kind = Call \<and> empty then consume_gas GAS_NEW_ACCOUNT else sret ()))
         else sret ())
        (sret calldata))))"

definition push_zero_with_ret :: "call_args \<Rightarrow> ('h, unit) evm_st" where
  "push_zero_with_ret a =
     then_st (set_return_data []) (then_st (ensure_paid (ca_ret_off a) (ca_ret_len a))
       (stack_push (u256_from_u64 0)))"

text \<open>Value transfer of a genuine CALL; \<open>False\<close> when the caller cannot pay, after the roll-back.\<close>

definition call_transfer :: "'h evm_env \<Rightarrow> call_kind \<Rightarrow> call_args \<Rightarrow> u64 \<Rightarrow> u64 \<Rightarrow> ('h, bool) evm_st" where
  "call_transfer E kind a snap billed =
     (if kind = Call \<and> moves_value kind (ca_value a) then
        sbind (sget (\<lambda>s. cx_callee (ev_ctx s))) (\<lambda>me.
        sbind (host_get (\<lambda>h. h_balance (en_host E) h me)) (\<lambda>from_bal.
          if bytes_less from_bal (ca_value a) then
            then_st (host_mod (\<lambda>h. h_revert_to (en_host E) h snap))
             (then_st (refund_gas billed) (sret False))
          else then_st (host_ignore (\<lambda>h. h_transfer (en_host E) h me (ca_target a) (ca_value a))) (sret True)))
      else sret True)"

definition is_precompile :: "address \<Rightarrow> bool" where
  "is_precompile addr \<longleftrightarrow> (\<forall>x\<in>set (take 19 addr). x = 0) \<and> addr ! 19 \<ge> 1 \<and> addr ! 19 \<le> 0x0f"

text \<open>Unused gas goes back to the caller, at most what the caller was billed.\<close>

definition unused_gas :: "u64 \<Rightarrow> u64 \<Rightarrow> u64 \<Rightarrow> u64" where
  "unused_gas forwarded used billed = min (sat_sub64 forwarded used) billed"

definition call_precompiled :: "'h evm_env \<Rightarrow> call_args \<Rightarrow> bytes \<Rightarrow> u64 \<Rightarrow> u64 \<Rightarrow> u64 \<Rightarrow> ('h, unit) evm_st" where
  "call_precompiled E a calldata billed forwarded snap =
     sbind (sget (\<lambda>s. en_precompile E (ev_host s) (cx_timestamp (ev_ctx s)) (ca_target a) calldata forwarded)) (\<lambda>result.
     case result of
       Some (output, used) \<Rightarrow>
         then_st (host_mod (\<lambda>h. h_commit (en_host E) h snap))
         (then_st (set_return_data output)
         (then_st (ensure_paid (ca_ret_off a) (ca_ret_len a))
         (let copy = min (ca_ret_len a) (length output) in
          then_st (if copy > 0 then memory_write (ca_ret_off a) (take copy output) else sret ())
          (then_st (refund_gas (unused_gas forwarded used billed))
            (stack_push (u256_from_u64 1))))))
     | None \<Rightarrow>
         then_st (host_mod (\<lambda>h. h_revert_to (en_host E) h snap))
         (then_st (set_return_data [])
         (then_st (ensure_paid (ca_ret_off a) (ca_ret_len a))
           (stack_push (u256_from_u64 0)))))"

definition call_empty_code :: "'h evm_env \<Rightarrow> call_args \<Rightarrow> u64 \<Rightarrow> u64 \<Rightarrow> ('h, unit) evm_st" where
  "call_empty_code E a billed snap =
     then_st (host_mod (\<lambda>h. h_commit (en_host E) h snap))
     (then_st (set_return_data [])
     (then_st (ensure_paid (ca_ret_off a) (ca_ret_len a))
     (then_st (refund_gas billed)
       (stack_push (u256_from_u64 1)))))"

definition call_context :: "call_kind \<Rightarrow> call_args \<Rightarrow> bytes \<Rightarrow> u64 \<Rightarrow> evm_context \<Rightarrow> evm_context" where
  "call_context kind a calldata forwarded c =
     (case kind of
        Call \<Rightarrow> c\<lparr>cx_caller := cx_callee c, cx_callee := ca_target a, cx_value := ca_value a,
                  cx_calldata := calldata, cx_gas_limit := forwarded\<rparr>
      | CallCode \<Rightarrow> c\<lparr>cx_caller := cx_callee c, cx_value := ca_value a,
                  cx_calldata := calldata, cx_gas_limit := forwarded\<rparr>
      | DelegateCall \<Rightarrow> c\<lparr>cx_calldata := calldata, cx_gas_limit := forwarded\<rparr>
      | StaticCall \<Rightarrow> c\<lparr>cx_caller := cx_callee c, cx_callee := ca_target a, cx_value := u256_zero,
                  cx_calldata := calldata, cx_gas_limit := forwarded, cx_is_static := True\<rparr>)"

definition call_settle :: "'h evm_env \<Rightarrow> call_args \<Rightarrow> u64 \<Rightarrow> u64 \<Rightarrow> u64 \<Rightarrow>
    exit_status \<times> u64 \<times> bytes \<times> evm_log list \<Rightarrow> ('h, unit) evm_st" where
  "call_settle E a billed forwarded snap = (\<lambda>(status, used, sub_return, sub_logs).
     let success = (status = Succeeded) in
     then_st
       (if success then
          then_st (host_mod (\<lambda>h. h_commit (en_host E) h snap)) (smod (\<lambda>s. s\<lparr>ev_logs := ev_logs s @ sub_logs\<rparr>))
        else host_mod (\<lambda>h. h_revert_to (en_host E) h snap))
     (then_st (refund_gas (unused_gas forwarded used billed))
     (then_st (set_return_data sub_return)
     (then_st (ensure_paid (ca_ret_off a) (ca_ret_len a))
     (let copy = min (ca_ret_len a) (length sub_return) in
      then_st (if copy > 0 then memory_write (ca_ret_off a) (take copy sub_return) else sret ())
       (stack_push (u256_from_u64 (if success then 1 else 0))))))))"

definition call_dispatch :: "'h evm_env \<Rightarrow> ('h, exit_status \<times> u64) evm_st \<Rightarrow> call_kind \<Rightarrow> call_args \<Rightarrow>
    bytes \<Rightarrow> u64 \<Rightarrow> u64 \<Rightarrow> u64 \<Rightarrow> ('h, unit) evm_st" where
  "call_dispatch E RUN kind a calldata billed forwarded snap =
     (if is_precompile (ca_target a) then call_precompiled E a calldata billed forwarded snap
      else
        sbind (host_get (\<lambda>h. h_code (en_host E) h (ca_target a))) (\<lambda>target_code.
          if target_code = [] then call_empty_code E a billed snap
          else
            sbind (sget ev_ctx) (\<lambda>c.
            sbind (run_sub RUN (call_context kind a calldata forwarded c) target_code
                    \<lparr>cf_snapshot = snap, cf_gas_at_entry = forwarded, cf_created_address = None\<rparr>)
              (call_settle E a billed forwarded snap))))"

definition call_enter :: "'h evm_env \<Rightarrow> ('h, exit_status \<times> u64) evm_st \<Rightarrow> call_kind \<Rightarrow> call_args \<Rightarrow>
    bytes \<Rightarrow> ('h, unit) evm_st" where
  "call_enter E RUN kind a calldata =
     sbind (sget (\<lambda>s. length (ev_frames s))) (\<lambda>depth.
     if depth \<ge> CALL_DEPTH_LIMIT then push_zero_with_ret a
     else
       sbind (sget (\<lambda>s. forward_gas_eip150 (ev_gas_remaining s) (ca_gas_req a))) (\<lambda>billed.
       let stipend = (if moves_value kind (ca_value a) then GAS_CALL_STIPEND else 0);
           forwarded = sat_add64 billed stipend in
       then_st (consume_gas billed)
        (sbind (take_snapshot E) (\<lambda>snap.
         sbind (call_transfer E kind a snap billed) (\<lambda>ok.
           if \<not> ok then push_zero_with_ret a
           else call_dispatch E RUN kind a calldata billed forwarded snap)))))"

definition do_call :: "'h evm_env \<Rightarrow> ('h, exit_status \<times> u64) evm_st \<Rightarrow> call_kind \<Rightarrow> ('h, unit) evm_st" where
  "do_call E RUN kind =
     sbind (call_operands kind) (\<lambda>a. sbind (call_charges E kind a) (call_enter E RUN kind a))"

section \<open>The CREATE family\<close>

definition rlp_encode_u64 :: "u64 \<Rightarrow> bytes" where
  "rlp_encode_u64 n =
     (if n = 0 then [0x80]
      else if n < 0x80 then [ucast n]
      else
       (let trimmed = dropWhile (\<lambda>b. b = 0) (be_bytes 8 (unat n))
        in (0x80 + of_nat (length trimmed)) # trimmed))"

definition create_address :: "'h evm_env \<Rightarrow> address \<Rightarrow> u64 \<Rightarrow> address" where
  "create_address E sender nonce =
     (let payload = 0x94 # sender @ rlp_encode_u64 nonce;
          full = (0xc0 + of_nat (length payload)) # payload
      in drop 12 (en_keccak256 E full))"

definition create2_address :: "'h evm_env \<Rightarrow> address \<Rightarrow> bytes \<Rightarrow> bytes \<Rightarrow> address" where
  "create2_address E sender salt initcode =
     drop 12 (en_keccak256 E (0xff # sender @ salt @ en_keccak256 E initcode))"

definition push_zero :: "('h, unit) evm_st" where
  "push_zero = then_st (set_return_data []) (stack_push u256_zero)"

text \<open>Operands, initcode limits and charges; the initcode read from memory.\<close>

definition create_charges :: "bool \<Rightarrow> ('h, bytes \<times> bytes \<times> bytes option) evm_st" where
  "create_charges with_salt =
     then_st guard_static (sbind stack_pop (\<lambda>v. sbind pop_usize (\<lambda>off. sbind pop_usize (\<lambda>len.
     sbind (if with_salt then sbind stack_pop (\<lambda>w. sret (Some w)) else sret None) (\<lambda>salt_opt.
     if len > MAX_INITCODE_SIZE then sfail (Err (InitcodeOversize len))
     else
       then_st (ensure_paid off len)
       (let initcode_words = (of_nat len + 31) div 32 in
        then_st (consume_gas (GAS_INITCODE_WORD * initcode_words))
        (then_st (if with_salt then consume_gas (6 * initcode_words) else sret ())
         (sbind (memory_read off len) (\<lambda>initcode. sret (v, initcode, salt_opt))))))))))"

definition create_fail :: "'h evm_env \<Rightarrow> u64 \<Rightarrow> bytes \<Rightarrow> ('h, unit) evm_st" where
  "create_fail E snap data =
     then_st (host_mod (\<lambda>h. h_revert_to (en_host E) h snap))
     (then_st (set_return_data data) (stack_push u256_zero))"

definition create_settle :: "'h evm_env \<Rightarrow> address \<Rightarrow> u64 \<Rightarrow> u64 \<Rightarrow>
    exit_status \<times> u64 \<times> bytes \<times> evm_log list \<Rightarrow> ('h, unit) evm_st" where
  "create_settle E new_addr forwarded snap = (\<lambda>(status, used, deployed_code, sub_logs).
     then_st (refund_gas (sat_sub64 forwarded used))
     (if status \<noteq> Succeeded then create_fail E snap deployed_code
      else if length deployed_code > MAX_CONTRACT_CODE_SIZE then create_fail E snap []
      else if deployed_code \<noteq> [] \<and> hd deployed_code = 0xef then create_fail E snap []
      else
        (let deposit_cost = GAS_CODE_DEPOSIT_PER_BYTE * of_nat (length deployed_code) in
         sbind (sget ev_gas_remaining) (\<lambda>g.
         if g < deposit_cost then create_fail E snap []
         else
           then_st (consume_gas deposit_cost)
           (then_st (host_mod (\<lambda>h. h_set_code (en_host E) h new_addr deployed_code))
           (then_st (host_mod (\<lambda>h. h_commit (en_host E) h snap))
           (then_st (smod (\<lambda>s. s\<lparr>ev_logs := ev_logs s @ sub_logs\<rparr>))
           (then_st (set_return_data []) (stack_push (address_word new_addr))))))))))"

definition create_context :: "address \<Rightarrow> bytes \<Rightarrow> u64 \<Rightarrow> evm_context \<Rightarrow> evm_context" where
  "create_context new_addr v forwarded c =
     c\<lparr>cx_caller := cx_callee c, cx_callee := new_addr, cx_value := v, cx_calldata := [],
       cx_gas_limit := forwarded, cx_is_static := False\<rparr>"

definition create_enter :: "'h evm_env \<Rightarrow> ('h, exit_status \<times> u64) evm_st \<Rightarrow> address \<Rightarrow> bytes \<Rightarrow>
    bytes \<Rightarrow> address \<Rightarrow> ('h, unit) evm_st" where
  "create_enter E RUN me v initcode new_addr =
     sbind (take_snapshot E) (\<lambda>snap.
     then_st (if \<not> u256_is_zero v then host_ignore (\<lambda>h. h_transfer (en_host E) h me new_addr v) else sret ())
     (then_st (host_call (\<lambda>h. h_inc_nonce (en_host E) h new_addr))
     (then_st (host_mod (\<lambda>h. h_mark_created_this_tx (en_host E) h new_addr))
     (sbind (sget (\<lambda>s. forward_gas_eip150 (ev_gas_remaining s) (ev_gas_remaining s))) (\<lambda>forwarded.
      then_st (consume_gas forwarded)
      (sbind (sget ev_ctx) (\<lambda>c.
       sbind (run_sub RUN (create_context new_addr v forwarded c) initcode
               \<lparr>cf_snapshot = snap, cf_gas_at_entry = forwarded, cf_created_address = Some new_addr\<rparr>)
         (create_settle E new_addr forwarded snap))))))))"

definition create_attempt :: "'h evm_env \<Rightarrow> ('h, exit_status \<times> u64) evm_st \<Rightarrow> nat \<Rightarrow> address \<Rightarrow>
    bytes \<Rightarrow> bytes \<Rightarrow> bytes option \<Rightarrow> ('h, unit) evm_st" where
  "create_attempt E RUN depth me v initcode salt_opt =
     (if depth \<ge> CALL_DEPTH_LIMIT then push_zero
      else
        sbind (host_get (\<lambda>h. h_balance (en_host E) h me)) (\<lambda>from_bal.
        if bytes_less from_bal v then push_zero
        else
          sbind (host_get (\<lambda>h. case salt_opt of
                   Some salt \<Rightarrow> create2_address E me salt initcode
                 | None \<Rightarrow> create_address E me (h_nonce (en_host E) h me))) (\<lambda>new_addr.
          then_st (host_call (\<lambda>h. h_inc_nonce (en_host E) h me))
          (sbind (host_get (\<lambda>h. h_nonce (en_host E) h new_addr > 0 \<or> h_code (en_host E) h new_addr \<noteq> [])) (\<lambda>collision.
           if collision then push_zero
           else create_enter E RUN me v initcode new_addr)))))"

definition do_create :: "'h evm_env \<Rightarrow> ('h, exit_status \<times> u64) evm_st \<Rightarrow> bool \<Rightarrow> ('h, unit) evm_st" where
  "do_create E RUN with_salt =
     sbind (create_charges with_salt) (\<lambda>(v, initcode, salt_opt).
     sbind (sget (\<lambda>s. (length (ev_frames s), cx_callee (ev_ctx s)))) (\<lambda>(depth, me).
     create_attempt E RUN depth me v initcode salt_opt))"

section \<open>Dispatch and loop\<close>

definition execute :: "'h evm_env \<Rightarrow> ('h, exit_status \<times> u64) evm_st \<Rightarrow> byte \<Rightarrow> ('h, flow) evm_st" where
  "execute E RUN b =
     (case alu1 b of Some f \<Rightarrow> fall (sbind stack_pop (\<lambda>x. stack_push (f x))) | None \<Rightarrow>
      case alu2 b of Some f \<Rightarrow> fall (sbind stack_pop (\<lambda>x. sbind stack_pop (\<lambda>y. stack_push (f x y)))) | None \<Rightarrow>
      case alu3 b of Some f \<Rightarrow>
        fall (sbind stack_pop (\<lambda>x. sbind stack_pop (\<lambda>y. sbind stack_pop (\<lambda>z. stack_push (f x y z))))) | None \<Rightarrow>
      case context_word E b of Some f \<Rightarrow> fall (sbind (sget f) stack_push) | None \<Rightarrow>
      if b = 0x00 then sret (Exit Succeeded)
      else if b = 0x0a then fall op_exp
      else if b = 0x20 then fall (op_sha3 E)
      else if b = 0x31 then fall (op_balance E)
      else if b = 0x35 then fall op_calldataload
      else if b = 0x37 then fall op_calldatacopy
      else if b = 0x39 then fall op_codecopy
      else if b = 0x3b then fall (op_extcodesize E)
      else if b = 0x3c then fall (op_extcodecopy E)
      else if b = 0x3f then fall (op_extcodehash E)
      else if b = 0x3e then fall op_returndatacopy
      else if b = 0x40 then fall op_blockhash
      else if b = 0x50 then fall (then_st stack_pop (sret ()))
      else if b = 0x51 then fall op_mload
      else if b = 0x52 then fall op_mstore
      else if b = 0x53 then fall op_mstore8
      else if b = 0x54 then fall (op_sload E)
      else if b = 0x55 then fall (op_sstore E)
      else if b = 0x56 then op_jump
      else if b = 0x57 then op_jumpi
      else if b = 0x5b then sret Fall
      else if 0x60 \<le> b \<and> b \<le> 0x7f then fall (op_push b)
      else if 0x80 \<le> b \<and> b \<le> 0x8f then fall (stack_dup (unat (b - 0x7f)))
      else if 0x90 \<le> b \<and> b \<le> 0x9f then fall (stack_swap (unat (b - 0x8f)))
      else if 0xa0 \<le> b \<and> b \<le> 0xa4 then fall (op_log b)
      else if b = 0xf0 then fall (do_create E RUN False)
      else if b = 0xf1 then fall (do_call E RUN Call)
      else if b = 0xf2 then fall (do_call E RUN CallCode)
      else if b = 0xf3 then op_return Succeeded
      else if b = 0xf4 then fall (do_call E RUN DelegateCall)
      else if b = 0xf5 then fall (do_create E RUN True)
      else if b = 0xfa then fall (do_call E RUN StaticCall)
      else if b = 0xfd then op_return Reverted
      else if b = 0xff then op_selfdestruct E
      else sfail (Err (InvalidOpcode b)))"

definition step :: "'h evm_env \<Rightarrow> ('h, exit_status \<times> u64) evm_st \<Rightarrow> ('h, exit_status option) evm_st" where
  "step E RUN s =
     (if ev_pc s \<ge> length (ev_code s) then (Inr (Some Succeeded), s)
      else
       (let b = ev_code s ! ev_pc s in
        case from_u8 b of
          None \<Rightarrow> (Inl (Err (InvalidOpcode b)), s)
        | Some op \<Rightarrow>
            then_st (consume_gas (static_gas op))
             (sbind (execute E RUN b) (\<lambda>f. case f of
                Fall \<Rightarrow> then_st (smod (\<lambda>s. s\<lparr>ev_pc := ev_pc s + 1\<rparr>)) (sret None)
              | Jumped \<Rightarrow> sret None
              | Exit status \<Rightarrow> sret (Some status))) s))"

primrec run :: "'h evm_env \<Rightarrow> nat \<Rightarrow> ('h, exit_status \<times> u64) evm_st" where
  "run E 0 = (\<lambda>s. (Inl OutOfFuel, s))"
| "run E (Suc n) = (\<lambda>s.
     case step E (run E n) s of
       (Inl (Err e), t) \<Rightarrow> (Inr (Failed e, gas_used t), t)
     | (Inl Panic, t) \<Rightarrow> (Inl Panic, t)
     | (Inl OutOfFuel, t) \<Rightarrow> (Inl OutOfFuel, t)
     | (Inr (Some status), t) \<Rightarrow> (Inr (status, gas_used t), t)
     | (Inr None, t) \<Rightarrow> run E n t)"

end
