(* ===== verification/Evm_Frame.thy ===== *)
theory Evm_Frame
  imports Evm_Call
begin

text \<open>
  Proof rules for the interpreter.  \<open>keeps P R m\<close> says that the computation \<open>m\<close>, started in a state
  with \<open>P\<close>, ends (with a value or an error) in a state related by \<open>R\<close> to the one it started in.
  The locale \<open>frame_rel\<close> collects what a relation must allow for every handler that leaves
  the host alone to keep it; its interpretations give the gas, control and typing facts.
\<close>

named_theorems keeps_intros

definition keeps :: "('s \<Rightarrow> bool) \<Rightarrow> ('s \<Rightarrow> 's \<Rightarrow> bool) \<Rightarrow> ('s, 'e, 'a) st \<Rightarrow> bool" where
  "keeps P R m \<longleftrightarrow> (\<forall>s. P s \<longrightarrow> R s (snd (m s)))"

lemma keepsD: "keeps P R m \<Longrightarrow> P s \<Longrightarrow> m s = (r, t) \<Longrightarrow> R s t"
  by (auto simp: keeps_def)

text \<open>Computations that never run out of fuel.\<close>

definition fuelfree :: "('s, 'e, 'a) st \<Rightarrow> bool" where
  "fuelfree m \<longleftrightarrow> (\<forall>s. fst (m s) \<noteq> Inl OutOfFuel)"

named_theorems fuelfree_intros

lemma fuelfree_sbind [fuelfree_intros]: "fuelfree m \<Longrightarrow> (\<And>x. fuelfree (f x)) \<Longrightarrow> fuelfree (sbind m f)"
  unfolding fuelfree_def sbind_def by (auto split: prod.splits sum.splits) (metis fst_conv)+

lemma fuelfree_then [fuelfree_intros]: "fuelfree m \<Longrightarrow> fuelfree n \<Longrightarrow> fuelfree (then_st m n)"
  unfolding then_st_def by (intro fuelfree_intros)

lemma fuelfree_basic [fuelfree_intros]:
  "fuelfree (sret x)" "fuelfree (sget f)" "fuelfree (smod g)" "fuelfree (sfail (Err e))"
  by (simp_all add: fuelfree_def sret_def sget_def smod_def sfail_def)

lemma fuelfree_if [fuelfree_intros]: "fuelfree m \<Longrightarrow> fuelfree n \<Longrightarrow> fuelfree (if b then m else n)"
  by simp

lemma fuelfree_option [fuelfree_intros]:
  "fuelfree m \<Longrightarrow> (\<And>y. fuelfree (f y)) \<Longrightarrow> fuelfree (case x of None \<Rightarrow> m | Some y \<Rightarrow> f y)"
  by (cases x) auto

lemma fuelfree_let [fuelfree_intros]: "(\<And>x. fuelfree (f x)) \<Longrightarrow> fuelfree (Let v f)"
  by simp

lemma fuelfree_slice [fuelfree_intros]: "fuelfree (slift (slice_chk xs i j))"
  by (simp add: fuelfree_def slift_def slice_chk_def)

lemma fuelfree_frame [fuelfree_intros]:
  "fuelfree (consume_gas a)" "fuelfree (refund_gas a)" "fuelfree (stack_push v)" "fuelfree stack_pop"
  "fuelfree (stack_peek d)" "fuelfree (stack_swap d)" "fuelfree guard_static"
  by (auto simp: fuelfree_def consume_gas_def refund_gas_def smod_def stack_push_def stack_pop_def stack_peek_def
      stack_swap_def guard_static_def split: list.splits)

lemma fuelfree_ensure [fuelfree_intros]: "fuelfree (ensure_paid off sz)"
proof -
  have "fst (mem_ensure off sz m) \<noteq> Inl OutOfFuel" for m
    by (simp add: mem_ensure_def Let_def)
  then show ?thesis
    unfolding fuelfree_def ensure_paid_def
    by (auto simp: consume_gas_def split: prod.splits sum.splits) (metis fst_conv)
qed

lemma fuelfree_write [fuelfree_intros]: "fuelfree (memory_write off d)"
  unfolding fuelfree_def memory_write_def mem_write_def by (auto simp: Let_def split: sum.splits if_splits)

lemma fuelfree_read [fuelfree_intros]: "fuelfree (memory_read off sz)"
  unfolding memory_read_def by (intro fuelfree_intros)

lemma fuelfree_touch [fuelfree_intros]: "fuelfree (touch_address a)" "fuelfree (touch_slot k)"
proof -
  have "fuelfree (then_st (consume_gas c) (smod f))" for c f by (intro fuelfree_intros)
  then show "fuelfree (touch_address a)" "fuelfree (touch_slot k)"
    unfolding fuelfree_def touch_address_def touch_slot_def Let_def by auto
qed

lemma fuelfree_pops [fuelfree_intros]:
  "fuelfree pop_address" "fuelfree pop_u64_capped" "fuelfree pop_usize" "fuelfree (stack_dup d)"
  unfolding pop_address_def pop_u64_capped_def pop_usize_def stack_dup_def by (intro fuelfree_intros)+

lemma fuelfree_pop_many [fuelfree_intros]: "fuelfree (pop_many n)"
  by (induction n) (simp_all, (intro fuelfree_intros | assumption)+)

lemma fuelfree_host [fuelfree_intros]:
  "fuelfree (host_get f)" "fuelfree (host_mod g)" "fuelfree (host_ignore k)" "fuelfree (take_snapshot E)"
  "fuelfree (set_return_data d)" "fuelfree (host_call l)"
  by (auto simp: fuelfree_def host_get_def host_mod_def host_ignore_def set_return_data_def take_snapshot_def
      host_call_def smod_def sget_def split: prod.splits sum.splits)

section \<open>The rules of the relation\<close>

locale frame_rel =
  fixes P :: "'h evm \<Rightarrow> bool" and R :: "'h evm \<Rightarrow> 'h evm \<Rightarrow> bool"
  assumes R_refl: "R s s"
    and R_trans: "R s t \<Longrightarrow> R t u \<Longrightarrow> R s u"
    and R_keep: "P s \<Longrightarrow> R s t \<Longrightarrow> P t"
    and R_gas: "P s \<Longrightarrow> a \<le> ev_gas_remaining s \<Longrightarrow> R s (s\<lparr>ev_gas_remaining := ev_gas_remaining s - a\<rparr>)"
    and R_stack: "P s \<Longrightarrow> R s (s\<lparr>ev_stack := st\<rparr>)"
    and R_memory: "P s \<Longrightarrow> R s (s\<lparr>ev_memory := m\<rparr>)"
    and R_return_data: "P s \<Longrightarrow> R s (s\<lparr>ev_return_data := d\<rparr>)"
    and R_warm: "P s \<Longrightarrow> R s (s\<lparr>ev_warm_addresses := w\<rparr>)"
    and R_warm_storage: "P s \<Longrightarrow> R s (s\<lparr>ev_warm_storage := ws\<rparr>)"
    and R_logs: "P s \<Longrightarrow> R s (s\<lparr>ev_logs := l\<rparr>)"
    and R_pc: "P s \<Longrightarrow> ev_pc s \<le> p \<Longrightarrow> R s (s\<lparr>ev_pc := p\<rparr>)"
begin

lemma keeps_sbind: "keeps P R m \<Longrightarrow> (\<And>x. keeps P R (f x)) \<Longrightarrow> keeps P R (sbind m f)"
  unfolding keeps_def sbind_def
  by (auto split: prod.splits sum.splits) (metis R_keep R_trans snd_conv)+

lemma keeps_then: "keeps P R m \<Longrightarrow> keeps P R n \<Longrightarrow> keeps P R (then_st m n)"
  unfolding then_st_def by (rule keeps_sbind)

lemma keeps_basic: "keeps P R (sret x)" "keeps P R (sget f)" "keeps P R (sfail e)" "keeps P R (slift r)"
  by (simp_all add: keeps_def sret_def sget_def sfail_def slift_def R_refl)

lemma keeps_if: "keeps P R m \<Longrightarrow> keeps P R n \<Longrightarrow> keeps P R (if b then m else n)"
  by simp

lemma keeps_ifc: "(b \<Longrightarrow> keeps P R m) \<Longrightarrow> (\<not> b \<Longrightarrow> keeps P R n) \<Longrightarrow> keeps P R (if b then m else n)"
  by simp

lemma keeps_option:
  "(x = None \<Longrightarrow> keeps P R m) \<Longrightarrow> (\<And>y. x = Some y \<Longrightarrow> keeps P R (f y)) \<Longrightarrow>
   keeps P R (case x of None \<Rightarrow> m | Some y \<Rightarrow> f y)"
  by (cases x) auto

lemma keeps_let: "(\<And>x. keeps P R (f x)) \<Longrightarrow> keeps P R (Let v f)"
  by simp

lemma keeps_consume: "keeps P R (consume_gas a)"
  by (auto simp: keeps_def consume_gas_def not_less intro: R_refl R_gas)

lemma keeps_stack:
  "keeps P R (stack_push v)" "keeps P R stack_pop" "keeps P R (stack_peek d)" "keeps P R (stack_swap d)"
  "keeps P R guard_static"
  by (auto simp: keeps_def stack_push_def stack_pop_def stack_peek_def stack_swap_def guard_static_def
      split: list.splits intro: R_refl R_stack)

lemma keeps_ensure: "keeps P R (ensure_paid off sz)"
proof -
  have "R s (snd (consume_gas c (s\<lparr>ev_memory := m\<rparr>)))" if "P s" for s c m
    using keeps_consume [of c] R_memory [OF that] R_keep [OF that] R_trans unfolding keeps_def by metis
  then show ?thesis
    unfolding keeps_def ensure_paid_def by (auto split: prod.splits sum.splits intro: R_memory)
qed

lemma keeps_memory: "keeps P R (memory_write off d)" "keeps P R (memory_read off sz)"
  by (auto simp: keeps_def memory_write_def memory_read_def sget_def split: sum.splits intro: R_refl R_memory)

lemma keeps_return_data: "keeps P R (set_return_data d)"
  by (simp add: keeps_def set_return_data_def smod_def R_return_data)

lemma keeps_touch: "keeps P R (touch_address a)" "keeps P R (touch_slot k)"
proof -
  have w: "keeps P R (smod (\<lambda>s. s\<lparr>ev_warm_addresses := insert a (ev_warm_addresses s)\<rparr>))"
    by (simp add: keeps_def smod_def R_warm)
  have ws: "keeps P R (smod (\<lambda>s. s\<lparr>ev_warm_storage := insert sl (ev_warm_storage s)\<rparr>))" for sl
    by (simp add: keeps_def smod_def R_warm_storage)
  show "keeps P R (touch_address a)" "keeps P R (touch_slot k)"
    using keeps_then [OF keeps_consume w] keeps_then [OF keeps_consume ws]
    by (auto simp: keeps_def touch_address_def touch_slot_def Let_def R_refl)
qed

lemmas keeps_prims = keeps_sbind keeps_then keeps_basic keeps_if keeps_let keeps_consume keeps_stack
  keeps_ensure keeps_memory keeps_return_data keeps_touch

lemma keeps_pops:
  "keeps P R pop_address" "keeps P R pop_u64_capped" "keeps P R pop_usize" "keeps P R (stack_dup d)"
  unfolding pop_address_def pop_u64_capped_def pop_usize_def stack_dup_def by (intro keeps_prims)+

lemma keeps_pop_many: "keeps P R (pop_many n)"
  by (induction n) (simp_all add: keeps_prims)

lemma keeps_fall: "keeps P R m \<Longrightarrow> keeps P R (fall m)"
  unfolding fall_def by (intro keeps_prims)

lemmas keeps_rules = keeps_prims keeps_pops keeps_pop_many keeps_fall

text \<open>Every handler that leaves the host alone and does not jump.\<close>

lemma keeps_push: "keeps P R (op_push b)"
proof -
  have "keeps P R (smod (\<lambda>s. s\<lparr>ev_pc := ev_pc s + n\<rparr>))" for n by (simp add: keeps_def smod_def R_pc)
  then show ?thesis unfolding op_push_def by (auto intro!: keeps_rules split: prod.splits)
qed

lemma keeps_log: "keeps P R (op_log b)"
proof -
  have "keeps P R (smod (\<lambda>s. s\<lparr>ev_logs := f s\<rparr>))" for f by (simp add: keeps_def smod_def R_logs)
  then show ?thesis unfolding op_log_def by (intro keeps_rules)
qed

lemma keeps_return: "keeps P R (op_return st)"
  unfolding op_return_def set_return_data_def [symmetric] by (intro keeps_rules)

lemma keeps_handlers:
  "keeps P R op_exp" "keeps P R (op_sha3 E)" "keeps P R (op_balance E)" "keeps P R (op_extcodesize E)"
  "keeps P R (op_extcodehash E)" "keeps P R op_blockhash" "keeps P R op_calldataload"
  "keeps P R op_calldatacopy" "keeps P R op_codecopy" "keeps P R (op_extcodecopy E)" "keeps P R op_returndatacopy"
  "keeps P R op_mload" "keeps P R op_mstore" "keeps P R op_mstore8" "keeps P R (op_sload E)"
  unfolding op_exp_def op_sha3_def op_balance_def op_extcodesize_def op_extcodehash_def op_blockhash_def
    op_calldataload_def op_calldatacopy_def op_codecopy_def op_extcodecopy_def op_returndatacopy_def
    op_mload_def op_mstore_def op_mstore8_def op_sload_def copy_to_memory_def
  by (intro keeps_rules)+

end

section \<open>Handlers never run out of fuel by themselves\<close>

lemma fuelfree_fall [fuelfree_intros]: "fuelfree m \<Longrightarrow> fuelfree (fall m)"
  unfolding fall_def by (intro fuelfree_intros)

lemma fuelfree_handlers [fuelfree_intros]:
  "fuelfree op_exp" "fuelfree (op_sha3 E)" "fuelfree (op_balance E)" "fuelfree (op_extcodesize E)"
  "fuelfree (op_extcodehash E)" "fuelfree op_blockhash" "fuelfree op_calldataload"
  "fuelfree op_calldatacopy" "fuelfree op_codecopy" "fuelfree (op_extcodecopy E)" "fuelfree op_returndatacopy"
  "fuelfree op_mload" "fuelfree op_mstore" "fuelfree op_mstore8" "fuelfree (op_sload E)" "fuelfree (op_sstore E)"
  "fuelfree op_jump" "fuelfree op_jumpi" "fuelfree (op_log b)" "fuelfree (op_return st)" "fuelfree (op_selfdestruct E)"
  unfolding op_exp_def op_sha3_def op_balance_def op_extcodesize_def op_extcodehash_def op_blockhash_def
    op_calldataload_def op_calldatacopy_def op_codecopy_def op_extcodecopy_def op_returndatacopy_def
    op_mload_def op_mstore_def op_mstore8_def op_sload_def op_sstore_def op_jump_def op_jumpi_def op_log_def
    op_return_def op_selfdestruct_def copy_to_memory_def
  by (intro fuelfree_intros)+

lemma fuelfree_push [fuelfree_intros]: "fuelfree (op_push b)"
  unfolding op_push_def by (auto intro!: fuelfree_intros split: prod.splits)

end
