(* ===== verification/Evm_Terminates.thy ===== *)
theory Evm_Terminates
  imports Evm_Frame
begin

text \<open>
  Gas accounting of the interpreter: no instruction increases the gas of its frame, a refund never
  exceeds what was billed before, a sub-frame starts with strictly less gas than its parent
  had, and so every run ends.
\<close>

section \<open>Gas and control\<close>

text \<open>\<open>up b s t\<close>: the frame is the same one, the program counter has not moved back, and the gas has
  grown by at most \<open>b\<close>.\<close>

definition up :: "nat \<Rightarrow> 'h evm \<Rightarrow> 'h evm \<Rightarrow> bool" where
  "up b s t \<longleftrightarrow> unat (ev_gas_remaining t) \<le> unat (ev_gas_remaining s) + b \<and> ev_pc s \<le> ev_pc t \<and>
     ev_code t = ev_code s \<and> ev_ctx t = ev_ctx s \<and> ev_frames t = ev_frames s \<and> ev_jumpdests t = ev_jumpdests s"

lemma unat_gas_sub: "a \<le> g \<Longrightarrow> unat (g - a :: u64) = unat g - unat a"
  by (rule unat_sub)

interpretation gasf: frame_rel "\<lambda>_. True" "up 0"
  by unfold_locales (auto simp: up_def unat_gas_sub word_le_nat_alt)

lemma up_mono: "keeps (\<lambda>_. True) (up a) m \<Longrightarrow> a \<le> b \<Longrightarrow> keeps (\<lambda>_. True) (up b) m"
  unfolding keeps_def up_def by (meson add_left_mono order_trans)

lemma up_trans: "up a s t \<Longrightarrow> up b t u \<Longrightarrow> up (a + b) s u"
  unfolding up_def by (auto intro: order_trans)

lemma up_weak: "up a s t \<Longrightarrow> a \<le> b \<Longrightarrow> up b s t"
  unfolding up_def by auto

lemma up_sbind:
  assumes "keeps (\<lambda>_. True) (up a) m" "\<And>x. keeps (\<lambda>_. True) (up b) (f x)"
  shows "keeps (\<lambda>_. True) (up (a + b)) (sbind m f)"
  unfolding keeps_def
proof (intro allI impI)
  fix s
  obtain r t where m: "m s = (r, t)" by (cases "m s")
  have st: "up a s t" using keepsD [OF assms(1) TrueI m] .
  show "up (a + b) s (snd (sbind m f s))"
  proof (cases r)
    case (Inl e)
    then show ?thesis using m up_weak [OF st, of "a + b"] by (simp add: sbind_def)
  next
    case (Inr x)
    have "up b t (snd (f x t))" using assms(2) by (simp add: keeps_def)
    then show ?thesis using m Inr up_trans [OF st] by (simp add: sbind_def)
  qed
qed

lemma up_sbind0:
  "keeps (\<lambda>_. True) (up 0) m \<Longrightarrow> (\<And>x. keeps (\<lambda>_. True) (up b) (f x)) \<Longrightarrow> keeps (\<lambda>_. True) (up b) (sbind m f)"
  using up_sbind [of 0 m b f] by simp

lemma up_then0:
  "keeps (\<lambda>_. True) (up 0) m \<Longrightarrow> keeps (\<lambda>_. True) (up b) n \<Longrightarrow> keeps (\<lambda>_. True) (up b) (then_st m n)"
  unfolding then_st_def by (rule up_sbind0)

lemma up_refund_then:
  assumes "keeps (\<lambda>_. True) (up 0) n" "unat x \<le> b"
  shows "keeps (\<lambda>_. True) (up b) (then_st (refund_gas x) n)"
proof -
  have "keeps (\<lambda>_. True) (up (unat x)) (refund_gas x :: ('h, unit) evm_st)"
    by (auto simp: keeps_def refund_gas_def smod_def up_def unat_sat_add64)
  from up_sbind [OF this, of 0 "\<lambda>_. n"] assms show ?thesis
    unfolding then_st_def by (metis add_0_right up_mono)
qed

lemma up_bill_then:
  assumes "keeps (\<lambda>_. True) (up (unat c)) n"
  shows "keeps (\<lambda>_. True) (up 0) (then_st (consume_gas c) n)"
  unfolding keeps_def
proof (intro allI impI)
  fix s
  show "up 0 s (snd (then_st (consume_gas c) n s))"
  proof (cases "ev_gas_remaining s < c")
    case True
    then show ?thesis by (simp add: then_st_def sbind_def consume_gas_def up_def)
  next
    case False
    let ?s = "s\<lparr>ev_gas_remaining := ev_gas_remaining s - c\<rparr>"
    have "up (unat c) ?s (snd (n ?s))" using assms by (simp add: keeps_def)
    moreover have "unat c \<le> unat (ev_gas_remaining s)" using False by (simp add: not_less word_le_nat_alt)
    ultimately show ?thesis
      using False by (auto simp: then_st_def sbind_def consume_gas_def up_def not_less unat_gas_sub)
  qed
qed

lemma up_host: "keeps (\<lambda>_. True) (up 0) (host_get f)" "keeps (\<lambda>_. True) (up 0) (host_mod g)"
  "keeps (\<lambda>_. True) (up 0) (host_ignore k)" "keeps (\<lambda>_. True) (up 0) (host_call l)"
  "keeps (\<lambda>_. True) (up 0) (take_snapshot E)" "keeps (\<lambda>_. True) (up 0) (run_sub RUN c cd fr)"
  by (auto simp: keeps_def up_def host_get_def host_mod_def host_ignore_def host_call_def take_snapshot_def
      run_sub_def sget_def smod_def Let_def split: prod.splits sum.splits)

lemma up_logs: "keeps (\<lambda>_. True) (up 0) (smod (\<lambda>s. s\<lparr>ev_logs := f s\<rparr>))"
  by (simp add: keeps_def smod_def up_def)

lemmas up_rules = up_host up_logs gasf.keeps_rules

section \<open>The call handlers do not create gas\<close>

lemma unused_gas_le: "unat (unused_gas forwarded used billed) \<le> unat billed"
  by (simp add: unused_gas_def min_def word_le_nat_alt)

lemma up_call_precompiled: "keeps (\<lambda>_. True) (up (unat billed)) (call_precompiled E a cd billed fwd snap)"
proof -
  have z: "keeps (\<lambda>_. True) (up (unat billed)) (then_st (host_mod (\<lambda>h. h_revert_to (en_host E) h snap))
      (then_st (set_return_data []) (then_st (ensure_paid (ca_ret_off a) (ca_ret_len a)) (stack_push (u256_from_u64 0)))))"
    by (rule up_mono [where a = 0]) (intro up_rules, simp)
  show ?thesis
    unfolding call_precompiled_def Let_def
    by (auto intro!: up_sbind0 up_then0 up_refund_then up_rules unused_gas_le z split: option.splits)
qed

lemma up_call_empty: "keeps (\<lambda>_. True) (up (unat billed)) (call_empty_code E a billed snap)"
  unfolding call_empty_code_def by (intro up_then0 up_refund_then up_rules order_refl)

lemma up_call_settle: "keeps (\<lambda>_. True) (up (unat billed)) (call_settle E a billed fwd snap r)"
  unfolding call_settle_def Let_def
  by (auto intro!: up_then0 up_refund_then up_rules unused_gas_le split: prod.splits)

lemma up_call_dispatch: "keeps (\<lambda>_. True) (up (unat billed)) (call_dispatch E RUN kind a cd billed fwd snap)"
  unfolding call_dispatch_def
  by (auto intro!: up_sbind0 up_call_precompiled up_call_empty up_call_settle up_rules)

lemma up_push_zero: "keeps (\<lambda>_. True) (up 0) (push_zero_with_ret a)" "keeps (\<lambda>_. True) (up 0) push_zero"
  unfolding push_zero_with_ret_def push_zero_def by (intro up_rules)+

lemma up_call_enter: "keeps (\<lambda>_. True) (up 0) (call_enter E RUN kind a cd)"
proof -
  have t: "keeps (\<lambda>_. True) (up (unat billed))
      (sbind (call_transfer E kind a snap billed) (\<lambda>ok. if \<not> ok then push_zero_with_ret a
        else call_dispatch E RUN kind a cd billed fwd snap))" for billed fwd snap
    unfolding call_transfer_def sbind_if sbind_assoc sbind_then
    by (auto intro!: up_sbind0 up_then0 up_refund_then up_push_zero up_call_dispatch up_rules)
  show ?thesis
    unfolding call_enter_def Let_def
    by (intro up_sbind0 gasf.keeps_if up_bill_then up_push_zero t up_rules)
qed

lemma up_call_operands: "keeps (\<lambda>_. True) (up 0) (call_operands kind)"
  unfolding call_operands_def by (cases kind) (simp_all, (intro up_rules)+)

lemma up_call_charges: "keeps (\<lambda>_. True) (up 0) (call_charges E kind a)"
  unfolding call_charges_def by (intro up_rules)

lemma up_do_call: "keeps (\<lambda>_. True) (up 0) (do_call E RUN kind)"
  unfolding do_call_def by (intro up_sbind0 up_call_operands up_call_charges up_call_enter)

lemma up_create_fail: "keeps (\<lambda>_. True) (up 0) (create_fail E snap d)"
  unfolding create_fail_def by (intro up_rules)

lemma up_create_settle: "keeps (\<lambda>_. True) (up (unat fwd)) (create_settle E na fwd snap r)"
proof -
  have "unat (sat_sub64 fwd used) \<le> unat fwd" for used by (simp add: unat_sat_sub64)
  then show ?thesis
    unfolding create_settle_def Let_def
    by (auto intro!: up_refund_then up_create_fail up_rules split: prod.splits)
qed

lemma up_create_enter: "keeps (\<lambda>_. True) (up 0) (create_enter E RUN me v ic na)"
  unfolding create_enter_def
  by (intro up_sbind0 up_then0 up_bill_then up_create_settle up_rules)

lemma up_create_charges: "keeps (\<lambda>_. True) (up 0) (create_charges ws)"
  unfolding create_charges_def Let_def by (intro up_rules)

lemma up_do_create: "keeps (\<lambda>_. True) (up 0) (do_create E RUN ws)"
  unfolding do_create_def create_attempt_def
  by (auto intro!: up_sbind0 up_then0 up_create_charges up_push_zero up_create_enter up_rules split: prod.splits)

section \<open>One instruction\<close>

lemma up_sstore: "keeps (\<lambda>_. True) (up 0) (op_sstore E)"
proof -
  have "keeps (\<lambda>_. True) (up 0) (smod (\<lambda>s. s\<lparr>ev_host := f s\<rparr>))" for f by (simp add: keeps_def smod_def up_def)
  then show ?thesis unfolding op_sstore_def by (intro up_rules)
qed

lemma up_selfdestruct: "keeps (\<lambda>_. True) (up 0) (op_selfdestruct E)"
proof -
  have "keeps (\<lambda>_. True) (up 0) (smod (\<lambda>s. s\<lparr>ev_host := f s\<rparr>))" for f by (simp add: keeps_def smod_def up_def)
  then show ?thesis unfolding op_selfdestruct_def by (intro up_rules)
qed

lemmas up_handlers = up_sstore up_selfdestruct up_do_call up_do_create gasf.keeps_handlers gasf.keeps_push
  gasf.keeps_log gasf.keeps_return

lemma up_execute:
  assumes "b \<noteq> 0x56" "b \<noteq> 0x57"
  shows "keeps (\<lambda>_. True) (up 0) (execute E RUN b)"
  unfolding execute_def
  by (intro gasf.keeps_option gasf.keeps_ifc up_handlers gasf.keeps_fall gasf.keeps_sbind gasf.keeps_then gasf.keeps_basic gasf.keeps_stack gasf.keeps_pops)
    (use assms in blast)+

text \<open>Jumps: the gas does not grow, and the frame stays the same up to the program counter.\<close>

definition same_frame :: "'h evm \<Rightarrow> 'h evm \<Rightarrow> bool" where
  "same_frame s t \<longleftrightarrow> unat (ev_gas_remaining t) \<le> unat (ev_gas_remaining s) \<and>
     ev_code t = ev_code s \<and> ev_ctx t = ev_ctx s \<and> ev_frames t = ev_frames s \<and> ev_jumpdests t = ev_jumpdests s"

interpretation sf: frame_rel "\<lambda>_. True" same_frame
  by unfold_locales (auto simp: same_frame_def unat_gas_sub word_le_nat_alt)

lemma sf_jumps: "keeps (\<lambda>_. True) same_frame op_jump" "keeps (\<lambda>_. True) same_frame op_jumpi"
proof -
  have p: "keeps (\<lambda>_. True) same_frame (smod (\<lambda>s. s\<lparr>ev_pc := p\<rparr>))" for p
    by (simp add: keeps_def smod_def same_frame_def)
  show "keeps (\<lambda>_. True) same_frame op_jump" "keeps (\<lambda>_. True) same_frame op_jumpi"
    unfolding op_jump_def op_jumpi_def by (intro sf.keeps_rules p)+
qed

lemma up_same_frame: "up 0 s t \<Longrightarrow> same_frame s t"
  by (simp add: up_def same_frame_def)

lemma alu_jumps:
  "alu1 0x56 = None" "alu2 0x56 = None" "alu3 0x56 = None" "context_word E 0x56 = None"
  "alu1 0x57 = None" "alu2 0x57 = None" "alu3 0x57 = None" "context_word E 0x57 = None"
  by (simp_all add: alu1_def alu2_def alu3_def context_word_def)

lemma execute_jumps: "execute E RUN 0x56 = op_jump" "execute E RUN 0x57 = op_jumpi"
  unfolding execute_def alu_jumps option.case by simp_all

lemma sf_execute: "keeps (\<lambda>_. True) same_frame (execute E RUN b)"
proof (cases "b = 0x56 \<or> b = 0x57")
  case True
  then show ?thesis using sf_jumps by (auto simp: execute_jumps)
next
  case False
  then have "keeps (\<lambda>_. True) (up 0) (execute E RUN b)" by (intro up_execute) auto
  then show ?thesis using up_same_frame unfolding keeps_def by blast
qed

text \<open>Only the two jumps return early without an exit status; JUMPI falls through when not taken.\<close>

lemma fall_result: "fall m s = (Inr f, t) \<Longrightarrow> f = Fall"
  by (auto simp: fall_def sret_def elim!: then_cases)

lemma return_result: "op_return st s = (Inr f, t) \<Longrightarrow> f = Exit st"
  by (auto simp: op_return_def sret_def sfail_def elim!: then_cases sbind_cases split: if_splits)

lemma selfdestruct_result: "op_selfdestruct E s = (Inr f, t) \<Longrightarrow> f = Exit Succeeded"
  by (auto simp: op_selfdestruct_def sret_def elim!: then_cases sbind_cases)

lemma jumpi_fall:
  assumes "op_jumpi s = (Inr Fall, t)"
  shows "up 0 s t"
proof -
  obtain d u where u: "pop_usize s = (Inr d, u)" and u2: "sbind stack_pop (\<lambda>cond.
     if \<not> u256_is_zero cond then sbind (sget (\<lambda>s. is_valid_jumpdest s d)) (\<lambda>ok.
         if \<not> ok then sfail (Err (InvalidJump d)) else then_st (smod (\<lambda>s. s\<lparr>ev_pc := d\<rparr>)) (sret Jumped))
     else sret Fall) u = (Inr Fall, t)"
    using assms unfolding op_jumpi_def by (auto elim: sbind_cases)
  then obtain c w where w: "stack_pop u = (Inr c, w)" and "w = t"
    by (auto simp: sret_def sfail_def elim!: sbind_cases then_cases split: if_splits)
  moreover have "up 0 s u" using keepsD [OF gasf.keeps_pops(3) TrueI u] .
  moreover have "up 0 u w" using keepsD [OF gasf.keeps_stack(2) TrueI w] .
  ultimately show ?thesis using up_trans [of 0 s u 0 t] by simp
qed

definition no_jump :: "('h, flow) evm_st \<Rightarrow> bool" where
  "no_jump m \<longleftrightarrow> (\<forall>s t. m s \<noteq> (Inr Jumped, t))"

lemma no_jump_rules:
  "no_jump (fall m)" "no_jump (op_return st)" "no_jump (op_selfdestruct E)" "no_jump (sret (Exit st))"
  "no_jump (sret Fall)" "no_jump (sfail e)"
  "(c \<Longrightarrow> no_jump m1) \<Longrightarrow> (\<not> c \<Longrightarrow> no_jump m2) \<Longrightarrow> no_jump (if c then m1 else m2)"
  "no_jump m1 \<Longrightarrow> (\<And>y. no_jump (g y)) \<Longrightarrow> no_jump (case x of None \<Rightarrow> m1 | Some y \<Rightarrow> g y)"
  by (auto simp: no_jump_def sret_def sfail_def dest!: fall_result return_result selfdestruct_result split: option.splits)

lemma execute_jumped: "execute E RUN b s = (Inr Jumped, t) \<Longrightarrow> b = 0x56 \<or> b = 0x57"
proof (rule ccontr)
  assume e: "execute E RUN b s = (Inr Jumped, t)" and b: "\<not> (b = 0x56 \<or> b = 0x57)"
  have "no_jump (execute E RUN b)" unfolding execute_def by (intro no_jump_rules) (use b in blast)+
  then show False using e by (simp add: no_jump_def)
qed

lemma execute_fall:
  assumes "execute E RUN b s = (Inr Fall, t)"
  shows "up 0 s t"
proof (cases "b = 0x56 \<or> b = 0x57")
  case True
  then have "execute E RUN b = op_jump \<or> execute E RUN b = op_jumpi" by (auto simp: execute_jumps)
  moreover have "op_jump s \<noteq> (Inr Fall, t)" by (auto simp: op_jump_def sret_def sfail_def elim!: then_cases sbind_cases split: if_splits)
  ultimately show ?thesis using assms jumpi_fall by metis
next
  case False
  then show ?thesis using keepsD [OF up_execute TrueI assms] by simp
qed

section \<open>A sub-frame gets less gas than its parent had\<close>

text \<open>\<open>costs c m\<close>: when \<open>m\<close> succeeds, it has used at least \<open>c\<close> gas.\<close>

definition costs :: "nat \<Rightarrow> ('h, 'a) evm_st \<Rightarrow> bool" where
  "costs c m \<longleftrightarrow> (\<forall>s x t. m s = (Inr x, t) \<longrightarrow> unat (ev_gas_remaining t) + c \<le> unat (ev_gas_remaining s))"

lemma costs_sbind: "costs a m \<Longrightarrow> (\<And>x. costs b (f x)) \<Longrightarrow> costs (a + b) (sbind m f)"
  unfolding costs_def by (fastforce elim!: sbind_cases)

lemma costs_then: "costs a m \<Longrightarrow> costs b n \<Longrightarrow> costs (a + b) (then_st m n)"
  unfolding then_st_def by (rule costs_sbind)

lemma costs_up: "keeps (\<lambda>_. True) (up 0) m \<Longrightarrow> costs 0 m"
  unfolding costs_def up_def keeps_def by (metis add_0_right snd_conv)

lemma costs_consume: "costs (unat c) (consume_gas c)"
  by (auto simp: costs_def consume_gas_def not_less unat_gas_sub word_le_nat_alt split: if_splits)

lemma call_charges_value:
  assumes "moves_value kind (ca_value a)"
  shows "costs 9000 (call_charges E kind a)"
proof -
  let ?n = "sbind (host_get (\<lambda>h. h_is_empty (en_host E) h (ca_target a))) (\<lambda>empty.
      if kind = Call \<and> empty then consume_gas GAS_NEW_ACCOUNT else sret ())"
  have "costs (unat GAS_CALL_VALUE_TRANSFER + 0) (then_st (consume_gas GAS_CALL_VALUE_TRANSFER) ?n)"
    by (intro costs_then costs_consume costs_up up_rules)
  then have v: "costs 9000 (then_st (consume_gas GAS_CALL_VALUE_TRANSFER) ?n)" by (simp add: gas_defs)
  have "costs (0 + (0 + (0 + (9000 + 0)))) (call_charges E kind a)"
    unfolding call_charges_def if_P [OF assms]
    by (intro costs_then costs_sbind v costs_up up_rules)
  then show ?thesis by simp
qed

text \<open>\<open>dep m s g\<close>: the computation consults its sub-run at most at one state, with less than \<open>g\<close> gas.\<close>

definition dep :: "(('h, exit_status \<times> u64) evm_st \<Rightarrow> ('h, 'a) evm_st) \<Rightarrow> 'h evm \<Rightarrow> nat \<Rightarrow> bool" where
  "dep m s g \<longleftrightarrow> (\<forall>RUN RUN'. m RUN s = m RUN' s) \<or>
     (\<exists>p. unat (ev_gas_remaining p) < g \<and> (\<forall>RUN RUN'. RUN p = RUN' p \<longrightarrow> m RUN s = m RUN' s))"

lemma dep_const: "dep (\<lambda>_. m) s g"
  by (simp add: dep_def)

lemma dep_sbind:
  assumes "\<And>x t. m s = (Inr x, t) \<Longrightarrow> dep (\<lambda>RUN. f RUN x) t g"
  shows "dep (\<lambda>RUN. sbind m (f RUN)) s g"
proof (cases "m s")
  case (Pair r t)
  then show ?thesis
  proof (cases r)
    case (Inl e)
    then show ?thesis using Pair by (simp add: dep_def sbind_def)
  next
    case (Inr x)
    then show ?thesis using Pair assms [of x t] by (simp add: dep_def sbind_def)
  qed
qed

lemma dep_then:
  assumes "\<And>x t. m s = (Inr x, t) \<Longrightarrow> dep n t g"
  shows "dep (\<lambda>RUN. then_st m (n RUN)) s g"
  unfolding then_st_def by (rule dep_sbind) (rule assms)

lemma dep_post:
  assumes "dep m s g"
  shows "dep (\<lambda>RUN. sbind (m RUN) k) s g"
proof -
  have k: "m RUN s = m RUN' s \<Longrightarrow> sbind (m RUN) k s = sbind (m RUN') k s" for RUN RUN' by (simp add: sbind_def)
  from assms [unfolded dep_def] show ?thesis
  proof
    assume "\<forall>RUN RUN'. m RUN s = m RUN' s"
    then show ?thesis unfolding dep_def using k by blast
  next
    assume "\<exists>p. unat (ev_gas_remaining p) < g \<and> (\<forall>RUN RUN'. RUN p = RUN' p \<longrightarrow> m RUN s = m RUN' s)"
    then show ?thesis unfolding dep_def using k by blast
  qed
qed

lemma dep_run_sub:
  assumes "unat (cx_gas_limit c) < g"
  shows "dep (\<lambda>RUN. run_sub RUN c cd fr) s g"
proof -
  let ?p = "(evm_new c cd (ev_host s))\<lparr>ev_frames := fr # ev_frames s, ev_warm_addresses := ev_warm_addresses s\<rparr>"
  have "unat (ev_gas_remaining ?p) < g" using assms by (simp add: evm_new_def)
  moreover have "RUN ?p = RUN' ?p \<longrightarrow> run_sub RUN c cd fr s = run_sub RUN' c cd fr s" for RUN RUN'
    by (simp add: run_sub_def Let_def)
  ultimately show ?thesis unfolding dep_def by blast
qed

lemma dep_call_dispatch:
  assumes "unat forwarded < g"
  shows "dep (\<lambda>RUN. call_dispatch E RUN kind a cd billed forwarded snap) s g"
proof -
  have "cx_gas_limit (call_context kind a cd forwarded c) = forwarded" for c by (cases kind) (simp_all add: call_context_def)
  then have r: "dep (\<lambda>RUN. sbind (run_sub RUN (call_context kind a cd forwarded c) tc fr) k) u g" for c tc fr k u
    using assms by (intro dep_post dep_run_sub) simp
  show ?thesis
  proof (cases "is_precompile (ca_target a)")
    case True
    then show ?thesis by (simp add: call_dispatch_def dep_const)
  next
    case False
    have "dep (\<lambda>RUN. if tc = [] then call_empty_code E a billed snap else sbind (sget ev_ctx) (\<lambda>c.
        sbind (run_sub RUN (call_context kind a cd forwarded c) tc
          \<lparr>cf_snapshot = snap, cf_gas_at_entry = forwarded, cf_created_address = None\<rparr>)
          (call_settle E a billed forwarded snap))) t g" for tc t
      by (cases "tc = []") (simp_all add: dep_const dep_sbind r)
    then show ?thesis using False by (simp add: call_dispatch_def dep_sbind)
  qed
qed

lemma dep_call_enter:
  fixes s :: "'h evm"
  assumes "unat (ev_gas_remaining s) + (if moves_value kind (ca_value a) then 2300 else 0) < g"
  shows "dep (\<lambda>RUN. call_enter E RUN kind a cd) s g"
proof -
  let ?st = "if moves_value kind (ca_value a) then GAS_CALL_STIPEND else 0"
  let ?b = "forward_gas_eip150 (ev_gas_remaining s) (ca_gas_req a)"
  have "unat ?b \<le> unat (ev_gas_remaining s)" using forward_gas_le by (simp add: word_le_nat_alt)
  then have "unat (sat_add64 ?b ?st) < g" using assms by (auto simp: unat_sat_add64 gas_defs split: if_splits)
  then have d: "dep (\<lambda>RUN. if \<not> ok then push_zero_with_ret a
       else call_dispatch E RUN kind a cd ?b (sat_add64 ?b ?st) snap) t g" for ok snap t
    by (cases ok) (simp_all add: dep_const dep_call_dispatch)
  show ?thesis
  proof (cases "length (ev_frames s) \<ge> CALL_DEPTH_LIMIT")
    case True
    then show ?thesis unfolding call_enter_def by (intro dep_sbind) (auto simp: sget_def dep_const)
  next
    case False
    have e: "dep (\<lambda>RUN. then_st (consume_gas ?b) (sbind (take_snapshot E) (\<lambda>snap.
         sbind (call_transfer E kind a snap ?b) (\<lambda>ok. if \<not> ok then push_zero_with_ret a
           else call_dispatch E RUN kind a cd ?b (sat_add64 ?b ?st) snap)))) s g"
      by (intro dep_then dep_sbind d)
    have g: "sbind (sget f) k u = k (f u) u" for f :: "'h evm \<Rightarrow> 'b" and k and u by (simp add: sbind_def sget_def)
    show ?thesis using e False unfolding dep_def call_enter_def g Let_def by (simp only: if_False)
  qed
qed

lemma dep_do_call:
  assumes "unat (ev_gas_remaining s) < g"
  shows "dep (\<lambda>RUN. do_call E RUN kind) s g"
  unfolding do_call_def
proof (intro dep_sbind)
  fix a t cd u
  assume o: "call_operands kind s = (Inr a, t)" and c: "call_charges E kind a t = (Inr cd, u)"
  have "up 0 s t" "up 0 t u" using keepsD [OF up_call_operands TrueI o] keepsD [OF up_call_charges TrueI c] .
  moreover have "unat (ev_gas_remaining u) + 9000 \<le> unat (ev_gas_remaining t)" if "moves_value kind (ca_value a)"
    using call_charges_value [OF that] c by (auto simp: costs_def)
  ultimately show "dep (\<lambda>RUN. call_enter E RUN kind a cd) u g"
    using assms by (intro dep_call_enter) (auto simp: up_def split: if_splits)
qed

lemma dep_create_enter:
  assumes "unat (ev_gas_remaining s) < g"
  shows "dep (\<lambda>RUN. create_enter E RUN me v ic na) s g"
  unfolding create_enter_def
proof (intro dep_sbind dep_then)
  fix snap s1 x1 s2 x2 s3 x3 s4 f s5 x5 s6 c s7
  let ?tr = "if \<not> u256_is_zero v then host_ignore (\<lambda>h. h_transfer (en_host E) h me na v) else sret ()"
  assume m: "take_snapshot E s = (Inr snap, s1)" "?tr s1 = (Inr x1, s2)"
    "host_call (\<lambda>h. h_inc_nonce (en_host E) h na) s2 = (Inr x2, s3)"
    "host_mod (\<lambda>h. h_mark_created_this_tx (en_host E) h na) s3 = (Inr x3, s4)"
    and f: "sget (\<lambda>s. forward_gas_eip150 (ev_gas_remaining s) (ev_gas_remaining s)) s4 = (Inr f, s5)"
  have tr: "keeps (\<lambda>_. True) (up 0) ?tr" by (intro up_rules)
  have "up 0 s s1" "up 0 s1 s2" "up 0 s2 s3" "up 0 s3 s4"
    using keepsD [OF up_host(5) TrueI m(1)] keepsD [OF tr TrueI m(2)] keepsD [OF up_host(4) TrueI m(3)]
      keepsD [OF up_host(2) TrueI m(4)] by blast+
  moreover have "unat f \<le> unat (ev_gas_remaining s4)"
    using f forward_gas_le [of "ev_gas_remaining s4" "ev_gas_remaining s4"] by (auto simp: sget_def word_le_nat_alt)
  ultimately have "unat f < g" using assms by (simp add: up_def)
  then show "dep (\<lambda>RUN. sbind (run_sub RUN (create_context na v f c) ic
       \<lparr>cf_snapshot = snap, cf_gas_at_entry = f, cf_created_address = Some na\<rparr>) (create_settle E na f snap)) s7 g"
    by (intro dep_post dep_run_sub) (simp add: create_context_def)
qed

lemma dep_host_get: "dep (\<lambda>RUN. k RUN (f (ev_host s))) s g \<Longrightarrow> dep (\<lambda>RUN. sbind (host_get f) (k RUN)) s g"
  by (simp add: dep_def sbind_def host_get_def sget_def)

lemma dep_if:
  "(b \<Longrightarrow> dep m s g) \<Longrightarrow> (\<not> b \<Longrightarrow> dep n s g) \<Longrightarrow> dep (\<lambda>RUN. if b then m RUN else n RUN) s g"
  by (cases b) simp_all

lemma dep_create_attempt:
  assumes "unat (ev_gas_remaining s) < g"
  shows "dep (\<lambda>RUN. create_attempt E RUN depth me v ic so) s g"
proof -
  have "dep (\<lambda>RUN. create_enter E RUN me v ic na) t g"
    if "host_call (\<lambda>h. h_inc_nonce (en_host E) h me) s = (Inr x, t)" for na t and x :: u64
    using assms keepsD [OF up_host(4) TrueI that] by (intro dep_create_enter) (simp add: up_def)
  then show ?thesis
    unfolding create_attempt_def by (intro dep_if dep_const dep_host_get dep_then)
qed

lemma dep_do_create:
  assumes "unat (ev_gas_remaining s) < g"
  shows "dep (\<lambda>RUN. do_create E RUN ws) s g"
  unfolding do_create_def
proof (rule dep_sbind)
  fix y t
  assume c: "create_charges ws s = (Inr y, t)"
  obtain v ic so where y: "y = (v, ic, so)" by (cases y)
  have "up 0 s t" by (rule keepsD [OF up_create_charges TrueI c])
  then have "dep (\<lambda>RUN. create_attempt E RUN depth me v ic so) t g" for depth me
    using assms by (intro dep_create_attempt) (simp add: up_def)
  then show "dep (\<lambda>RUN. case y of (v, initcode, salt_opt) \<Rightarrow>
     sbind (sget (\<lambda>s. (length (ev_frames s), cx_callee (ev_ctx s)))) (\<lambda>(depth, me).
       create_attempt E RUN depth me v initcode salt_opt)) t g"
    unfolding y prod.case by (simp add: dep_def sbind_def sget_def)
qed

section \<open>Steps\<close>

lemma execute_indep:
  assumes "b \<notin> {0xf0, 0xf1, 0xf2, 0xf4, 0xf5, 0xfa}"
  shows "execute E RUN b = execute E RUN' b"
  using assms unfolding execute_def by (simp cong: if_cong option.case_cong)

lemma dep_execute:
  assumes "unat (ev_gas_remaining s) < g"
  shows "dep (\<lambda>RUN. execute E RUN b) s g"
proof (cases "b \<in> {0xf0, 0xf1, 0xf2, 0xf4, 0xf5, 0xfa}")
  case False
  then show ?thesis using execute_indep [OF False] unfolding dep_def by metis
next
  case True
  have n: "alu1 c = None" "alu2 c = None" "alu3 c = None" "context_word E c = None"
    if "c \<in> {0xf0, 0xf1, 0xf2, 0xf4, 0xf5, 0xfa}" for c
    using that by (auto simp: alu1_def alu2_def alu3_def context_word_def)
  have "execute E RUN 0xf0 = fall (do_create E RUN False)" "execute E RUN 0xf5 = fall (do_create E RUN True)"
    "execute E RUN 0xf1 = fall (do_call E RUN Call)" "execute E RUN 0xf2 = fall (do_call E RUN CallCode)"
    "execute E RUN 0xf4 = fall (do_call E RUN DelegateCall)" "execute E RUN 0xfa = fall (do_call E RUN StaticCall)" for RUN
    unfolding execute_def by (simp_all add: n)
  moreover have "dep (\<lambda>RUN. fall (do_call E RUN k)) s g" "dep (\<lambda>RUN. fall (do_create E RUN w)) s g" for k w
    unfolding fall_def then_st_def using assms by (intro dep_post dep_do_call dep_do_create; simp)+
  ultimately show ?thesis using True by auto
qed

lemma fuelfree_run_sub [fuelfree_intros]: "fuelfree RUN \<Longrightarrow> fuelfree (run_sub RUN c cd fr)"
  unfolding fuelfree_def run_sub_def Let_def by (auto split: prod.splits sum.splits) (metis fst_conv)

lemma fuelfree_calls [fuelfree_intros]:
  "fuelfree (push_zero_with_ret a)" "fuelfree push_zero" "fuelfree (call_transfer E kind a snap billed)"
  "fuelfree (call_precompiled E a cd billed fwd snap)" "fuelfree (call_empty_code E a billed snap)"
  "fuelfree (call_settle E a billed fwd snap r)" "fuelfree (call_operands kind)" "fuelfree (call_charges E kind a)"
  "fuelfree (create_fail E snap d)" "fuelfree (create_settle E na fwd snap r)" "fuelfree (create_charges ws)"
  unfolding push_zero_with_ret_def push_zero_def call_transfer_def call_precompiled_def call_empty_code_def
    call_settle_def call_operands_def call_charges_def create_fail_def create_settle_def create_charges_def
  by (auto intro!: fuelfree_intros split: prod.splits call_kind.splits option.splits)

lemma fuelfree_do_call: "fuelfree RUN \<Longrightarrow> fuelfree (do_call E RUN kind)"
  unfolding do_call_def call_enter_def call_dispatch_def
  by (intro fuelfree_intros; assumption)

lemma fuelfree_do_create: "fuelfree RUN \<Longrightarrow> fuelfree (do_create E RUN ws)"
  unfolding do_create_def create_attempt_def create_enter_def
  by (auto intro!: fuelfree_intros split: prod.splits)

lemma fuelfree_execute: "fuelfree RUN \<Longrightarrow> fuelfree (execute E RUN b)"
  unfolding execute_def by (intro fuelfree_intros fuelfree_do_call fuelfree_do_create)

lemma fuelfree_step:
  assumes "fuelfree RUN"
  shows "fst (step E RUN s) \<noteq> Inl OutOfFuel"
proof -
  have "fuelfree (case f of Fall \<Rightarrow> then_st (smod (\<lambda>s. s\<lparr>ev_pc := ev_pc s + 1\<rparr>)) (sret None)
      | Jumped \<Rightarrow> sret None | Exit status \<Rightarrow> sret (Some status))" for f :: flow
    by (cases f) (auto intro!: fuelfree_intros)
  then have "fuelfree (then_st (consume_gas g) (sbind (execute E RUN b) (\<lambda>f. case f of
      Fall \<Rightarrow> then_st (smod (\<lambda>s. s\<lparr>ev_pc := ev_pc s + 1\<rparr>)) (sret None)
    | Jumped \<Rightarrow> sret None | Exit status \<Rightarrow> sret (Some status))))" for g b
    by (intro fuelfree_intros fuelfree_execute assms)
  then show ?thesis unfolding step_def Let_def fuelfree_def by (auto split: option.splits)
qed

text \<open>A step that does not end the frame pays for a jump or moves the program counter forward.\<close>

lemma jump_gas: "from_u8 0x56 = Some 0x56" "from_u8 0x57 = Some 0x57" "static_gas 0x56 = 8" "static_gas 0x57 = 10"
  by (simp_all add: from_u8_def opcode_table_def static_gas_def gas_defs)

lemma step_cases:
  assumes "step E RUN s = (r, t)" "\<not> ev_pc s \<ge> length (ev_code s)" "from_u8 (ev_code s ! ev_pc s) = Some op"
  obtains (no_gas) "r = Inl (Err OutOfGas)" "t = s"
  | (fail) e u where "consume_gas (static_gas op) s = (Inr (), u)" "execute E RUN (ev_code s ! ev_pc s) u = (Inl e, t)" "r = Inl e"
  | (fall) u v where "consume_gas (static_gas op) s = (Inr (), u)" "execute E RUN (ev_code s ! ev_pc s) u = (Inr Fall, v)"
      "r = Inr None" "t = v\<lparr>ev_pc := ev_pc v + 1\<rparr>"
  | (jumped) u where "consume_gas (static_gas op) s = (Inr (), u)" "execute E RUN (ev_code s ! ev_pc s) u = (Inr Jumped, t)" "r = Inr None"
  | (exit) u st where "consume_gas (static_gas op) s = (Inr (), u)" "execute E RUN (ev_code s ! ev_pc s) u = (Inr (Exit st), t)" "r = Inr (Some st)"
proof -
  let ?k = "\<lambda>f. case f of Fall \<Rightarrow> then_st (smod (\<lambda>s. s\<lparr>ev_pc := ev_pc s + 1\<rparr>)) (sret None)
      | Jumped \<Rightarrow> sret None | Exit status \<Rightarrow> sret (Some status)"
  have e: "then_st (consume_gas (static_gas op)) (sbind (execute E RUN (ev_code s ! ev_pc s)) ?k) s = (r, t)"
    using assms(1) unfolding step_def Let_def if_not_P [OF assms(2)] assms(3) option.case .
  show thesis using e
  proof (cases rule: then_cases)
    case (fail e)
    then show thesis using no_gas by (auto simp: consume_gas_def split: if_splits)
  next
    case (ok x u)
    from ok(2) show thesis
    proof (cases rule: sbind_cases)
      case (fail e)
      then show thesis using that(2) ok(1) by simp
    next
      case k: (ok f v)
      show thesis
      proof (cases f)
        case Fall
        then show thesis using that(3) ok(1) k by (auto simp: then_st_def sbind_def smod_def sret_def)
      next
        case Jumped
        then show thesis using that(4) ok(1) k by (auto simp: sret_def)
      next
        case (Exit st)
        then show thesis using that(5) ok(1) k by (auto simp: sret_def)
      qed
    qed
  qed
qed

lemma step_next:
  assumes "step E RUN s = (Inr None, t)"
  shows "unat (ev_gas_remaining t) < unat (ev_gas_remaining s) \<or>
    unat (ev_gas_remaining t) \<le> unat (ev_gas_remaining s) \<and>
    length (ev_code t) - ev_pc t < length (ev_code s) - ev_pc s"
proof -
  have pc: "\<not> ev_pc s \<ge> length (ev_code s)" using assms by (auto simp: step_def)
  then obtain op where op: "from_u8 (ev_code s ! ev_pc s) = Some op" using assms by (auto simp: step_def Let_def split: option.splits)
  from assms pc op show ?thesis
  proof (cases rule: step_cases)
    case (fall u v)
    have "up 0 s u" using keepsD [OF gasf.keeps_consume TrueI fall(1)] .
    moreover have "up 0 u v" using execute_fall [OF fall(2)] .
    ultimately show ?thesis using fall(4) pc by (auto simp: up_def)
  next
    case (jumped u)
    have b: "ev_code s ! ev_pc s = 0x56 \<or> ev_code s ! ev_pc s = 0x57" using execute_jumped [OF jumped(2)] .
    then have "8 \<le> unat (static_gas op)" using op by (auto simp: jump_gas)
    moreover have "unat (ev_gas_remaining u) + unat (static_gas op) \<le> unat (ev_gas_remaining s)"
      using costs_consume jumped(1) by (auto simp: costs_def)
    moreover have "same_frame u t" using keepsD [OF sf_execute TrueI jumped(2)] .
    ultimately show ?thesis by (simp add: same_frame_def)
  qed auto
qed

text \<open>The step consults its sub-run at most at one state, with less gas.\<close>

lemma call_static_gas:
  assumes "b \<in> {0xf0, 0xf1, 0xf2, 0xf4, 0xf5, 0xfa}" "from_u8 b = Some op"
  shows "0 < unat (static_gas op)"
  using assms by (auto simp: from_u8_def opcode_table_def static_gas_def gas_defs)

lemma dep_step: "dep (\<lambda>RUN. step E RUN) s (unat (ev_gas_remaining s))"
proof (cases "ev_pc s \<ge> length (ev_code s) \<or> from_u8 (ev_code s ! ev_pc s) = None")
  case True
  then show ?thesis by (auto simp: dep_def step_def Let_def)
next
  case False
  let ?b = "ev_code s ! ev_pc s"
  let ?k = "\<lambda>f. case f of Fall \<Rightarrow> then_st (smod (\<lambda>s. s\<lparr>ev_pc := ev_pc s + 1\<rparr>)) (sret None)
      | Jumped \<Rightarrow> sret None | Exit status \<Rightarrow> sret (Some status)"
  from False obtain op where op: "from_u8 ?b = Some op" and pc: "\<not> ev_pc s \<ge> length (ev_code s)" by auto
  have st: "step E RUN s = then_st (consume_gas (static_gas op)) (sbind (execute E RUN ?b) ?k) s" for RUN
    unfolding step_def Let_def if_not_P [OF pc] op option.case ..
  have "dep (\<lambda>RUN. then_st (consume_gas (static_gas op)) (sbind (execute E RUN ?b) ?k)) s (unat (ev_gas_remaining s))"
  proof (rule dep_then)
    fix x u
    assume c: "consume_gas (static_gas op) s = (Inr x, u)"
    show "dep (\<lambda>RUN. sbind (execute E RUN ?b) ?k) u (unat (ev_gas_remaining s))"
    proof (cases "?b \<in> {0xf0, 0xf1, 0xf2, 0xf4, 0xf5, 0xfa}")
      case True
      have "unat (ev_gas_remaining u) < unat (ev_gas_remaining s)"
        using costs_consume [of "static_gas op"] c call_static_gas [OF True op] unfolding costs_def by fastforce
      then show ?thesis by (intro dep_post dep_execute)
    next
      case False
      show ?thesis
        by (rule dep_post) (simp only: dep_def, intro disjI1 allI fun_cong [OF execute_indep [OF False]])
    qed
  qed
  then show ?thesis unfolding dep_def st .
qed

section \<open>Every run ends\<close>

lemma run_converges:
  "\<exists>N r t. r \<noteq> Inl OutOfFuel \<and> (\<forall>n\<ge>N. run E n s = (r, t))"
proof (induction s rule: wf_induct [OF wf_measures [of "[\<lambda>s. unat (ev_gas_remaining s), \<lambda>s. length (ev_code s) - ev_pc s]"]])
  case (1 s)
  note IH = 1 [rule_format]
  have "\<exists>N q. \<forall>n\<ge>N. step E (run E n) s = q \<and> fst q \<noteq> Inl OutOfFuel"
  proof -
    consider "\<forall>RUN RUN'. step E RUN s = step E RUN' s"
      | p where "unat (ev_gas_remaining p) < unat (ev_gas_remaining s)"
          "\<forall>RUN RUN'. RUN p = RUN' p \<longrightarrow> step E RUN s = step E RUN' s"
      using dep_step [of E s] unfolding dep_def by blast
    then show ?thesis
    proof cases
      case 1
      define q where "q = step E (\<lambda>t. (Inl Panic, t)) s"
      have "fst q \<noteq> Inl OutOfFuel" unfolding q_def by (rule fuelfree_step) (simp add: fuelfree_def)
      moreover have "step E RUN s = q" for RUN unfolding q_def by (rule 1 [rule_format])
      ultimately show ?thesis by blast
    next
      case 2
      have "(p, s) \<in> measures [\<lambda>s. unat (ev_gas_remaining s), \<lambda>s. length (ev_code s) - ev_pc s]" using 2(1) by simp
      from IH [OF this] obtain N r t where r: "r \<noteq> Inl OutOfFuel" "\<forall>n\<ge>N. run E n p = (r, t)" by blast
      define q where "q = step E (\<lambda>_. (r, t)) s"
      have "fst q \<noteq> Inl OutOfFuel" unfolding q_def using r(1) by (intro fuelfree_step) (simp add: fuelfree_def)
      moreover have "step E (run E n) s = q" if "n \<ge> N" for n
        unfolding q_def by (rule 2(2) [rule_format]) (simp add: r(2) that)
      ultimately show ?thesis by blast
    qed
  qed
  then obtain N q where q: "\<And>n. n \<ge> N \<Longrightarrow> step E (run E n) s = q" "fst q \<noteq> Inl OutOfFuel" by blast
  obtain r t where rt: "q = (r, t)" by (cases q)
  show ?case
  proof (cases "r = Inr None")
    case True
    have "step E (run E N) s = (Inr None, t)" using q(1) [of N] rt True by simp
    from step_next [OF this]
    have "(t, s) \<in> measures [\<lambda>s. unat (ev_gas_remaining s), \<lambda>s. length (ev_code s) - ev_pc s]" by auto
    from IH [OF this] obtain M r' t' where m: "r' \<noteq> Inl OutOfFuel" "\<forall>n\<ge>M. run E n t = (r', t')" by blast
    have "run E n s = (r', t')" if "n \<ge> Suc (max N M)" for n
    proof -
      define k where "k = n - 1"
      have k: "n = Suc k" "k \<ge> N" "k \<ge> M" using that unfolding k_def by auto
      then show ?thesis using q(1) [of k] rt True m(2) by simp
    qed
    then show ?thesis using m(1) by blast
  next
    case False
    define out :: "(evm_error, exit_status \<times> u64) res" where "out = (case r of Inl (Err e) \<Rightarrow> Inr (Failed e, gas_used t) | Inl Panic \<Rightarrow> Inl Panic
       | Inl OutOfFuel \<Rightarrow> Inl OutOfFuel | Inr (Some status) \<Rightarrow> Inr (status, gas_used t) | Inr None \<Rightarrow> Inl Panic)"
    have "out \<noteq> Inl OutOfFuel" using q(2) rt by (auto simp: out_def split: sum.splits fault.splits option.splits)
    moreover have "run E n s = (out, t)" if "n \<ge> Suc N" for n
    proof -
      define k where "k = n - 1"
      have k: "n = Suc k" "k \<ge> N" using that unfolding k_def by auto
      then show ?thesis using q(1) [of k] rt False by (auto simp: out_def split: sum.splits fault.splits option.splits)
    qed
    ultimately show ?thesis by blast
  qed
qed

end
