(* ===== verification/Evm_Journal.thy ===== *)
theory Evm_Journal
  imports Evm_Terminates
begin

text \<open>
  The contract of the Host trait (\<^verbatim>\<open>zbx-evm/src/host.rs\<close>) as the locale \<open>journaled_host\<close>: a host has a
  view (what reads depend on) and a stack of saved views; a snapshot pushes the view, a revert to
  the top snapshot restores it, a commit drops it, and mutators leave the saved views alone.
  Inside the locale: every run leaves the saved views as it found them, a static frame does not
  change the view, and a CALL that pushes zero has restored the view.  MockHost fulfils the contract.
\<close>

section \<open>Triples over host and context\<close>

text \<open>\<open>hoare F m Q X\<close>: started in a host and context with \<open>F\<close>, a normal return has \<open>Q\<close> and an EVM error
  leaves a host and context with \<open>X\<close>.\<close>

type_synonym 'h host_pred = "'h \<Rightarrow> evm_context \<Rightarrow> bool"

definition hoare :: "'h host_pred \<Rightarrow> ('h, 'a) evm_st \<Rightarrow> ('a \<Rightarrow> 'h evm \<Rightarrow> bool) \<Rightarrow> 'h host_pred \<Rightarrow> bool" where
  "hoare F m Q X \<longleftrightarrow> (\<forall>s r t. F (ev_host s) (ev_ctx s) \<longrightarrow> m s = (r, t) \<longrightarrow>
     (case r of Inr x \<Rightarrow> Q x t | Inl (Err e) \<Rightarrow> X (ev_host t) (ev_ctx t) | Inl _ \<Rightarrow> True))"

abbreviation at_host :: "'h host_pred \<Rightarrow> 'h evm \<Rightarrow> bool" where
  "at_host F s \<equiv> F (ev_host s) (ev_ctx s)"

lemma hoareD:
  "hoare F m Q X \<Longrightarrow> at_host F s \<Longrightarrow> m s = (r, t) \<Longrightarrow>
   case r of Inr x \<Rightarrow> Q x t | Inl (Err e) \<Rightarrow> at_host X t | Inl _ \<Rightarrow> True"
  unfolding hoare_def by blast

lemma hoareI:
  "(\<And>s r t. at_host F s \<Longrightarrow> m s = (r, t) \<Longrightarrow>
     case r of Inr x \<Rightarrow> Q x t | Inl (Err e) \<Rightarrow> at_host X t | Inl _ \<Rightarrow> True) \<Longrightarrow> hoare F m Q X"
  unfolding hoare_def by blast

lemma hoare_conseq:
  assumes "hoare F m Q X" "\<And>h c. F' h c \<Longrightarrow> F h c" "\<And>x s. Q x s \<Longrightarrow> Q' x s" "\<And>h c. X h c \<Longrightarrow> X' h c"
  shows "hoare F' m Q' X'"
  using assms unfolding hoare_def by (fastforce split: sum.splits fault.splits)

lemma hoare_sbind:
  assumes "hoare F m (\<lambda>x. at_host (G x)) X" "\<And>x. hoare (G x) (f x) Q X"
  shows "hoare F (sbind m f) Q X"
  unfolding hoare_def
proof (intro allI impI)
  fix s r t
  assume F: "F (ev_host s) (ev_ctx s)" and m: "sbind m f s = (r, t)"
  from m show "case r of Inr x \<Rightarrow> Q x t | Inl (Err e) \<Rightarrow> X (ev_host t) (ev_ctx t) | Inl _ \<Rightarrow> True"
  proof (cases rule: sbind_cases)
    case (fail e)
    then show ?thesis using assms(1) F unfolding hoare_def by force
  next
    case (ok x u)
    then have "G x (ev_host u) (ev_ctx u)" using assms(1) F unfolding hoare_def by force
    then show ?thesis using assms(2) [of x] ok(2) unfolding hoare_def by blast
  qed
qed

lemma hoare_then:
  "hoare F m (\<lambda>_. at_host G) X \<Longrightarrow> hoare G n Q X \<Longrightarrow> hoare F (then_st m n) Q X"
  unfolding then_st_def by (rule hoare_sbind)

lemma hoare_if: "(b \<Longrightarrow> hoare F m Q X) \<Longrightarrow> (\<not> b \<Longrightarrow> hoare F n Q X) \<Longrightarrow> hoare F (if b then m else n) Q X"
  by simp

lemma hoare_basic:
  "hoare (\<lambda>h c. False) m Q X"
  "(\<And>s. at_host F s \<Longrightarrow> Q x s) \<Longrightarrow> hoare F (sret x) Q X"
  by (auto simp: hoare_def sret_def)

text \<open>Computations that touch neither the host nor the context.\<close>

definition quiet :: "'h evm \<Rightarrow> 'h evm \<Rightarrow> bool" where
  "quiet s t \<longleftrightarrow> ev_host t = ev_host s \<and> ev_ctx t = ev_ctx s"

interpretation qf: frame_rel "\<lambda>_. True" quiet
  by unfold_locales (auto simp: quiet_def)

lemma quiet_host_get: "keeps (\<lambda>_. True) quiet (host_get f)"
  by (simp add: keeps_def host_get_def sget_def quiet_def)

lemma quiet_refund: "keeps (\<lambda>_. True) quiet (refund_gas x)" "keeps (\<lambda>_. True) quiet (smod (\<lambda>s. s\<lparr>ev_logs := f s\<rparr>))"
  by (simp_all add: keeps_def refund_gas_def smod_def quiet_def)

lemmas quiet_rules = quiet_host_get quiet_refund qf.keeps_rules

lemma hoare_quiet:
  assumes "keeps (\<lambda>_. True) quiet m" "\<And>h c. F h c \<Longrightarrow> X h c"
  shows "hoare F m (\<lambda>_. at_host F) X"
  unfolding hoare_def
proof (intro allI impI)
  fix s r t
  assume "F (ev_host s) (ev_ctx s)" "m s = (r, t)"
  moreover from this have "quiet s t" using keepsD [OF assms(1) TrueI] by blast
  ultimately show "case r of Inr x \<Rightarrow> F (ev_host t) (ev_ctx t) | Inl (Err e) \<Rightarrow> X (ev_host t) (ev_ctx t) | Inl _ \<Rightarrow> True"
    using assms(2) by (auto simp: quiet_def split: sum.splits fault.splits)
qed

lemma quiet_bind:
  assumes "keeps (\<lambda>_. True) quiet m" "\<And>h c. F h c \<Longrightarrow> X h c" "\<And>x. hoare F (f x) Q X"
  shows "hoare F (sbind m f) Q X"
  by (rule hoare_sbind [OF hoare_quiet [OF assms(1,2)] assms(3)])

lemma quiet_then:
  "keeps (\<lambda>_. True) quiet m \<Longrightarrow> (\<And>h c. F h c \<Longrightarrow> X h c) \<Longrightarrow> hoare F n Q X \<Longrightarrow> hoare F (then_st m n) Q X"
  unfolding then_st_def by (rule quiet_bind)

text \<open>Reads cannot fail, so they may happen while a snapshot is open.\<close>

lemma hoare_sget:
  "(\<And>s x. at_host F s \<Longrightarrow> x = g s \<Longrightarrow> hoare (\<lambda>h c. F h c \<and> h = ev_host s \<and> c = ev_ctx s) (f x) Q X) \<Longrightarrow> hoare F (sbind (sget g) f) Q X"
  unfolding hoare_def by (auto simp: sbind_def sget_def)

lemma hoare_host_get:
  "(\<And>h c x. F h c \<Longrightarrow> x = g h \<Longrightarrow> hoare (\<lambda>h' c'. F h' c' \<and> h' = h \<and> c' = c) (f x) Q X) \<Longrightarrow> hoare F (sbind (host_get g) f) Q X"
  unfolding host_get_def by (rule hoare_sget) blast

lemma hoare_read: "(\<And>x. hoare F (f x) Q X) \<Longrightarrow> hoare F (sbind (sget g) f) Q X"
  unfolding hoare_def by (auto simp: sbind_def sget_def)

lemma hoare_host_read: "(\<And>x. hoare F (f x) Q X) \<Longrightarrow> hoare F (sbind (host_get g) f) Q X"
  unfolding host_get_def by (rule hoare_read)

lemma hoare_pre: "hoare F m Q X \<Longrightarrow> (\<And>h c. F' h c \<Longrightarrow> F h c) \<Longrightarrow> hoare F' m Q X"
  by (rule hoare_conseq)

lemma hoare_fail: "(\<And>h c. F h c \<Longrightarrow> X h c) \<Longrightarrow> hoare F (sfail e) Q X"
  by (auto simp: hoare_def sfail_def split: fault.splits)

lemma hoare_host_mod:
  "(\<And>h c. F h c \<Longrightarrow> G (g h) c) \<Longrightarrow> hoare F (host_mod g) (\<lambda>_. at_host G) X"
  by (auto simp: hoare_def host_mod_def smod_def)

lemma hoare_smod_host:
  "(\<And>h c. F h c \<Longrightarrow> G (g h c) c) \<Longrightarrow> hoare F (smod (\<lambda>s. s\<lparr>ev_host := g (ev_host s) (ev_ctx s)\<rparr>)) (\<lambda>_. at_host G) X"
  by (auto simp: hoare_def smod_def)

lemma hoare_refund: "hoare F n Q X \<Longrightarrow> hoare F (then_st (refund_gas x) n) Q X"
  by (rule hoare_then [where G = F]) (auto simp: hoare_def refund_gas_def smod_def)

text \<open>The word pushed last.\<close>

lemma hoare_push:
  assumes "\<And>h c. F h c \<Longrightarrow> X h c" "\<And>h c. F h c \<Longrightarrow> w = w0 \<Longrightarrow> G h"
  shows "hoare F (stack_push w) (\<lambda>_ t. at_host F t \<and> (hd (ev_stack t) = w0 \<longrightarrow> G (ev_host t))) X"
  using assms by (auto simp: hoare_def stack_push_def)

text \<open>Gas tests made before the charge keep the charge from failing.\<close>

lemma hoare_paid:
  fixes F :: "'h host_pred"
  assumes "\<And>g. hoare F (n g) Q X" "\<And>g. f g \<le> g"
  shows "hoare F (sbind (sget (\<lambda>s. f (ev_gas_remaining s))) (\<lambda>g. then_st (consume_gas g) (n g))) Q X"
proof (rule hoareI)
  fix s :: "'h evm" and r t
  let ?g = "f (ev_gas_remaining s)"
  let ?u = "s\<lparr>ev_gas_remaining := ev_gas_remaining s - ?g\<rparr>"
  assume "at_host F s" and m: "sbind (sget (\<lambda>s. f (ev_gas_remaining s))) (\<lambda>g. then_st (consume_gas g) (n g)) s = (r, t)"
  then have "at_host F ?u" by simp
  moreover have "n ?g ?u = (r, t)"
    using m assms(2) [of "ev_gas_remaining s"] by (simp add: sbind_def sget_def then_st_def consume_gas_def leD)
  ultimately show "case r of Inr x \<Rightarrow> Q x t | Inl (Err e) \<Rightarrow> at_host X t | Inl _ \<Rightarrow> True"
    by (rule hoareD [OF assms(1)])
qed

lemma hoare_tested:
  fixes F :: "'h host_pred"
  assumes "hoare F m Q X" "hoare F n Q X"
  shows "hoare F (sbind (sget ev_gas_remaining) (\<lambda>g. if g < d then m else then_st (consume_gas d) n)) Q X"
proof (rule hoareI)
  fix s :: "'h evm" and r t
  let ?u = "s\<lparr>ev_gas_remaining := ev_gas_remaining s - d\<rparr>"
  assume f: "at_host F s" and m: "sbind (sget ev_gas_remaining) (\<lambda>g. if g < d then m else then_st (consume_gas d) n) s = (r, t)"
  then have u: "at_host F ?u" by simp
  have "m s = (r, t) \<or> n ?u = (r, t)"
    using m by (auto simp: sbind_def sget_def then_st_def consume_gas_def split: if_splits)
  then show "case r of Inr x \<Rightarrow> Q x t | Inl (Err e) \<Rightarrow> at_host X t | Inl _ \<Rightarrow> True"
    using hoareD [OF assms(1) f] hoareD [OF assms(2) u] by blast
qed

section \<open>The contract\<close>

locale journaled_host =
  fixes E :: "'h evm_env" and view :: "'h \<Rightarrow> 'v" and saved :: "'h \<Rightarrow> (u64 \<times> 'v) list"
  assumes snapshot: "h_snapshot (en_host E) h = (i, h') \<Longrightarrow> view h' = view h \<and> saved h' = (i, view h) # saved h"
    and revert: "saved h = (i, v) # vs \<Longrightarrow>
      view (h_revert_to (en_host E) h i) = v \<and> saved (h_revert_to (en_host E) h i) = vs"
    and commit: "saved h = (i, v) # vs \<Longrightarrow>
      view (h_commit (en_host E) h i) = view h \<and> saved (h_commit (en_host E) h i) = vs"
    and saved_store: "saved (h_storage_store (en_host E) h a k w) = saved h"
    and saved_code: "saved (h_set_code (en_host E) h a cd) = saved h"
    and saved_nonce: "saved (snd (h_inc_nonce (en_host E) h a)) = saved h"
    and saved_transfer: "saved (snd (h_transfer (en_host E) h a b w)) = saved h"
    and saved_destruct: "saved (h_destruct (en_host E) h a b) = saved h"
    and saved_created: "saved (h_mark_created_this_tx (en_host E) h a) = saved h"
    and fresh_nonce: "h_nonce (en_host E) h a = 0 \<Longrightarrow> \<exists>n. fst (h_inc_nonce (en_host E) h a) = Inr n"
    and nonce_view: "view h = view h' \<Longrightarrow> h_nonce (en_host E) h a = h_nonce (en_host E) h' a"
    and nonce_transfer: "h_nonce (en_host E) (snd (h_transfer (en_host E) h a b w)) d = h_nonce (en_host E) h d"

text \<open>The host as a frame must leave it: saved views untouched, and the view itself in a static frame.\<close>

definition closed_host :: "('h \<Rightarrow> 'v) \<Rightarrow> ('h \<Rightarrow> (u64 \<times> 'v) list) \<Rightarrow> evm_context \<Rightarrow> (u64 \<times> 'v) list \<Rightarrow> 'v \<Rightarrow> 'h host_pred" where
  "closed_host view saved c vs v h c' \<longleftrightarrow> c' = c \<and> saved h = vs \<and> (cx_is_static c \<longrightarrow> view h = v)"

text \<open>A run of a sub-frame ends with an exit status or a fault, never with an EVM error.\<close>

definition settled :: "('h, 'a) evm_st \<Rightarrow> bool" where
  "settled m \<longleftrightarrow> (\<forall>s e t. m s \<noteq> (Inl (Err e), t))"

definition nests :: "('h \<Rightarrow> 'v) \<Rightarrow> ('h \<Rightarrow> (u64 \<times> 'v) list) \<Rightarrow> ('h, 'a) evm_st \<Rightarrow> bool" where
  "nests view saved m \<longleftrightarrow> (\<forall>c vs v. hoare (\<lambda>h c'. closed_host view saved c vs v h c' \<and> view h = v) m
     (\<lambda>_. at_host (closed_host view saved c vs v)) (closed_host view saved c vs v))"

text \<open>The same, and a zero on top of the stack says that the view is the one at the start.\<close>

definition atomic :: "('h \<Rightarrow> 'v) \<Rightarrow> ('h \<Rightarrow> (u64 \<times> 'v) list) \<Rightarrow> ('h, 'a) evm_st \<Rightarrow> bool" where
  "atomic view saved m \<longleftrightarrow> (\<forall>c vs v. hoare (\<lambda>h c'. closed_host view saved c vs v h c' \<and> view h = v) m
     (\<lambda>_ t. at_host (closed_host view saved c vs v) t \<and> (hd (ev_stack t) = u256_zero \<longrightarrow> view (ev_host t) = v))
     (closed_host view saved c vs v))"

lemma zero_one_word: "u256_from_u64 0 = u256_zero" "u256_from_u64 1 \<noteq> u256_zero"
  by code_simp+

context journaled_host begin

abbreviation "Closed \<equiv> closed_host view saved"
abbreviation "Still c vs v \<equiv> (\<lambda>h c'. closed_host view saved c vs v h c' \<and> view h = v)"
abbreviation "Open i c vs v \<equiv> (\<lambda>h c'. closed_host view saved c ((i, v) # vs) v h c')"

lemma hoare_snapshot:
  assumes "\<And>i. hoare (\<lambda>h c'. Open i c vs v h c' \<and> view h = v) (f i) Q X"
  shows "hoare (Still c vs v) (sbind (take_snapshot E) f) Q X"
proof (rule hoare_sbind [OF _ assms])
  show "hoare (Still c vs v) (take_snapshot E) (\<lambda>i. at_host (\<lambda>h c'. Open i c vs v h c' \<and> view h = v)) X"
    by (auto simp: hoare_def take_snapshot_def closed_host_def dest: snapshot split: prod.splits)
qed

lemma hoare_revert:
  "hoare (Still c vs v) n Q X \<Longrightarrow> hoare (Open i c vs v) (then_st (host_mod (\<lambda>h. h_revert_to (en_host E) h i)) n) Q X"
  by (rule hoare_then [where G = "Still c vs v"]) (auto intro!: hoare_host_mod simp: closed_host_def dest: revert)

lemma hoare_commit:
  "hoare (Closed c vs v) n Q X \<Longrightarrow> hoare (Open i c vs v) (then_st (host_mod (\<lambda>h. h_commit (en_host E) h i)) n) Q X"
  by (rule hoare_then [where G = "Closed c vs v"]) (auto intro!: hoare_host_mod simp: closed_host_def dest: commit)

lemma push_zero_still:
  "hoare (Still c vs v) (stack_push (u256_from_u64 0))
     (\<lambda>_ t. at_host (Closed c vs v) t \<and> (hd (ev_stack t) = u256_zero \<longrightarrow> view (ev_host t) = v)) (Closed c vs v)"
  by (auto simp: hoare_def stack_push_def)

lemma push_one_closed:
  "hoare (Closed c vs v) (stack_push (u256_from_u64 1))
     (\<lambda>_ t. at_host (Closed c vs v) t \<and> (hd (ev_stack t) = u256_zero \<longrightarrow> view (ev_host t) = v)) (Closed c vs v)"
  by (auto simp: hoare_def stack_push_def zero_one_word)

abbreviation "Done c vs v \<equiv> (\<lambda>_ t. at_host (closed_host view saved c vs v) t \<and>
  (hd (ev_stack t) = u256_zero \<longrightarrow> view (ev_host t) = v))"

lemma quiet_tail:
  "keeps (\<lambda>_. True) quiet m \<Longrightarrow> hoare (Still c vs v) n Q (Closed c vs v) \<Longrightarrow> hoare (Still c vs v) (then_st m n) Q (Closed c vs v)"
  "keeps (\<lambda>_. True) quiet m \<Longrightarrow> hoare (Closed c vs v) n Q (Closed c vs v) \<Longrightarrow> hoare (Closed c vs v) (then_st m n) Q (Closed c vs v)"
  by (auto intro: quiet_then)

lemma journal_push_zero: "hoare (Still c vs v) (push_zero_with_ret a) (Done c vs v) (Closed c vs v)"
  unfolding push_zero_with_ret_def by (intro quiet_tail quiet_rules push_zero_still)

lemma journal_precompiled: "hoare (Open i c vs v) (call_precompiled E a cd b f i) (Done c vs v) (Closed c vs v)"
  unfolding call_precompiled_def
proof (rule hoare_read)
  fix x
  show "hoare (Open i c vs v) (case x of Some (output, used) \<Rightarrow>
         then_st (host_mod (\<lambda>h. h_commit (en_host E) h i)) (then_st (set_return_data output)
         (then_st (ensure_paid (ca_ret_off a) (ca_ret_len a))
         (let copy = min (ca_ret_len a) (length output) in
          then_st (if copy > 0 then memory_write (ca_ret_off a) (take copy output) else sret ())
          (then_st (refund_gas (unused_gas f used b)) (stack_push (u256_from_u64 1))))))
     | None \<Rightarrow> then_st (host_mod (\<lambda>h. h_revert_to (en_host E) h i)) (then_st (set_return_data [])
         (then_st (ensure_paid (ca_ret_off a) (ca_ret_len a)) (stack_push (u256_from_u64 0)))))
     (Done c vs v) (Closed c vs v)"
  proof (cases x)
    case None
    show ?thesis unfolding None option.case by (intro hoare_revert quiet_tail quiet_rules push_zero_still)
  next
    case (Some p)
    show ?thesis
      unfolding Some option.case Let_def
      by (cases p, simp only: prod.case, intro hoare_commit quiet_tail quiet_rules push_one_closed)
  qed
qed

lemma journal_empty_code: "hoare (Open i c vs v) (call_empty_code E a b i) (Done c vs v) (Closed c vs v)"
  unfolding call_empty_code_def by (intro hoare_commit quiet_tail quiet_rules push_one_closed)

lemma hoare_revert1: "hoare (Open i c vs v) (host_mod (\<lambda>h. h_revert_to (en_host E) h i)) (\<lambda>_. at_host (Still c vs v)) X"
  by (auto intro!: hoare_host_mod simp: closed_host_def dest: revert)

lemma hoare_commit1: "hoare (Open i c vs v) (host_mod (\<lambda>h. h_commit (en_host E) h i)) (\<lambda>_. at_host (Closed c vs v)) X"
  by (auto intro!: hoare_host_mod simp: closed_host_def dest: commit)

lemma journal_settle: "hoare (Open i c vs v) (call_settle E a b f i r) (Done c vs v) (Closed c vs v)"
proof (cases r)
  case (fields status used ret logs)
  show ?thesis
  proof (cases "status = Succeeded")
    case True
    have "hoare (Open i c vs v) (then_st (host_mod (\<lambda>h. h_commit (en_host E) h i)) (smod (\<lambda>s. s\<lparr>ev_logs := ev_logs s @ logs\<rparr>)))
        (\<lambda>_. at_host (Closed c vs v)) (Closed c vs v)"
      by (intro hoare_commit hoare_quiet quiet_rules)
    then show ?thesis
      unfolding call_settle_def fields prod.case Let_def if_P [OF True] refl if_True
      by (rule hoare_then) (intro quiet_tail quiet_rules push_one_closed)
  next
    case False
    show ?thesis
      unfolding call_settle_def fields prod.case Let_def if_not_P [OF False]
      by (rule hoare_then [OF hoare_revert1]) (intro quiet_tail quiet_rules push_zero_still)
  qed
qed

lemma journal_run_sub:
  assumes "nests view saved RUN" "settled RUN" "cx_is_static c \<Longrightarrow> cx_is_static c'"
  shows "hoare (Open i c vs v) (run_sub RUN c' cd fr) (\<lambda>_. at_host (Open i c vs v)) X"
  unfolding hoare_def
proof (intro allI impI)
  fix s r t
  assume o: "Open i c vs v (ev_host s) (ev_ctx s)" and m: "run_sub RUN c' cd fr s = (r, t)"
  let ?sub = "(evm_new c' cd (ev_host s))\<lparr>ev_frames := fr # ev_frames s, ev_warm_addresses := ev_warm_addresses s\<rparr>"
  obtain q u where q: "RUN ?sub = (q, u)" by (cases "RUN ?sub")
  have "Still c' ((i, v) # vs) (view (ev_host s)) (ev_host ?sub) (ev_ctx ?sub)"
    using o by (simp add: closed_host_def evm_new_def)
  then have n: "case q of Inr x \<Rightarrow> Closed c' ((i, v) # vs) (view (ev_host s)) (ev_host u) (ev_ctx u)
      | Inl (Err e) \<Rightarrow> Closed c' ((i, v) # vs) (view (ev_host s)) (ev_host u) (ev_ctx u) | Inl _ \<Rightarrow> True"
    using assms(1) q unfolding nests_def hoare_def by blast
  show "case r of Inr x \<Rightarrow> Open i c vs v (ev_host t) (ev_ctx t) | Inl (Err e) \<Rightarrow> X (ev_host t) (ev_ctx t) | Inl _ \<Rightarrow> True"
  proof (cases q)
    case (Inl e)
    then have "\<not> (\<exists>e'. e = Err e')" using assms(2) q unfolding settled_def by blast
    then show ?thesis using m Inl q by (auto simp: run_sub_def split: fault.splits)
  next
    case (Inr x)
    then show ?thesis using m q n o assms(3) by (cases x) (auto simp: run_sub_def closed_host_def)
  qed
qed

lemma journal_dispatch:
  assumes "nests view saved RUN" "settled RUN"
  shows "hoare (Open i c vs v) (call_dispatch E RUN kind a cd b f i) (Done c vs v) (Closed c vs v)"
proof -
  have s: "cx_is_static d \<Longrightarrow> cx_is_static (call_context kind a cd f d)" for d
    by (cases kind) (simp_all add: call_context_def)
  have "hoare (Open i c vs v) (sbind (sget ev_ctx) (\<lambda>d. sbind (run_sub RUN (call_context kind a cd f d) tc fr)
      (call_settle E a b f i))) (Done c vs v) (Closed c vs v)" for tc fr
  proof (rule hoare_sget)
    fix u x
    assume u: "Open i c vs v (ev_host u) (ev_ctx u)" "x = ev_ctx u"
    then have x: "x = c" by (simp add: closed_host_def)
    have "hoare (Open i c vs v) (sbind (run_sub RUN (call_context kind a cd f x) tc fr) (call_settle E a b f i))
        (Done c vs v) (Closed c vs v)"
      unfolding x by (rule hoare_sbind [OF journal_run_sub journal_settle]) (use assms s in auto)
    then show "hoare (\<lambda>h c'. Open i c vs v h c' \<and> h = ev_host u \<and> c' = ev_ctx u)
        (sbind (run_sub RUN (call_context kind a cd f x) tc fr) (call_settle E a b f i)) (Done c vs v) (Closed c vs v)"
      by (rule hoare_conseq) auto
  qed
  then show ?thesis
    unfolding call_dispatch_def by (intro hoare_if hoare_host_read journal_precompiled journal_empty_code)
qed

lemma journal_transfer:
  assumes "\<not> (cx_is_static c \<and> moves_value kind (ca_value a))"
  shows "hoare (Open i c vs v) (call_transfer E kind a i b)
    (\<lambda>ok. at_host (if ok then Open i c vs v else Still c vs v)) X"
proof (cases "kind = Call \<and> moves_value kind (ca_value a)")
  case True
  then have n: "\<not> cx_is_static c" using assms by blast
  have r: "hoare (Open i c vs v) (then_st (host_mod (\<lambda>h. h_revert_to (en_host E) h i)) (then_st (refund_gas b) (sret False)))
      (\<lambda>ok. at_host (if ok then Open i c vs v else Still c vs v)) X"
    by (intro hoare_revert hoare_refund hoare_basic) simp
  have t: "hoare (Open i c vs v) (then_st (host_ignore (\<lambda>h. h_transfer (en_host E) h me d w)) (sret True))
      (\<lambda>ok. at_host (if ok then Open i c vs v else Still c vs v)) X" for me d w
    unfolding host_ignore_def
    by (rule hoare_then [where G = "Open i c vs v"], rule hoare_host_mod)
      (use n in \<open>auto simp: closed_host_def saved_transfer intro!: hoare_basic(2)\<close>)
  show ?thesis
    unfolding call_transfer_def if_P [OF True] host_get_def by (intro hoare_read hoare_if r t)
next
  case False
  show ?thesis unfolding call_transfer_def if_not_P [OF False] by (rule hoare_basic) simp
qed

lemma journal_enter:
  assumes "nests view saved RUN" "settled RUN" "\<not> (cx_is_static c \<and> moves_value kind (ca_value a))"
  shows "hoare (Still c vs v) (call_enter E RUN kind a cd) (Done c vs v) (Closed c vs v)"
proof -
  have t: "hoare (Open i c vs v) (sbind (call_transfer E kind a i b) (\<lambda>ok. if \<not> ok then push_zero_with_ret a
      else call_dispatch E RUN kind a cd b f i)) (Done c vs v) (Closed c vs v)" for i b f
    by (rule hoare_sbind [OF journal_transfer [OF assms(3)]])
      (auto intro: journal_push_zero journal_dispatch [OF assms(1,2)])
  have "hoare (Still c vs v) (sbind (take_snapshot E) (\<lambda>i. sbind (call_transfer E kind a i b) (\<lambda>ok.
      if \<not> ok then push_zero_with_ret a else call_dispatch E RUN kind a cd b f i))) (Done c vs v) (Closed c vs v)" for b f
    by (rule hoare_snapshot) (rule hoare_pre [OF t], simp)
  then show ?thesis
    unfolding call_enter_def Let_def by (intro hoare_read hoare_if journal_push_zero quiet_tail quiet_rules)
qed

lemma operands_static:
  assumes "call_operands kind s = (Inr a, t)"
  shows "\<not> (cx_is_static (ev_ctx s) \<and> moves_value kind (ca_value a))"
proof -
  have v: "keeps (\<lambda>_. True) quiet (case kind of Call \<Rightarrow> stack_pop | CallCode \<Rightarrow> stack_pop
      | DelegateCall \<Rightarrow> sget (\<lambda>s. cx_value (ev_ctx s)) | StaticCall \<Rightarrow> sret u256_zero)"
    by (cases kind) (simp_all add: quiet_rules)
  have "hoare (\<lambda>h c. c = ev_ctx s) (call_operands kind)
      (\<lambda>a _. \<not> (cx_is_static (ev_ctx s) \<and> moves_value kind (ca_value a))) (\<lambda>_ _. True)"
    unfolding call_operands_def
    by (intro quiet_bind quiet_rules v TrueI hoare_sget hoare_if hoare_fail hoare_basic(2)) auto
  then show ?thesis using assms unfolding hoare_def by force
qed

lemma journal_do_call:
  assumes "nests view saved RUN" "settled RUN"
  shows "hoare (Still c vs v) (do_call E RUN kind) (Done c vs v) (Closed c vs v)"
proof -
  have q: "keeps (\<lambda>_. True) quiet (call_operands kind)"
    unfolding call_operands_def by (cases kind) (simp_all, (intro quiet_rules)+)
  have o: "hoare (Still c vs v) (call_operands kind) (\<lambda>a. at_host (\<lambda>h c'. Still c vs v h c' \<and>
      \<not> (cx_is_static c \<and> moves_value kind (ca_value a)))) (Closed c vs v)"
    unfolding hoare_def
  proof (intro allI impI)
    fix s r t
    assume "Still c vs v (ev_host s) (ev_ctx s)" and m: "call_operands kind s = (r, t)"
    moreover have "quiet s t" by (rule keepsD [OF q TrueI m])
    ultimately show "case r of Inr a \<Rightarrow> Still c vs v (ev_host t) (ev_ctx t) \<and> \<not> (cx_is_static c \<and> moves_value kind (ca_value a))
        | Inl (Err e) \<Rightarrow> Closed c vs v (ev_host t) (ev_ctx t) | Inl _ \<Rightarrow> True"
      using operands_static [of kind s _ t] by (auto simp: quiet_def closed_host_def split: sum.splits fault.splits)
  qed
  have ch: "keeps (\<lambda>_. True) quiet (call_charges E kind a)" for a
    unfolding call_charges_def by (intro quiet_rules)
  have "hoare (\<lambda>h c'. Still c vs v h c' \<and> \<not> (cx_is_static c \<and> moves_value kind (ca_value a)))
      (sbind (call_charges E kind a) (call_enter E RUN kind a)) (Done c vs v) (Closed c vs v)" for a
  proof (cases "cx_is_static c \<and> moves_value kind (ca_value a)")
    case True
    then show ?thesis by (simp add: hoare_basic)
  next
    case False
    have "hoare (Still c vs v) (sbind (call_charges E kind a) (call_enter E RUN kind a)) (Done c vs v) (Closed c vs v)"
      by (rule quiet_bind [OF ch]) (simp, rule journal_enter [OF assms False])
    then show ?thesis by (rule hoare_conseq) auto
  qed
  then show ?thesis unfolding do_call_def by (rule hoare_sbind [OF o])
qed

text \<open>Creation happens in frames that are not static only.\<close>

lemma closed_any_view: "\<not> cx_is_static c \<Longrightarrow> Closed c vs v = Closed c vs v'"
  by (auto simp: closed_host_def fun_eq_iff)

abbreviation "Ends c vs v \<equiv> (\<lambda>_. at_host (closed_host view saved c vs v))"

lemma journal_create_fail: "hoare (Open i c vs v) (create_fail E i d) (Ends c vs v) (Closed c vs v)"
proof -
  have "hoare (Still c vs v) (stack_push u256_zero) (\<lambda>_. at_host (Still c vs v)) (Closed c vs v)"
    by (rule hoare_quiet) (auto intro: quiet_rules)
  then have "hoare (Still c vs v) (stack_push u256_zero) (Ends c vs v) (Closed c vs v)" by (rule hoare_conseq) auto
  then show ?thesis unfolding create_fail_def by (intro hoare_revert quiet_tail quiet_rules)
qed

lemma hoare_settle_open:
  assumes "\<not> cx_is_static c"
  shows "hoare (Open i c vs v) (host_mod (\<lambda>h. h_set_code (en_host E) h a cd)) (\<lambda>_. at_host (Open i c vs v)) X"
    and "hoare (Open i c vs v) (host_mod (\<lambda>h. h_mark_created_this_tx (en_host E) h a)) (\<lambda>_. at_host (Open i c vs v)) X"
  using assms by (auto intro!: hoare_host_mod simp: closed_host_def saved_code saved_created)

lemma journal_create_settle:
  assumes "\<not> cx_is_static c"
  shows "hoare (Open i c vs v) (create_settle E na f i r) (Ends c vs v) (Closed c vs v)"
proof (cases r)
  case (fields status used code logs)
  have "hoare (Open i c vs v) (then_st (host_mod (\<lambda>h. h_set_code (en_host E) h na code))
      (then_st (host_mod (\<lambda>h. h_commit (en_host E) h i)) (then_st (smod (\<lambda>s. s\<lparr>ev_logs := ev_logs s @ logs\<rparr>))
      (then_st (set_return_data []) (stack_push (address_word na)))))) (Ends c vs v) (Closed c vs v)"
    by (rule hoare_then [OF hoare_settle_open(1) [OF assms]]) (intro hoare_commit quiet_tail hoare_quiet quiet_rules)
  then show ?thesis
    unfolding create_settle_def fields prod.case Let_def
    by (intro hoare_refund hoare_if hoare_tested journal_create_fail)
qed

lemma journal_create_enter:
  assumes "nests view saved RUN" "settled RUN" "\<not> cx_is_static c" "\<And>h. view h = v \<Longrightarrow> h_nonce (en_host E) h na = 0"
  shows "hoare (Still c vs v) (create_enter E RUN me w ic na) (Ends c vs v) (Closed c vs v)"
proof -
  let ?G = "\<lambda>i h c'. Open i c vs v h c' \<and> h_nonce (en_host E) h na = 0"
  let ?tr = "if \<not> u256_is_zero w then host_ignore (\<lambda>h. h_transfer (en_host E) h me na w) else sret ()"
  have tr: "hoare (?G i) ?tr (\<lambda>_. at_host (?G i)) (Closed c vs v)" for i
    unfolding host_ignore_def using assms(3)
    by (auto intro!: hoare_if hoare_host_mod hoare_basic(2) simp: closed_host_def saved_transfer nonce_transfer)
  have inc: "hoare (?G i) (host_call (\<lambda>h. h_inc_nonce (en_host E) h na)) (\<lambda>_. at_host (Open i c vs v)) (Closed c vs v)" for i
    unfolding hoare_def
  proof (intro allI impI)
    fix s r t
    assume g: "?G i (ev_host s) (ev_ctx s)" and m: "host_call (\<lambda>h. h_inc_nonce (en_host E) h na) s = (r, t)"
    obtain n h where n: "h_inc_nonce (en_host E) (ev_host s) na = (Inr n, h)"
      using fresh_nonce g by (metis prod.collapse)
    then have "saved h = saved (ev_host s)" using saved_nonce by (metis snd_conv)
    then show "case r of Inr x \<Rightarrow> Open i c vs v (ev_host t) (ev_ctx t) | Inl (Err e) \<Rightarrow> Closed c vs v (ev_host t) (ev_ctx t) | Inl _ \<Rightarrow> True"
      using m n g assms(3) by (auto simp: host_call_def closed_host_def)
  qed
  have rest: "hoare (Open i c vs v) (sbind (sget (\<lambda>s. forward_gas_eip150 (ev_gas_remaining s) (ev_gas_remaining s)))
      (\<lambda>f. then_st (consume_gas f) (sbind (sget ev_ctx) (\<lambda>d. sbind (run_sub RUN (create_context na w f d) ic (fr f))
        (create_settle E na f i))))) (Ends c vs v) (Closed c vs v)" for i fr
    by (rule hoare_paid [OF _ forward_gas_le], rule hoare_read, rule hoare_sbind [OF journal_run_sub [OF assms(1,2)]])
      (use assms(3) journal_create_settle in auto)
  have "hoare (?G i) (then_st ?tr (then_st (host_call (\<lambda>h. h_inc_nonce (en_host E) h na))
      (then_st (host_mod (\<lambda>h. h_mark_created_this_tx (en_host E) h na))
      (sbind (sget (\<lambda>s. forward_gas_eip150 (ev_gas_remaining s) (ev_gas_remaining s)))
      (\<lambda>f. then_st (consume_gas f) (sbind (sget ev_ctx) (\<lambda>d. sbind (run_sub RUN (create_context na w f d) ic (fr f))
        (create_settle E na f i)))))))) (Ends c vs v) (Closed c vs v)" for i fr
    by (rule hoare_then [OF tr], rule hoare_then [OF inc], rule hoare_then [OF hoare_settle_open(2) [OF assms(3)]], rule rest)
  note body = hoare_pre [OF this]
  show ?thesis
    unfolding create_enter_def by (rule hoare_snapshot, rule body) (use assms(4) in blast)
qed

lemma journal_create_attempt:
  assumes "nests view saved RUN" "settled RUN" "\<not> cx_is_static c"
  shows "hoare (Still c vs v) (create_attempt E RUN depth me w ic salt) (Ends c vs v) (Closed c vs v)"
proof -
  have z: "hoare (Closed c vs v) push_zero (Ends c vs v) (Closed c vs v)"
    unfolding push_zero_def by (intro quiet_tail hoare_quiet quiet_rules)
  have z': "hoare (Still c vs v) push_zero (Ends c vs v) (Closed c vs v)" by (rule hoare_pre [OF z]) simp
  have inc: "hoare (Still c vs v) (host_call (\<lambda>h. h_inc_nonce (en_host E) h me)) (Ends c vs v) (Closed c vs v)"
    using assms(3) saved_nonce [of _ me]
    by (auto simp: hoare_def host_call_def closed_host_def split: prod.splits sum.splits) (metis snd_conv)+
  have body: "hoare (Closed c vs v) (sbind (host_get (\<lambda>h. h_nonce (en_host E) h na > 0 \<or> h_code (en_host E) h na \<noteq> []))
      (\<lambda>collision. if collision then push_zero else create_enter E RUN me w ic na)) (Ends c vs v) (Closed c vs v)" for na
  proof (rule hoare_host_get)
    fix h c1 x
    assume h: "Closed c vs v h c1" "x = (h_nonce (en_host E) h na > 0 \<or> h_code (en_host E) h na \<noteq> [])"
    have a: "Closed c vs v = Closed c vs (view h)" by (rule closed_any_view [OF assms(3)])
    show "hoare (\<lambda>h' c'. Closed c vs v h' c' \<and> h' = h \<and> c' = c1) (if x then push_zero else create_enter E RUN me w ic na)
        (Ends c vs v) (Closed c vs v)"
    proof (cases x)
      case True
      then show ?thesis by (simp only: if_True) (rule hoare_pre [OF z], simp)
    next
      case False
      then have "h_nonce (en_host E) h na = 0" using h(2) by (simp add: word_neq_0_conv [symmetric])
      then have "h_nonce (en_host E) h' na = 0" if "view h' = view h" for h' using nonce_view [OF that] by simp
      then have "hoare (Still c vs (view h)) (create_enter E RUN me w ic na) (Ends c vs (view h)) (Closed c vs (view h))"
        by (rule journal_create_enter [OF assms])
      note e = hoare_pre [OF this]
      show ?thesis unfolding a if_not_P [OF False] by (rule e) auto
    qed
  qed
  show ?thesis
    unfolding create_attempt_def
    by (rule hoare_if [OF z'], rule hoare_host_read, rule hoare_if [OF z'], rule hoare_host_read, rule hoare_then [OF inc], rule body)
qed

section \<open>One instruction\<close>

lemma nests_quiet: "keeps (\<lambda>_. True) quiet m \<Longrightarrow> nests view saved m"
  unfolding nests_def by (intro allI, rule hoare_conseq [OF hoare_quiet]) auto

lemma nests_fall: "nests view saved m \<Longrightarrow> nests view saved (fall m)"
proof -
  assume m: "nests view saved m"
  show ?thesis
    unfolding nests_def fall_def
  proof (intro allI)
    fix c :: evm_context and vs v
    have "hoare (Still c vs v) m (Ends c vs v) (Closed c vs v)" using m unfolding nests_def by blast
    then show "hoare (Still c vs v) (then_st m (sret Fall)) (Ends c vs v) (Closed c vs v)"
      by (rule hoare_then) (rule hoare_basic, simp)
  qed
qed

lemma nests_if: "(b \<Longrightarrow> nests view saved m) \<Longrightarrow> (\<not> b \<Longrightarrow> nests view saved n) \<Longrightarrow> nests view saved (if b then m else n)"
  by simp

lemma nests_option:
  "nests view saved m \<Longrightarrow> (\<And>y. nests view saved (f y)) \<Longrightarrow> nests view saved (case x of None \<Rightarrow> m | Some y \<Rightarrow> f y)"
  by (cases x) auto

lemma hoare_guard:
  assumes "\<not> cx_is_static c \<Longrightarrow> hoare (Still c vs v) n Q (Closed c vs v)"
  shows "hoare (Still c vs v) (then_st guard_static n) Q (Closed c vs v)"
proof (cases "cx_is_static c")
  case True
  then show ?thesis by (auto simp: hoare_def then_st_def sbind_def guard_static_def closed_host_def)
next
  case False
  show ?thesis by (rule quiet_then [OF qf.keeps_stack(5) _ assms [OF False]]) simp
qed

lemma nests_do_call:
  assumes "nests view saved RUN" "settled RUN"
  shows "nests view saved (do_call E RUN kind)"
  unfolding nests_def by (intro allI, rule hoare_conseq [OF journal_do_call [OF assms]]) auto

lemma nests_do_create:
  assumes "nests view saved RUN" "settled RUN"
  shows "nests view saved (do_create E RUN ws)"
  unfolding nests_def
proof (intro allI)
  fix c :: evm_context and vs v
  have "hoare (Still c vs v) (case p of (w, ic, so) \<Rightarrow> sbind (sget (\<lambda>s. (length (ev_frames s), cx_callee (ev_ctx s))))
      (\<lambda>(depth, me). create_attempt E RUN depth me w ic so)) (Ends c vs v) (Closed c vs v)" if "\<not> cx_is_static c" for p
    by (cases p) (auto intro!: hoare_read journal_create_attempt assms that split: prod.splits)
  then show "hoare (Still c vs v) (do_create E RUN ws) (Ends c vs v) (Closed c vs v)"
    unfolding do_create_def create_charges_def sbind_then
    by (intro hoare_guard quiet_bind) (auto intro!: quiet_rules)
qed

lemma nests_sstore: "nests view saved (op_sstore E)"
  unfolding nests_def op_sstore_def
proof (intro allI hoare_guard)
  fix c :: evm_context and vs v
  assume n: "\<not> cx_is_static c"
  have w: "hoare (Still c vs v) (smod (\<lambda>s. s\<lparr>ev_host := h_storage_store (en_host E) (ev_host s) (cx_callee (ev_ctx s)) k w\<rparr>))
      (Ends c vs v) (Closed c vs v)" for k w
    by (rule hoare_smod_host) (use n in \<open>auto simp: closed_host_def saved_store\<close>)
  show "hoare (Still c vs v) (sbind stack_pop (\<lambda>key. sbind stack_pop (\<lambda>v.
     sbind (sget (\<lambda>s. h_storage_load (en_host E) (ev_host s) (cx_callee (ev_ctx s)) key)) (\<lambda>current.
     then_st (touch_slot key) (then_st
        (if current \<noteq> v then (if u256_is_zero current \<and> \<not> u256_is_zero v then consume_gas GAS_SSTORE_SET
            else consume_gas GAS_SSTORE_RESET) else sret ())
        (smod (\<lambda>s. s\<lparr>ev_host := h_storage_store (en_host E) (ev_host s) (cx_callee (ev_ctx s)) key v\<rparr>))))))) (Ends c vs v) (Closed c vs v)"
    by (intro quiet_bind quiet_tail w) (auto intro!: quiet_rules)
qed

lemma nests_selfdestruct: "nests view saved (op_selfdestruct E)"
  unfolding nests_def op_selfdestruct_def
proof (intro allI hoare_guard)
  fix c :: evm_context and vs v
  assume n: "\<not> cx_is_static c"
  have w: "hoare (Still c vs v) (then_st (smod (\<lambda>s. s\<lparr>ev_host := h_destruct (en_host E) (ev_host s) (cx_callee (ev_ctx s)) b\<rparr>))
      (sret (Exit Succeeded))) (Ends c vs v) (Closed c vs v)" for b
    by (rule hoare_then [where G = "Closed c vs v"], rule hoare_smod_host)
      (use n in \<open>auto simp: closed_host_def saved_destruct intro!: hoare_basic(2)\<close>)
  show "hoare (Still c vs v) (sbind pop_address (\<lambda>b. then_st (consume_gas GAS_SELFDESTRUCT) (then_st (touch_address b)
      (then_st (smod (\<lambda>s. s\<lparr>ev_host := h_destruct (en_host E) (ev_host s) (cx_callee (ev_ctx s)) b\<rparr>))
         (sret (Exit Succeeded)))))) (Ends c vs v) (Closed c vs v)"
    by (intro quiet_bind quiet_tail w) (auto intro!: quiet_rules)
qed

lemmas nests_handlers = qf.keeps_handlers [THEN nests_quiet] qf.keeps_push [THEN nests_quiet]
  qf.keeps_log [THEN nests_quiet] qf.keeps_return [THEN nests_quiet]

end

lemma quiet_jumps: "keeps (\<lambda>_. True) quiet op_jump" "keeps (\<lambda>_. True) quiet op_jumpi"
proof -
  have p: "keeps (\<lambda>_. True) quiet (smod (\<lambda>s. s\<lparr>ev_pc := p\<rparr>))" for p
    by (simp add: keeps_def smod_def quiet_def)
  show "keeps (\<lambda>_. True) quiet op_jump" "keeps (\<lambda>_. True) quiet op_jumpi"
    unfolding op_jump_def op_jumpi_def by (intro qf.keeps_rules p)+
qed

lemma quiet_inline:
  "keeps (\<lambda>_. True) quiet (sbind stack_pop (\<lambda>x. stack_push (f1 x)))"
  "keeps (\<lambda>_. True) quiet (sbind stack_pop (\<lambda>x. sbind stack_pop (\<lambda>y. stack_push (f2 x y))))"
  "keeps (\<lambda>_. True) quiet (sbind stack_pop (\<lambda>x. sbind stack_pop (\<lambda>y. sbind stack_pop (\<lambda>z. stack_push (f3 x y z)))))"
  "keeps (\<lambda>_. True) quiet (sbind (sget g) stack_push)"
  "keeps (\<lambda>_. True) quiet (then_st stack_pop (sret ()))"
  "keeps (\<lambda>_. True) quiet (stack_dup d)" "keeps (\<lambda>_. True) quiet (stack_swap d)"
  "keeps (\<lambda>_. True) quiet (sret x)" "keeps (\<lambda>_. True) quiet (sfail e)"
  by (intro quiet_rules)+

context journaled_host begin

lemma nests_execute:
  assumes "nests view saved RUN" "settled RUN"
  shows "nests view saved (execute E RUN b)"
  unfolding execute_def
  by (intro nests_option nests_if nests_fall nests_handlers nests_sstore nests_selfdestruct
      nests_do_call [OF assms] nests_do_create [OF assms] quiet_jumps [THEN nests_quiet] quiet_inline [THEN nests_quiet])

lemma nests_step:
  assumes "nests view saved RUN" "settled RUN"
  shows "nests view saved (step E RUN)"
  unfolding nests_def
proof (intro allI hoareI)
  fix c :: evm_context and vs v and s :: "'h evm" and r t
  assume st: "Still c vs v (ev_host s) (ev_ctx s)" and m: "step E RUN s = (r, t)"
  show "case r of Inr x \<Rightarrow> Closed c vs v (ev_host t) (ev_ctx t) | Inl (Err e) \<Rightarrow> Closed c vs v (ev_host t) (ev_ctx t) | Inl _ \<Rightarrow> True"
  proof (cases "ev_pc s \<ge> length (ev_code s) \<or> from_u8 (ev_code s ! ev_pc s) = None")
    case True
    then have "t = s" using m by (auto simp: step_def Let_def split: if_splits)
    then show ?thesis using st by (auto split: sum.splits fault.splits)
  next
    case False
    then obtain op where op: "from_u8 (ev_code s ! ev_pc s) = Some op" and pc: "\<not> ev_pc s \<ge> length (ev_code s)" by auto
    have u: "Still c vs v (ev_host u) (ev_ctx u)" if "consume_gas (static_gas op) s = (Inr (), u)" for u
      using keepsD [OF qf.keeps_consume TrueI that] st by (simp add: quiet_def)
    have ex: "hoare (Still c vs v) (execute E RUN b) (Ends c vs v) (Closed c vs v)" for b
      using nests_execute [OF assms] unfolding nests_def by blast
    from m pc op show ?thesis
    proof (cases rule: step_cases)
      case no_gas
      then show ?thesis using st by simp
    next
      case (fail e u)
      show ?thesis using hoareD [OF ex u [OF fail(1)] fail(2)] fail(3) by (auto split: fault.splits)
    next
      case (fall u w)
      show ?thesis using hoareD [OF ex u [OF fall(1)] fall(2)] fall(3,4) by simp
    next
      case (jumped u)
      show ?thesis using hoareD [OF ex u [OF jumped(1)] jumped(2)] jumped(3) by simp
    next
      case (exit u w)
      show ?thesis using hoareD [OF ex u [OF exit(1)] exit(2)] exit(3) by simp
    qed
  qed
qed

lemma settled_run: "settled (run E n)"
  by (induction n) (auto simp: settled_def split: prod.splits sum.splits fault.splits option.splits)

lemma nests_run: "nests view saved (run E n)"
proof (induction n)
  case 0
  show ?case by (simp add: nests_def hoare_def)
next
  case (Suc n)
  show ?case
    unfolding nests_def
  proof (intro allI hoareI)
    fix c :: evm_context and vs v and s :: "'h evm" and r t
    assume st: "Still c vs v (ev_host s) (ev_ctx s)" and m: "run E (Suc n) s = (r, t)"
    obtain q u where q: "step E (run E n) s = (q, u)" by (cases "step E (run E n) s")
    have "hoare (Still c vs v) (step E (run E n)) (Ends c vs v) (Closed c vs v)"
      using nests_step [OF Suc settled_run] unfolding nests_def by blast
    note u = hoareD [OF this st q]
    show "case r of Inr x \<Rightarrow> Closed c vs v (ev_host t) (ev_ctx t) | Inl (Err e) \<Rightarrow> Closed c vs v (ev_host t) (ev_ctx t) | Inl _ \<Rightarrow> True"
    proof (cases "q = Inr None")
      case True
      then have t: "run E n u = (r, t)" using m q by simp
      have cu: "Closed c vs v (ev_host u) (ev_ctx u)" using u True by simp
      then have su: "Still c vs (view (ev_host u)) (ev_host u) (ev_ctx u)" by (simp add: closed_host_def)
      have "hoare (Still c vs (view (ev_host u))) (run E n) (Ends c vs (view (ev_host u))) (Closed c vs (view (ev_host u)))"
        using Suc unfolding nests_def by blast
      from hoareD [OF this su t] show ?thesis using cu by (auto simp: closed_host_def split: sum.splits fault.splits)
    next
      case False
      then have "u = t" "(\<exists>x. q = Inr x) \<or> (\<exists>e. q = Inl (Err e)) \<or> r = Inl Panic \<or> r = Inl OutOfFuel"
        using m q by (auto split: sum.splits fault.splits option.splits)
      then show ?thesis using u by (auto split: sum.splits fault.splits)
    qed
  qed
qed

end

end
