(* ===== verification/Evm_Props.thy ===== *)
theory Evm_Props
  imports Evm_Terminates
begin

text \<open>
  Properties of whole runs of the interpreter that hold for every host, every hash function and
  every set of precompiled contracts: a run ends, and it never ends with more gas than it had.
\<close>

definition plain_context :: "u64 \<Rightarrow> evm_context" where
  "plain_context g = \<lparr>cx_caller = replicate 20 1, cx_callee = replicate 20 2, cx_value = u256_zero, cx_calldata = [],
     cx_gas_limit = g, cx_is_static = False, cx_block_number = 1, cx_timestamp = 1, cx_coinbase = replicate 20 3,
     cx_base_fee = 1, cx_chain_id = 0\<rparr>"

section \<open>Gas of a run\<close>

lemma step_same_frame:
  assumes "step E RUN s = (r, t)"
  shows "same_frame s t"
proof (cases "ev_pc s \<ge> length (ev_code s) \<or> from_u8 (ev_code s ! ev_pc s) = None")
  case True
  then show ?thesis using assms sf.R_refl by (auto simp: step_def Let_def split: if_splits)
next
  case False
  then obtain op where op: "from_u8 (ev_code s ! ev_pc s) = Some op" and pc: "\<not> ev_pc s \<ge> length (ev_code s)" by auto
  note c = keepsD [OF sf.keeps_consume TrueI] and x = keepsD [OF sf_execute TrueI]
  from assms pc op show ?thesis
  proof (cases rule: step_cases)
    case no_gas
    then show ?thesis using sf.R_refl by simp
  next
    case (fall u v)
    have "same_frame s v" by (rule sf.R_trans [OF c [OF fall(1)] x [OF fall(2)]])
    then show ?thesis using fall(4) by (simp add: same_frame_def)
  qed (blast intro: sf.R_trans [OF c x])+
qed

lemma run_same_frame:
  assumes "run E n s = (r, t)"
  shows "same_frame s t"
  using assms
proof (induction n arbitrary: s)
  case 0
  then show ?case using sf.R_refl by simp
next
  case (Suc n)
  obtain q u where q: "step E (run E n) s = (q, u)" by (cases "step E (run E n) s")
  have u: "same_frame s u" by (rule step_same_frame [OF q])
  show ?case
  proof (cases "q = Inr None")
    case True
    then have "same_frame u t" using Suc q by simp
    then show ?thesis using sf.R_trans u by blast
  next
    case False
    then have "u = t" using Suc.prems q by (auto split: sum.splits fault.splits option.splits)
    then show ?thesis using u by simp
  qed
qed

text \<open>C8. Every run of the interpreter ends: for every host, hash function, set of precompiled
  contracts, code and frame state there is a result other than running out of the model's fuel
  (an exit status, or the Rust panic) that every sufficiently large fuel computes.  Loops pay gas
  for each jump and a sub-call starts with less gas than its caller had.\<close>

theorem evm_run_terminates:
  "\<exists>N r t. r \<noteq> Inl OutOfFuel \<and> (\<forall>k. run E (N + k) s = (r, t))"
proof -
  obtain N r t where "r \<noteq> Inl OutOfFuel" "\<forall>n\<ge>N. run E n s = (r, t)" using run_converges by metis
  then have "r \<noteq> Inl OutOfFuel \<and> (\<forall>k. run E (N + k) s = (r, t))" by simp
  then show ?thesis by blast
qed

text \<open>C4. Gas is never created: a run that returns ends with at most the gas it started with, in the
  same frame, and reports as used exactly the difference between its gas limit and what is left,
  never more than the limit.\<close>

theorem evm_gas_bounded:
  assumes "run E n (evm_new c code h) = (Inr (status, used), t)"
  shows "unat (ev_gas_remaining t) \<le> unat (cx_gas_limit c) \<and>
    unat used = unat (cx_gas_limit c) - unat (ev_gas_remaining t)"
proof -
  have f: "same_frame (evm_new c code h) t" by (rule run_same_frame [OF assms])
  have "run E n s = (Inr (status, used), t) \<Longrightarrow> used = gas_used t" for s
    by (induction n arbitrary: s) (auto split: prod.splits sum.splits fault.splits option.splits)
  then have "used = gas_used t" using assms by blast
  then show ?thesis
    using f by (simp add: gas_used_def unat_sat_sub64 same_frame_def evm_new_def)
qed

definition sum_state :: "mock_host evm" where
  "sum_state = evm_new (plain_context 50) [0x60, 7, 0x60, 5, 1, 0] mock_new"

lemma sum_run: "fst (run (mock_env (\<lambda>_. u256_zero) (\<lambda>_ _ _ _ _. None)) 5 sum_state) = Inr (Succeeded, 9)"
  by code_simp

theorem evm_gas_bounded_witness:
  "unat (ev_gas_remaining (snd (run (mock_env (\<lambda>_. u256_zero) (\<lambda>_ _ _ _ _. None)) 5 sum_state))) = 41"
proof -
  let ?r = "run (mock_env (\<lambda>_. u256_zero) (\<lambda>_ _ _ _ _. None)) 5 sum_state"
  have "?r = (Inr (Succeeded, 9), snd ?r)" using sum_run by (metis prod.collapse)
  from evm_gas_bounded [OF this [unfolded sum_state_def]] show ?thesis
    unfolding sum_state_def by (auto simp: plain_context_def)
qed

end
