(* ===== verification/Evm_Host_Props.thy ===== *)
theory Evm_Host_Props
  imports Evm_Journal Evm_Props Evm_Modular
begin

text \<open>
  MockHost fulfils the contract of the Host trait, and what follows for the interpreter on it:
  snapshots stay balanced, static frames are read-only, a failed CALL is rolled back.  A CALL that succeeds
  moves its value between distinct accounts; a contract that calls itself creates balance.
\<close>

section \<open>MockHost is a journaled host\<close>

definition mock_view :: "mock_host \<Rightarrow> (address \<times> mock_account) list \<times> address list" where
  "mock_view h = (mh_accounts h, mh_created_this_tx h)"

definition mock_saved :: "mock_host \<Rightarrow> (u64 \<times> (address \<times> mock_account) list \<times> address list) list" where
  "mock_saved h = map (\<lambda>s. (ms_id s, ms_accounts s, ms_created_this_tx s)) (mh_snapshots h)"

lemma mock_entry_saved: "mock_saved (mock_entry h a f) = mock_saved h"
  by (simp add: mock_saved_def mock_entry_def Let_def)

lemma mock_transfer_saved: "mock_saved (snd (mock_transfer h a b v)) = mock_saved h"
  by (simp add: mock_transfer_def Let_def mock_entry_saved)

lemma mock_saved_update: "mock_saved (h\<lparr>mh_accounts := x\<rparr>) = mock_saved h" "mock_saved (h\<lparr>mh_created_this_tx := y\<rparr>) = mock_saved h"
  by (simp_all add: mock_saved_def)

lemma mock_destruct_saved: "mock_saved (mock_destruct h a b) = mock_saved h"
proof -
  let ?h = "if mock_balance h a \<noteq> u256_zero \<and> a \<noteq> b then snd (mock_transfer h a b (mock_balance h a)) else h"
  have "mock_saved ?h = mock_saved h" by (simp add: mock_transfer_saved)
  then show ?thesis
    unfolding mock_destruct_def Let_def by (simp add: mock_saved_update mock_transfer_saved split: option.splits)
qed

lemma mock_entry_nonce:
  "(\<And>x. ma_nonce (f x) = ma_nonce x) \<Longrightarrow> mock_nonce (mock_entry h a f) b = mock_nonce h b"
  by (simp add: mock_nonce_def mock_entry_def Let_def mock_default_def split: option.splits)

lemma mock_transfer_nonce: "mock_nonce (snd (mock_transfer h a b v)) d = mock_nonce h d"
  by (simp add: mock_transfer_def Let_def mock_entry_nonce)

lemma mock_saved_Cons:
  assumes "mock_saved h = (i, v) # vs"
  obtains sn sns where "mh_snapshots h = sn # sns" "ms_id sn = i" "v = (ms_accounts sn, ms_created_this_tx sn)"
    "vs = map (\<lambda>s. (ms_id s, ms_accounts s, ms_created_this_tx s)) sns"
  using assms by (auto simp: mock_saved_def)

interpretation mock: journaled_host "mock_env k p" mock_view mock_saved for k p
proof unfold_locales
  fix h h' :: mock_host and i v vs a
  show "h_snapshot (en_host (mock_env k p)) h = (i, h') \<Longrightarrow> mock_view h' = mock_view h \<and> mock_saved h' = (i, mock_view h) # mock_saved h"
    by (auto simp: mock_env_def mock_ops_def mock_do_snapshot_def Let_def mock_view_def mock_saved_def)
  show "mock_saved h = (i, v) # vs \<Longrightarrow> mock_view (h_revert_to (en_host (mock_env k p)) h i) = v \<and>
      mock_saved (h_revert_to (en_host (mock_env k p)) h i) = vs"
    by (elim mock_saved_Cons) (simp add: mock_env_def mock_ops_def mock_revert_to_def mock_view_def mock_saved_def)
  show "mock_saved h = (i, v) # vs \<Longrightarrow> mock_view (h_commit (en_host (mock_env k p)) h i) = mock_view h \<and>
      mock_saved (h_commit (en_host (mock_env k p)) h i) = vs"
    by (elim mock_saved_Cons) (simp add: mock_env_def mock_ops_def mock_commit_def mock_view_def mock_saved_def)
  show "h_nonce (en_host (mock_env k p)) h a = 0 \<Longrightarrow> \<exists>n. fst (h_inc_nonce (en_host (mock_env k p)) h a) = Inr n"
    by (simp add: mock_env_def mock_ops_def mock_inc_nonce_def Let_def)
  show "mock_view h = mock_view h' \<Longrightarrow> h_nonce (en_host (mock_env k p)) h a = h_nonce (en_host (mock_env k p)) h' a"
    by (simp add: mock_env_def mock_ops_def mock_view_def mock_nonce_def)
qed (simp_all add: mock_env_def mock_ops_def mock_storage_store_def mock_set_code_def mock_inc_nonce_def Let_def
    mock_entry_saved mock_transfer_saved mock_transfer_nonce mock_destruct_saved mock_mark_created_this_tx_def
    mock_saved_update)

section \<open>Runs on MockHost\<close>

lemma mock_saved_inject: "mock_saved h = mock_saved h' \<longleftrightarrow> mh_snapshots h = mh_snapshots h'"
proof -
  have "inj (\<lambda>s :: mock_snapshot. (ms_id s, ms_accounts s, ms_created_this_tx s))"
    by (rule injI, rule mock_snapshot.equality) auto
  from inj_map_eq_map [OF this] show ?thesis unfolding mock_saved_def .
qed

definition no_hash :: "bytes \<Rightarrow> bytes" where
  "no_hash _ = u256_zero"

definition no_precompile :: "mock_host \<Rightarrow> u64 \<Rightarrow> address \<Rightarrow> bytes \<Rightarrow> u64 \<Rightarrow> (bytes \<times> u64) option" where
  "no_precompile _ _ _ _ _ = None"

definition me :: address where "me = replicate 20 2"
definition you :: address where "you = replicate 20 4"

text \<open>A contract that writes slot 0 and reverts, called from an account without code.\<close>

definition rev_host :: mock_host where
  "rev_host = mock_install_code mock_new you [0x60, 1, 0x60, 0, 0x55, 0x5f, 0x5f, 0xfd]"

definition call_state :: "mock_host evm" where
  "call_state = (evm_new (plain_context 200000) [0xf1] rev_host)\<lparr>ev_stack :=
     [u256_from_u64 100000, address_word you, u256_zero, u256_zero, u256_zero, u256_zero, u256_zero]\<rparr>"

definition caller_code :: bytes where
  "caller_code = [0x5f, 0x5f, 0x5f, 0x5f, 0x73] @ you @ [0x62, 1, 0, 0, 0xfa, 0]"

lemma call_state_run:
  "fst (do_call (mock_env no_hash no_precompile) (run (mock_env no_hash no_precompile) 9) Call call_state) = Inr () \<and>
   hd (ev_stack (snd (do_call (mock_env no_hash no_precompile) (run (mock_env no_hash no_precompile) 9) Call call_state))) = u256_zero"
  by code_simp

lemma static_run:
  "fst (run (mock_env no_hash no_precompile) 20 (evm_new ((plain_context 200000)\<lparr>cx_is_static := True\<rparr>) caller_code rev_host)) =
     Inr (Succeeded, 2624)"
  by code_simp

text \<open>A contract that sends one unit to itself (and stops when it is its own caller).\<close>

definition self_sender :: bytes where
  "self_sender = [0x30, 0x33, 0x14, 0x60, 0x0f, 0x57, 0x5f, 0x5f, 0x5f, 0x5f, 0x60, 1, 0x30, 0x5f, 0xf1, 0x5b, 0]"

definition mint_host :: mock_host where
  "mint_host = mock_credit (mock_install_code mock_new me self_sender) me (u256_from_u64 5)"

text \<open>C9. A run on MockHost leaves the stack of snapshots as it found it, however calls and creations
  nest and whichever of them fail; and a static frame, with everything it calls, changes no
  account and marks no address as created.\<close>

theorem evm_static_frames_read_only:
  assumes "run (mock_env k p) n (evm_new c code h) = (Inr (status, used), t)"
  shows "mh_snapshots (ev_host t) = mh_snapshots h \<and>
    (cx_is_static c \<longrightarrow> mh_accounts (ev_host t) = mh_accounts h \<and> mh_created_this_tx (ev_host t) = mh_created_this_tx h)"
proof -
  have "hoare (\<lambda>h' c'. closed_host mock_view mock_saved c (mock_saved h) (mock_view h) h' c' \<and> mock_view h' = mock_view h)
      (run (mock_env k p) n) (\<lambda>_. at_host (closed_host mock_view mock_saved c (mock_saved h) (mock_view h)))
      (closed_host mock_view mock_saved c (mock_saved h) (mock_view h))"
    using mock.nests_run unfolding nests_def by blast
  from hoareD [OF this _ assms] show ?thesis
    by (simp add: closed_host_def evm_new_def mock_saved_inject) (simp add: mock_view_def)
qed

theorem evm_static_frames_read_only_witness:
  "let s = evm_new ((plain_context 200000)\<lparr>cx_is_static := True\<rparr>) caller_code rev_host
   in mh_accounts (ev_host (snd (run (mock_env no_hash no_precompile) 20 s))) = mh_accounts rev_host"
proof -
  let ?r = "run (mock_env no_hash no_precompile) 20 (evm_new ((plain_context 200000)\<lparr>cx_is_static := True\<rparr>) caller_code rev_host)"
  have "?r = (Inr (Succeeded, 2624), snd ?r)" using static_run by (metis prod.collapse)
  from evm_static_frames_read_only [OF this] show ?thesis by simp
qed

text \<open>C21. A CALL, CALLCODE, DELEGATECALL or STATICCALL that pushes zero (refused, reverted or failed) has
  rolled everything back: accounts, created addresses and snapshots are those before the
  instruction.\<close>

theorem evm_failed_call_rolled_back:
  assumes "do_call (mock_env k p) (run (mock_env k p) n) kind s = (Inr (), t)" "hd (ev_stack t) = u256_zero"
  shows "mh_accounts (ev_host t) = mh_accounts (ev_host s) \<and>
    mh_created_this_tx (ev_host t) = mh_created_this_tx (ev_host s) \<and> mh_snapshots (ev_host t) = mh_snapshots (ev_host s)"
proof -
  let ?h = "ev_host s" and ?c = "ev_ctx s"
  have "hoare (\<lambda>h' c'. closed_host mock_view mock_saved ?c (mock_saved ?h) (mock_view ?h) h' c' \<and> mock_view h' = mock_view ?h)
      (do_call (mock_env k p) (run (mock_env k p) n) kind)
      (\<lambda>_ t. at_host (closed_host mock_view mock_saved ?c (mock_saved ?h) (mock_view ?h)) t \<and>
         (hd (ev_stack t) = u256_zero \<longrightarrow> mock_view (ev_host t) = mock_view ?h))
      (closed_host mock_view mock_saved ?c (mock_saved ?h) (mock_view ?h))"
    by (rule mock.journal_do_call [OF mock.nests_run mock.settled_run])
  from hoareD [OF this _ assms(1)] assms(2) show ?thesis
    by (simp add: closed_host_def mock_saved_inject) (simp add: mock_view_def)
qed

theorem evm_failed_call_rolled_back_witness:
  "mh_accounts (ev_host (snd (do_call (mock_env no_hash no_precompile) (run (mock_env no_hash no_precompile) 9) Call call_state))) =
     mh_accounts (ev_host call_state)"
proof -
  let ?r = "do_call (mock_env no_hash no_precompile) (run (mock_env no_hash no_precompile) 9) Call call_state"
  have "?r = (Inr (), snd ?r)" using call_state_run by (metis prod.collapse)
  from evm_failed_call_rolled_back [OF this] show ?thesis using call_state_run by simp
qed

section \<open>Value transfers\<close>

lemma mock_entry_balance:
  "mock_balance (mock_entry h a (\<lambda>x. x\<lparr>ma_balance := v\<rparr>)) b = (if b = a then v else mock_balance h b)"
  by (simp add: mock_balance_def mock_entry_def Let_def)

text \<open>A transfer between two distinct accounts of MockHost debits the one and credits the other
  by the value, and changes no other balance; it fails exactly when the sender's balance is
  below the value, and then changes nothing.\<close>

lemma mock_transfer_moves:
  assumes "a \<noteq> b" "is_u256 v" "is_u256 (mock_balance h a)" "is_u256 (mock_balance h b)"
  shows "case mock_transfer h a b v of
      (Inr _, h') \<Rightarrow> be_val v \<le> be_val (mock_balance h a) \<and>
        be_val (mock_balance h' a) = be_val (mock_balance h a) - be_val v \<and>
        be_val (mock_balance h' b) = (be_val (mock_balance h b) + be_val v) mod 2 ^ 256 \<and>
        (\<forall>d. d \<noteq> a \<and> d \<noteq> b \<longrightarrow> mock_balance h' d = mock_balance h d)
    | (Inl e, h') \<Rightarrow> be_val (mock_balance h a) < be_val v \<and> e = InsufficientBalance \<and> h' = h"
proof -
  have less: "bytes_less (mock_balance h a) v \<longleftrightarrow> be_val (mock_balance h a) < be_val v"
    using u256_lt_val [OF assms(3,2)] by (simp add: u256_lt_def)
  have sub: "be_val (u256_sub (mock_balance h a) v) = be_val (mock_balance h a) - be_val v"
    if "be_val v \<le> be_val (mock_balance h a)"
    using u256_sub_val [OF assms(3,2)] that be_val_bound [OF assms(3)] by simp
  have add: "be_val (u256_add (mock_balance h b) v) = (be_val (mock_balance h b) + be_val v) mod 2 ^ 256"
    using u256_add_val [OF assms(4,2)] by simp
  show ?thesis
  proof (cases "v = u256_zero")
    case True
    then show ?thesis using be_val_bound [OF assms(4)] by (simp add: mock_transfer_def u256_zero_val)
  next
    case False
    then show ?thesis
      using assms(1) by (auto simp: mock_transfer_def Let_def less sub add mock_entry_balance)
  qed
qed

text \<open>A transfer of an account to itself adds the value to its balance.\<close>

lemma mock_transfer_self:
  assumes "is_u256 v" "is_u256 (mock_balance h a)"
  shows "case mock_transfer h a a v of
      (Inr _, h') \<Rightarrow> be_val v \<le> be_val (mock_balance h a) \<and>
        be_val (mock_balance h' a) = (be_val (mock_balance h a) + be_val v) mod 2 ^ 256 \<and>
        (\<forall>d. d \<noteq> a \<longrightarrow> mock_balance h' d = mock_balance h d)
    | (Inl e, h') \<Rightarrow> be_val (mock_balance h a) < be_val v \<and> e = InsufficientBalance \<and> h' = h"
proof (cases "v = u256_zero")
  case True
  then show ?thesis using be_val_bound [OF assms(2)] by (simp add: mock_transfer_def u256_zero_val)
next
  case False
  have "bytes_less (mock_balance h a) v \<longleftrightarrow> be_val (mock_balance h a) < be_val v"
    using u256_lt_val [OF assms(2,1)] by (simp add: u256_lt_def)
  then show ?thesis
    using False u256_add_val [OF assms(2,1)] by (auto simp: mock_transfer_def Let_def mock_entry_balance)
qed

lemma mock_transfer_accounts:
  "mh_accounts h = mh_accounts h' \<Longrightarrow> mh_accounts (snd (mock_transfer h a b v)) = mh_accounts (snd (mock_transfer h' a b v)) \<and>
     fst (mock_transfer h a b v) = fst (mock_transfer h' a b v)"
  by (simp add: mock_transfer_def mock_entry_def mock_balance_def Let_def)

section \<open>What a CALL does to balances\<close>

text \<open>The accounts a successful call leaves are those it entered the callee with, or those a successful run of the
  callee's code made of them.\<close>

definition call_ends :: "(mock_host, exit_status \<times> u64) evm_st \<Rightarrow> address \<Rightarrow> (address \<times> mock_account) list \<Rightarrow> (address \<times> mock_account) list \<Rightarrow> bool" where
  "call_ends RUN callee A A' \<longleftrightarrow> A' = A \<or> (\<exists>u u' used. mh_accounts (ev_host u) = A \<and> cx_callee (ev_ctx u) = callee \<and>
     RUN u = (Inr (Succeeded, used), u') \<and> A' = mh_accounts (ev_host u'))"

text \<open>The postcondition of a call that pushes one.\<close>

abbreviation pushes_one :: "((address \<times> mock_account) list \<Rightarrow> bool) \<Rightarrow> 'a \<Rightarrow> mock_host evm \<Rightarrow> bool" where
  "pushes_one P x t \<equiv> hd (ev_stack t) \<noteq> u256_zero \<longrightarrow> P (mh_accounts (ev_host t))"

lemma push_result:
  "hoare F (stack_push (u256_from_u64 0)) (pushes_one P) (\<lambda>_ _. True)"
  "hoare (\<lambda>h c. P (mh_accounts h)) (stack_push w) (pushes_one P) (\<lambda>_ _. True)"
  by (auto simp: hoare_def stack_push_def zero_one_word split: sum.splits fault.splits)

lemma quiet_any:
  "keeps (\<lambda>_. True) quiet m \<Longrightarrow> hoare F n Q (\<lambda>_ _. True) \<Longrightarrow> hoare F (then_st m n) Q (\<lambda>_ _. True)"
  by (rule quiet_then) simp_all

lemma hoare_commit_accounts:
  "hoare (\<lambda>h c. P (mh_accounts h)) n Q X \<Longrightarrow>
   hoare (\<lambda>h c. P (mh_accounts h)) (then_st (host_mod (\<lambda>h. h_commit (en_host (mock_env k p)) h i)) n) Q X"
  by (rule hoare_then, rule hoare_host_mod) (simp_all add: mock_env_def mock_ops_def mock_commit_def)

lemma hoare_any_mod: "hoare (\<lambda>_ _. True) n Q X \<Longrightarrow> hoare F (then_st (host_mod g) n) Q X"
  by (rule hoare_then, rule hoare_host_mod) simp_all

lemma call_precompiled_accounts:
  "hoare (\<lambda>h c. P (mh_accounts h)) (call_precompiled (mock_env k p) a cd b f i) (pushes_one P) (\<lambda>_ _. True)"
  unfolding call_precompiled_def
proof (rule hoare_read)
  fix x
  show "hoare (\<lambda>h c. P (mh_accounts h)) (case x of Some (output, used) \<Rightarrow>
         then_st (host_mod (\<lambda>h. h_commit (en_host (mock_env k p)) h i)) (then_st (set_return_data output)
         (then_st (ensure_paid (ca_ret_off a) (ca_ret_len a))
         (let copy = min (ca_ret_len a) (length output) in
          then_st (if copy > 0 then memory_write (ca_ret_off a) (take copy output) else sret ())
          (then_st (refund_gas (unused_gas f used b)) (stack_push (u256_from_u64 1))))))
     | None \<Rightarrow> then_st (host_mod (\<lambda>h. h_revert_to (en_host (mock_env k p)) h i)) (then_st (set_return_data [])
         (then_st (ensure_paid (ca_ret_off a) (ca_ret_len a)) (stack_push (u256_from_u64 0)))))
     (pushes_one P) (\<lambda>_ _. True)"
  proof (cases x)
    case None
    show ?thesis unfolding None option.case by (intro hoare_any_mod quiet_any quiet_rules push_result)
  next
    case (Some y)
    show ?thesis
      unfolding Some option.case Let_def
      by (cases y, simp only: prod.case, intro hoare_commit_accounts quiet_any quiet_rules push_result)
  qed
qed

lemma call_empty_accounts: "hoare (\<lambda>h c. P (mh_accounts h)) (call_empty_code (mock_env k p) a b i) (pushes_one P) (\<lambda>_ _. True)"
  unfolding call_empty_code_def by (intro hoare_commit_accounts quiet_any quiet_rules push_result)

lemma call_settle_accounts:
  "hoare (\<lambda>h c. fst r = Succeeded \<longrightarrow> P (mh_accounts h)) (call_settle (mock_env k p) a b f i r) (pushes_one P) (\<lambda>_ _. True)"
proof (cases r)
  case (fields status used ret logs)
  show ?thesis
  proof (cases "status = Succeeded")
    case True
    have "hoare (\<lambda>h c. P (mh_accounts h)) (then_st (host_mod (\<lambda>h. h_commit (en_host (mock_env k p)) h i)) (smod (\<lambda>s. s\<lparr>ev_logs := ev_logs s @ logs\<rparr>)))
        (\<lambda>_. at_host (\<lambda>h c. P (mh_accounts h))) (\<lambda>_ _. True)"
      by (intro hoare_commit_accounts hoare_quiet quiet_rules) simp
    then have "hoare (\<lambda>h c. P (mh_accounts h)) (call_settle (mock_env k p) a b f i r) (pushes_one P) (\<lambda>_ _. True)"
      unfolding call_settle_def fields prod.case Let_def if_P [OF True] refl if_True
      by (rule hoare_then) (intro quiet_any quiet_rules push_result)
    then show ?thesis by (rule hoare_pre) (simp add: fields True)
  next
    case False
    show ?thesis
      unfolding call_settle_def fields prod.case Let_def if_not_P [OF False]
      by (intro hoare_any_mod quiet_any quiet_rules push_result)
  qed
qed

lemma run_sub_accounts:
  "hoare (\<lambda>h c. mh_accounts h = A) (run_sub RUN c' cd fr)
     (\<lambda>r. at_host (\<lambda>h c. fst r = Succeeded \<longrightarrow> call_ends RUN (cx_callee c') A (mh_accounts h))) (\<lambda>_ _. True)"
proof (rule hoareI)
  fix s r t
  assume s: "mh_accounts (ev_host s) = A" and m: "run_sub RUN c' cd fr s = (r, t)"
  let ?u = "(evm_new c' cd (ev_host s))\<lparr>ev_frames := fr # ev_frames s, ev_warm_addresses := ev_warm_addresses s\<rparr>"
  have u: "mh_accounts (ev_host ?u) = A" "cx_callee (ev_ctx ?u) = cx_callee c'" using s by (simp_all add: evm_new_def)
  obtain q u' where q: "RUN ?u = (q, u')" by (cases "RUN ?u")
  show "case r of Inr x \<Rightarrow> (fst x = Succeeded \<longrightarrow> call_ends RUN (cx_callee c') A (mh_accounts (ev_host t))) | Inl (Err e) \<Rightarrow> True | Inl _ \<Rightarrow> True"
  proof (cases q)
    case (Inr x)
    then have "r = Inr (fst x, snd x, ev_return_data u', ev_logs u') \<and> ev_host t = ev_host u'"
      using m q by (cases x) (auto simp: run_sub_def)
    moreover have "call_ends RUN (cx_callee c') A (mh_accounts (ev_host u'))" if "fst x = Succeeded"
      unfolding call_ends_def using u q that Inr by (intro disjI2 exI [of _ ?u] exI [of _ u'] exI [of _ "snd x"]) (simp add: prod_eq_iff)
    ultimately show ?thesis by simp
  qed (use m q in \<open>auto simp: run_sub_def split: fault.splits\<close>)
qed

lemma call_dispatch_accounts:
  "hoare (\<lambda>h c. mh_accounts h = A) (call_dispatch (mock_env k p) RUN Call a cd b f i) (pushes_one (call_ends RUN (ca_target a) A)) (\<lambda>_ _. True)"
proof -
  have pre: "hoare (\<lambda>h c. call_ends RUN (ca_target a) A (mh_accounts h)) m Q X \<Longrightarrow> hoare (\<lambda>h c. mh_accounts h = A) m Q X" for m Q X
    by (erule hoare_pre) (simp add: call_ends_def)
  have "hoare (\<lambda>h c. mh_accounts h = A) (sbind (run_sub RUN (call_context Call a cd f d) tc fr) (call_settle (mock_env k p) a b f i))
      (pushes_one (call_ends RUN (ca_target a) A)) (\<lambda>_ _. True)" for d tc fr
    using hoare_sbind [OF run_sub_accounts [of A RUN "call_context Call a cd f d" tc fr] call_settle_accounts]
    by (simp add: call_context_def)
  then show ?thesis
    unfolding call_dispatch_def
    by (intro hoare_if hoare_host_read hoare_read pre [OF call_precompiled_accounts] pre [OF call_empty_accounts])
qed

lemma call_transfer_accounts:
  assumes "mh_accounts h0 = A"
  shows "hoare (\<lambda>h c. mh_accounts h = A \<and> c = c0) (call_transfer (mock_env k p) Call a i b)
    (\<lambda>ok. at_host (\<lambda>h c. ok \<longrightarrow> fst (mock_transfer h0 (cx_callee c0) (ca_target a) (ca_value a)) = Inr () \<and>
       mh_accounts h = mh_accounts (snd (mock_transfer h0 (cx_callee c0) (ca_target a) (ca_value a))))) (\<lambda>_ _. True)"
proof (cases "moves_value Call (ca_value a)")
  case False
  then have "ca_value a = u256_zero" by (simp add: moves_value_def u256_is_zero_def)
  then show ?thesis using assms by (auto simp: call_transfer_def moves_value_def u256_is_zero_def hoare_def sret_def mock_transfer_def)
next
  case True
  have "mock_balance h = mock_balance h0" if "mh_accounts h = A" for h using that assms by (simp add: mock_balance_def fun_eq_iff)
  moreover have "mh_accounts (snd (mock_transfer h x y v)) = mh_accounts (snd (mock_transfer h0 x y v))" if "mh_accounts h = A" for h x y v
    using mock_transfer_accounts [of h h0 x y v] that assms by simp
  moreover have "fst (mock_transfer h0 x y v) = Inr ()" if "\<not> bytes_less (mock_balance h0 x) v" for x y v
    using that by (simp add: mock_transfer_def Let_def)
  ultimately show ?thesis
    using True by (auto simp: call_transfer_def hoare_def sbind_def then_st_def sget_def host_get_def host_mod_def host_ignore_def smod_def sret_def
        refund_gas_def mock_env_def mock_ops_def)
qed

lemma call_enter_accounts:
  assumes "mh_accounts h0 = A"
  shows "hoare (\<lambda>h c. mh_accounts h = A \<and> c = c0) (call_enter (mock_env k p) RUN Call a cd)
    (pushes_one (\<lambda>A'. fst (mock_transfer h0 (cx_callee c0) (ca_target a) (ca_value a)) = Inr () \<and>
       call_ends RUN (ca_target a) (mh_accounts (snd (mock_transfer h0 (cx_callee c0) (ca_target a) (ca_value a)))) A')) (\<lambda>_ _. True)"
    (is "hoare ?F _ (pushes_one ?P) _")
proof -
  let ?T = "mock_transfer h0 (cx_callee c0) (ca_target a) (ca_value a)"
  have z: "hoare F (push_zero_with_ret a) (pushes_one P) (\<lambda>_ _. True)" for F P
    unfolding push_zero_with_ret_def by (intro quiet_any quiet_rules push_result)
  have d: "hoare (\<lambda>h c. ok \<longrightarrow> fst ?T = Inr () \<and> mh_accounts h = mh_accounts (snd ?T))
      (if \<not> ok then push_zero_with_ret a else call_dispatch (mock_env k p) RUN Call a cd b f i) (pushes_one ?P) (\<lambda>_ _. True)" for ok b f i
  proof (cases ok)
    case True
    have "hoare (\<lambda>h c. mh_accounts h = mh_accounts (snd ?T)) (call_dispatch (mock_env k p) RUN Call a cd b f i) (pushes_one ?P) (\<lambda>_ _. True)"
      if "fst ?T = Inr ()" by (rule hoare_conseq [OF call_dispatch_accounts]) (use that in auto)
    then show ?thesis using True by (cases "fst ?T = Inr ()") (auto simp: hoare_basic(1))
  qed (use z in simp)
  have t: "hoare ?F (sbind (call_transfer (mock_env k p) Call a i b) (\<lambda>ok. if \<not> ok then push_zero_with_ret a
      else call_dispatch (mock_env k p) RUN Call a cd b f i)) (pushes_one ?P) (\<lambda>_ _. True)" for i b f
    by (rule hoare_sbind [OF call_transfer_accounts [OF assms] d])
  have s: "hoare ?F (take_snapshot (mock_env k p)) (\<lambda>_. at_host ?F) (\<lambda>_ _. True)"
    by (auto simp: hoare_def take_snapshot_def mock_env_def mock_ops_def mock_do_snapshot_def Let_def)
  show ?thesis
    unfolding call_enter_def Let_def by (intro hoare_read hoare_if z quiet_any quiet_rules hoare_sbind [OF s] t)
qed

lemma call_operands_words:
  assumes "ev_stack s = g # w # v # ao # al # ro # rl # rest" "call_operands Call s = (Inr a, t)"
  shows "ca_target a = drop 12 w" "ca_value a = v" "ev_host t = ev_host s" "ev_ctx t = ev_ctx s"
  using assms by (auto simp: call_operands_def pop_u64_capped_def pop_address_def pop_usize_def stack_pop_def sbind_def sget_def sret_def sfail_def split: if_splits)

text \<open>C24. A CALL on MockHost that pushes one, in any frame, with any code on the callee's side: the value was within the
  caller's balance, and the callee was entered (or, without code, the call ended) with accounts in which the
  caller's balance is less by the value, the callee's is more by it and no other has changed, provided that caller
  and callee differ.  When a contract calls itself the value is added to its balance and not subtracted: balance is
  created.\<close>

theorem evm_call_moves_value:
  assumes "do_call (mock_env k p) RUN Call s = (Inr (), t)" "hd (ev_stack t) \<noteq> u256_zero"
    and "ev_stack s = g # w # v # ao # al # ro # rl # rest" "is_u256 v" "\<And>a. is_u256 (mock_balance (ev_host s) a)"
  shows "let caller = cx_callee (ev_ctx s); callee = drop 12 w; old = (\<lambda>a. be_val (mock_balance (ev_host s) a)) in
    be_val v \<le> old caller \<and>
    (\<exists>h. call_ends RUN callee (mh_accounts h) (mh_accounts (ev_host t)) \<and>
       (caller \<noteq> callee \<longrightarrow> be_val (mock_balance h caller) = old caller - be_val v) \<and>
       be_val (mock_balance h callee) = (old callee + be_val v) mod 2 ^ 256 \<and>
       (\<forall>a. a \<noteq> caller \<and> a \<noteq> callee \<longrightarrow> mock_balance h a = mock_balance (ev_host s) a))"
proof -
  let ?T = "mock_transfer (ev_host s) (cx_callee (ev_ctx s)) (drop 12 w) v"
  obtain a u where a: "call_operands Call s = (Inr a, u)" "sbind (call_charges (mock_env k p) Call a) (call_enter (mock_env k p) RUN Call a) u = (Inr (), t)"
    using assms(1) unfolding do_call_def by (auto simp: sbind_def split: prod.splits sum.splits)
  note o = call_operands_words [OF assms(3) a(1)]
  have "keeps (\<lambda>_. True) quiet (call_charges (mock_env k p) Call a)" unfolding call_charges_def by (intro quiet_rules)
  then have "hoare (\<lambda>h c. mh_accounts h = mh_accounts (ev_host s) \<and> c = ev_ctx s) (sbind (call_charges (mock_env k p) Call a) (call_enter (mock_env k p) RUN Call a))
      (pushes_one (\<lambda>A'. fst (mock_transfer (ev_host s) (cx_callee (ev_ctx s)) (ca_target a) (ca_value a)) = Inr () \<and>
        call_ends RUN (ca_target a) (mh_accounts (snd (mock_transfer (ev_host s) (cx_callee (ev_ctx s)) (ca_target a) (ca_value a)))) A')) (\<lambda>_ _. True)"
    by (rule quiet_bind) (auto intro!: call_enter_accounts)
  from hoareD [OF this _ a(2)] assms(2) o have r: "fst ?T = Inr ()" "call_ends RUN (drop 12 w) (mh_accounts (snd ?T)) (mh_accounts (ev_host t))" by simp_all
  obtain h where h: "?T = (Inr (), h)" using r(1) by (metis prod.collapse)
  show ?thesis
  proof (cases "cx_callee (ev_ctx s) = drop 12 w")
    case True
    then show ?thesis using mock_transfer_self [OF assms(4,5), of "drop 12 w"] r(2) h by (auto simp: Let_def)
  next
    case False
    then show ?thesis using mock_transfer_moves [OF False assms(4,5,5)] r(2) h by (auto simp: Let_def)
  qed
qed

definition self_state :: "mock_host evm" where
  "self_state = (evm_new (plain_context 200000) self_sender mint_host)\<lparr>ev_stack :=
     [u256_from_u64 50000, address_word me, u256_from_u64 1, u256_zero, u256_zero, u256_zero, u256_zero]\<rparr>"

lemma self_state_run:
  "fst (do_call (mock_env no_hash no_precompile) (run (mock_env no_hash no_precompile) 9) Call self_state) = Inr ()"
  "hd (ev_stack (snd (do_call (mock_env no_hash no_precompile) (run (mock_env no_hash no_precompile) 9) Call self_state))) \<noteq> u256_zero"
  "mock_balance (ev_host self_state) me = u256_from_u64 5" "cx_callee (ev_ctx self_state) = me" "drop 12 (address_word me) = me"
  by code_simp+

theorem evm_call_moves_value_witness:
  "let r = do_call (mock_env no_hash no_precompile) (run (mock_env no_hash no_precompile) 9) Call self_state in
   \<exists>h. call_ends (run (mock_env no_hash no_precompile) 9) me (mh_accounts h) (mh_accounts (ev_host (snd r))) \<and>
     be_val (mock_balance (ev_host self_state) me) = 5 \<and> be_val (mock_balance h me) = 6"
proof -
  let ?r = "do_call (mock_env no_hash no_precompile) (run (mock_env no_hash no_precompile) 9) Call self_state"
  have r: "?r = (Inr (), snd ?r)" using self_state_run(1) by (metis prod.collapse)
  have s: "ev_stack self_state = u256_from_u64 50000 # address_word me # u256_from_u64 1 # u256_zero # u256_zero # u256_zero # u256_zero # []"
    by (simp add: self_state_def)
  have w: "be_val (u256_from_u64 1) = 1" "be_val (u256_from_u64 5) = 5" "is_u256 (u256_from_u64 5)" "is_u256 u256_zero" "is_u256 (u256_from_u64 1)"
    unfolding is_u256_def by code_simp+
  have b: "is_u256 (mock_balance (ev_host self_state) a)" for a
  proof -
    have "mock_balance (ev_host self_state) a = (if a = me then mock_balance (ev_host self_state) me else u256_zero)"
      by (simp add: self_state_def evm_new_def mint_host_def mock_credit_def mock_install_code_def mock_entry_def mock_new_def mock_balance_def Let_def)
    then show ?thesis using w(3,4) self_state_run(3) by simp
  qed
  show ?thesis
    using evm_call_moves_value [OF r self_state_run(2) s w(5) b] by (auto simp: Let_def self_state_run(3-5) w(1,2))
qed

end
