(* ===== verification/Evm_Jumpdest.thy ===== *)
theory Evm_Jumpdest
  imports Evm_Props
begin

text \<open>
  The jump destination bitmap of the interpreter against the definition of a jump destination: a
  JUMPDEST byte at the start of an instruction, reached from offset 0 by stepping over the
  immediate data of the PUSH instructions.
\<close>

definition instr_size :: "byte \<Rightarrow> nat" where
  "instr_size op = (if 0x60 \<le> op \<and> op \<le> 0x7f then unat (op - 0x5f) + 1 else 1)"

inductive walk :: "bytes \<Rightarrow> nat \<Rightarrow> nat \<Rightarrow> bool" for code where
  here: "walk code p p"
| next_instr: "p < length code \<Longrightarrow> walk code (p + instr_size (code ! p)) d \<Longrightarrow> walk code p d"

inductive_cases walkE: "walk code p d"

definition jumpdest :: "bytes \<Rightarrow> nat \<Rightarrow> bool" where
  "jumpdest code d \<longleftrightarrow> d < length code \<and> walk code 0 d \<and> code ! d = 0x5b"

lemma walk_unfold: "walk code p d \<longleftrightarrow> d = p \<or> p < length code \<and> walk code (p + instr_size (code ! p)) d"
  by (auto intro: walk.intros elim: walkE)

definition marked :: "bytes \<Rightarrow> nat \<Rightarrow> bool" where
  "marked bm d \<longleftrightarrow> bit (bm ! (d div 8)) (d mod 8)"

lemma marked_set:
  assumes "d div 8 < length bm" "p div 8 < length bm"
  shows "marked (bm[p div 8 := bm ! (p div 8) OR push_bit (p mod 8) 1]) d \<longleftrightarrow> marked bm d \<or> d = p"
proof (cases "d div 8 = p div 8")
  case True
  have "d mod 8 = p mod 8 \<longleftrightarrow> d = p" using True by (metis div_mult_mod_eq)
  moreover have "bit (push_bit (p mod 8) (1 :: byte)) (d mod 8) \<longleftrightarrow> d mod 8 = p mod 8"
    by (auto simp: bit_exp_iff)
  ultimately show ?thesis using True assms by (auto simp: marked_def bit_or_iff)
next
  case False
  then show ?thesis by (auto simp: marked_def)
qed

lemma jumpdest_loop_marked:
  assumes "length bm = (length code + 7) div 8" "d < length code"
  shows "marked (jumpdest_loop code pc bm) d \<longleftrightarrow> marked bm d \<or> walk code pc d \<and> code ! d = 0x5b"
  using assms
proof (induction code pc bm rule: jumpdest_loop.induct)
  case (1 code pc bm)
  have w: "walk code pc d \<longleftrightarrow> d = pc \<or> pc < length code \<and> walk code (pc + instr_size (code ! pc)) d"
    by (rule walk_unfold)
  show ?case
  proof (cases "pc < length code")
    case False
    then show ?thesis using 1(5) w by (auto simp: jumpdest_loop.simps)
  next
    case True
    have r: "d div 8 < length bm" "pc div 8 < length bm" using 1(4,5) True by linarith+
    consider (dest) "code ! pc = 0x5b" | (push) "code ! pc \<noteq> 0x5b" "0x60 \<le> code ! pc \<and> code ! pc \<le> 0x7f"
      | (other) "code ! pc \<noteq> 0x5b" "\<not> (0x60 \<le> code ! pc \<and> code ! pc \<le> 0x7f)" by blast
    then show ?thesis
    proof cases
      case dest
      then have "instr_size (code ! pc) = 1" by (simp add: instr_size_def)
      then show ?thesis
        using 1(1) [OF True refl dest] 1(4,5) dest True w marked_set [OF r]
        by (subst jumpdest_loop.simps) (auto simp: Let_def)
    next
      case push
      then have "instr_size (code ! pc) = 1 + unat (code ! pc - 0x5f)" by (simp add: instr_size_def)
      then show ?thesis
        using 1(2) [OF True refl push] 1(4,5) push True w by (subst jumpdest_loop.simps) (auto simp: Let_def)
    next
      case other
      then have "instr_size (code ! pc) = 1" by (auto simp: instr_size_def)
      then show ?thesis
        using 1(3) [OF True refl other] 1(4,5) other True w by (subst jumpdest_loop.simps) (auto simp: Let_def)
    qed
  qed
qed

text \<open>C22. The bitmap built once per frame accepts exactly the jump destinations of the code: the
  JUMPDEST bytes that start an instruction, never one inside the data of a PUSH.\<close>

theorem evm_jumpdests_exact: "is_valid_jumpdest (evm_new c code h) d \<longleftrightarrow> jumpdest code d"
proof (cases "d < length code")
  case True
  have "\<not> marked (replicate ((length code + 7) div 8) 0) d" using True by (simp add: marked_def)
  then have "marked (build_jumpdest_bitmap code) d \<longleftrightarrow> walk code 0 d \<and> code ! d = 0x5b"
    unfolding build_jumpdest_bitmap_def using jumpdest_loop_marked [OF _ True] by simp
  then show ?thesis
    using True by (simp add: is_valid_jumpdest_def jumpdest_def evm_new_def and_exp_eq_0_iff_not_bit marked_def)
next
  case False
  then show ?thesis by (simp add: is_valid_jumpdest_def jumpdest_def evm_new_def)
qed

end
