(* ===== verification/Evm_Data_Props.thy ===== *)
theory Evm_Data_Props
  imports Evm_Props
begin

text \<open>
  The linear memory of the interpreter (\<^verbatim>\<open>zbx-evm/src/memory.rs\<close>): writing after an expansion, the
  price of the expansion, and the copy instructions that panic on a source offset behind the data.
\<close>

lemma length_resize [simp]: "length (resize xs n) = n"
  by (simp add: resize_def)

lemma mem_read1: "mem_read m p 1 = [if p < length m then m ! p else 0]"
  by (auto simp: mem_read_def resize_def take_Suc hd_drop_conv_nth)

lemma nth_resize: "p < n \<Longrightarrow> resize m n ! p = (if p < length m then m ! p else 0)"
  by (auto simp: resize_def nth_append)

text \<open>The price of \<open>n\<close> words, without the saturation of the source.\<close>

definition word_price :: "nat \<Rightarrow> nat" where
  "word_price n = 3 * n + n * n div 512"

lemma expansion_price:
  assumes "a \<le> b" "b \<le> 2 ^ 20"
  shows "unat (memory_expansion_cost (of_nat a) (of_nat b)) = word_price b - word_price a"
proof -
  have small: "word_price n < 2 ^ 32" if "n \<le> 2 ^ 20" for n
  proof -
    have "n * n \<le> 2 ^ 20 * 2 ^ 20" using that by (intro mult_mono) auto
    then have "n * n div 512 \<le> 2 ^ 31" by simp
    then show ?thesis using that by (simp add: word_price_def)
  qed
  have c: "memory_cost (of_nat n) = word_price n" if "n \<le> 2 ^ 20" for n
  proof -
    have n: "unat (of_nat n :: u64) = n" using that by (simp add: unat_of_nat)
    have "n * n \<le> 2 ^ 20 * 2 ^ 20" using that by (intro mult_mono) auto
    then show ?thesis using that small [OF that] by (simp add: memory_cost_def n sat128_def word_price_def min_def)
  qed
  have "word_price b - word_price a < 2 ^ 32" using small [OF assms(2)] by linarith
  then show ?thesis
    using assms c [of a] c [of b] by (simp add: memory_expansion_cost_def Let_def unat_of_nat)
qed

text \<open>C23. Memory: after a successful expansion for a non-empty range, a write of that range succeeds
  (the explicit panic of the source is out of reach), reading the range gives the data back, every
  byte outside the range is as before, the size stays a number of 32-byte words within the limit,
  and the gas charged is the difference of the quadratic price of the sizes.\<close>

theorem evm_memory_roundtrip:
  assumes "mem_ensure off (length d) m = (Inr cost, m')" "d \<noteq> []" "32 dvd length m" "length m \<le> MAX_MEMORY"
  shows "\<exists>m''. mem_write off d m' = Inr m'' \<and> mem_read m'' off (length d) = d \<and>
    (\<forall>p. p < off \<or> off + length d \<le> p \<longrightarrow> mem_read m'' p 1 = mem_read m p 1) \<and>
    32 dvd length m'' \<and> length m'' \<le> MAX_MEMORY \<and>
    unat cost = word_price (length m'' div 32) - word_price (length m div 32)"
proof -
  let ?n = "length d"
  have lim: "off + ?n \<le> MAX_MEMORY" using assms(1,2) by (auto simp: mem_ensure_def Let_def split: if_splits)
  have m': "off + ?n \<le> length m'" "32 dvd length m'" "length m' \<le> MAX_MEMORY"
    "unat cost = word_price (length m' div 32) - word_price (length m div 32)"
    "\<And>p. p < length m' \<Longrightarrow> m' ! p = (if p < length m then m ! p else 0)" "length m \<le> length m'"
  proof -
    let ?old = "(length m + 31) div 32" and ?new = "(off + ?n + 31) div 32"
    have old: "?old = length m div 32" "length m = ?old * 32" using assms(3) by auto
    consider (grow) "?new > ?old" "m' = resize m (?new * 32)" "cost = memory_expansion_cost (of_nat ?old) (of_nat ?new)"
      | (same) "?new \<le> ?old" "m' = m" "cost = 0"
      using assms(1,2) by (auto simp: mem_ensure_def Let_def split: if_splits)
    then have "off + ?n \<le> length m' \<and> 32 dvd length m' \<and> length m' \<le> MAX_MEMORY \<and>
       unat cost = word_price (length m' div 32) - word_price (length m div 32) \<and>
       (\<forall>p<length m'. m' ! p = (if p < length m then m ! p else 0)) \<and> length m \<le> length m'"
    proof cases
      case grow
      have "?new \<le> 2 ^ 20" using lim by (simp add: MAX_MEMORY_def)
      then have "unat cost = word_price ?new - word_price ?old" using grow(1,3) expansion_price by simp
      moreover have "?new * 32 \<le> MAX_MEMORY" using lim by (simp add: MAX_MEMORY_def)
      moreover have "off + ?n \<le> ?new * 32" by simp
      moreover have "length m \<le> ?new * 32" using grow(1) old(2) by linarith
      ultimately show ?thesis using grow(2) old(1) by (simp add: nth_resize)
    next
      case same
      then show ?thesis using assms(3,4) old by auto
    qed
    then show "off + ?n \<le> length m'" "32 dvd length m'" "length m' \<le> MAX_MEMORY"
      "unat cost = word_price (length m' div 32) - word_price (length m div 32)"
      "\<And>p. p < length m' \<Longrightarrow> m' ! p = (if p < length m then m ! p else 0)" "length m \<le> length m'" by blast+
  qed
  let ?w = "take off m' @ d @ drop (off + ?n) m'"
  have w: "mem_write off d m' = Inr ?w" using assms(2) lim m'(1) by (simp add: mem_write_def Let_def MAX_MEMORY_def)
  have l: "length ?w = length m'" using m'(1) by simp
  have "off < length m'" using m'(1) assms(2) by (cases d) auto
  then have "mem_read ?w off ?n = d" using m'(1) by (simp add: mem_read_def resize_def)
  moreover have "mem_read ?w p 1 = mem_read m p 1" if "p < off \<or> off + ?n \<le> p" for p
    unfolding mem_read1 l using that m'(1,5,6) by (auto simp: nth_append)
  ultimately show ?thesis using w l m'(2-4) by auto
qed

theorem evm_memory_roundtrip_witness:
  "\<exists>m''. mem_write 30 [7, 8, 9, 10] (replicate 64 0) = Inr m'' \<and> mem_read m'' 30 4 = [7, 8, 9, 10] \<and> length m'' = 64"
proof -
  have e: "mem_ensure 30 (length [7, 8, 9, 10 :: byte]) [] = (Inr 6, replicate 64 0)" by code_simp
  have a: "[7, 8, 9, 10 :: byte] \<noteq> []" "32 dvd length ([] :: bytes)" "length ([] :: bytes) \<le> MAX_MEMORY"
    and l: "length [7, 8, 9, 10 :: byte] = 4" by simp_all
  obtain m'' where m: "mem_write 30 [7, 8, 9, 10] (replicate 64 0) = Inr m''" "mem_read m'' 30 4 = [7, 8, 9, 10 :: byte]"
    using evm_memory_roundtrip [OF e a, unfolded l] by blast
  then have "length m'' = 64" by (auto simp: mem_write_def Let_def MAX_MEMORY_def)
  then show ?thesis using m by blast
qed

section \<open>The copy instructions\<close>

lemma paid_within_limit:
  assumes "ensure_paid off n s = (Inr (), s1)" "n \<noteq> 0"
  shows "off + n \<le> MAX_MEMORY"
  using assms by (auto simp: ensure_paid_def mem_ensure_def Let_def split: if_splits)

lemma copy_result:
  assumes "then_st (ensure_paid dst n) (consume_gas (copy_cost (of_nat n))) s = (Inr (), s1)" "n \<noteq> 0"
  shows "fst (copy_to_memory data dst src n s) = (if length data < src then Inl Panic else Inr ())"
proof -
  obtain s0 where s0: "ensure_paid dst n s = (Inr (), s0)" "consume_gas (copy_cost (of_nat n)) s0 = (Inr (), s1)"
    using assms(1) by (auto simp: then_st_def sbind_def split: prod.splits sum.splits)
  have l: "dst + n \<le> MAX_MEMORY" by (rule paid_within_limit [OF s0(1) assms(2)])
  have "mem_write dst d m \<noteq> Inl e" if "length d = n" for d m e
    using l that by (auto simp: mem_write_def Let_def MAX_MEMORY_def)
  then have w: "fst (memory_write dst d s1) = Inr ()" if "length d = n" for d
    using that by (auto simp: memory_write_def split: sum.splits)
  show ?thesis
    using s0 assms(2) w by (auto simp: copy_to_memory_def then_st_def sbind_def slift_def slice_chk_def Let_def)
qed

text \<open>C25. CALLDATACOPY, CODECOPY and EXTCODECOPY of \<open>n > 0\<close> bytes, in every frame that has the operands on its stack and can
  pay the memory and the copy, panic exactly when the source offset lies behind the end of the data (the
  calldata, the code, the code of the other account, whose address is warm) and succeed otherwise; the EVM asks for zeros
  in the first case.\<close>

theorem evm_copy_past_end_panics:
  assumes "ev_stack s = dst # src # sz # rest" "n = unat (u256_to_u64 sz)" "n \<noteq> 0"
    and "then_st (ensure_paid (unat (u256_to_u64 dst)) n) (consume_gas (copy_cost (of_nat n))) (s\<lparr>ev_stack := rest\<rparr>) = (Inr (), s1)"
  shows "fst (op_calldatacopy s) = (if length (cx_calldata (ev_ctx s)) < unat (u256_to_u64 src) then Inl Panic else Inr ()) \<and>
    fst (op_codecopy s) = (if length (ev_code s) < unat (u256_to_u64 src) then Inl Panic else Inr ()) \<and>
    (drop 12 a \<in> ev_warm_addresses s \<longrightarrow> fst (op_extcodecopy E (s\<lparr>ev_stack := a # ev_stack s\<rparr>)) =
       (if length (h_code (en_host E) (ev_host s) (drop 12 a)) < unat (u256_to_u64 src) then Inl Panic else Inr ()))"
proof -
  let ?s = "s\<lparr>ev_stack := rest\<rparr>" and ?d = "unat (u256_to_u64 dst)" and ?o = "unat (u256_to_u64 src)"
  have "op_calldatacopy s = copy_to_memory (cx_calldata (ev_ctx s)) ?d ?o n ?s" "op_codecopy s = copy_to_memory (ev_code s) ?d ?o n ?s"
    using assms(1,2) by (simp_all add: op_calldatacopy_def op_codecopy_def pop_usize_def pop_u64_capped_def stack_pop_def sbind_def sret_def sget_def)
  moreover have "op_extcodecopy E (s\<lparr>ev_stack := a # ev_stack s\<rparr>) = copy_to_memory (h_code (en_host E) (ev_host s) (drop 12 a)) ?d ?o n ?s"
    if "drop 12 a \<in> ev_warm_addresses s"
    using assms(1,2) that by (simp add: op_extcodecopy_def pop_address_def pop_usize_def pop_u64_capped_def stack_pop_def touch_address_def then_st_def sbind_def sret_def sget_def)
  ultimately show ?thesis using copy_result [OF assms(4,3)] by simp
qed

definition copy_frame :: "mock_host evm" where
  "copy_frame = (evm_new (plain_context 50) [0x37] mock_new)\<lparr>ev_stack := [u256_zero, u256_from_u64 2, u256_from_u64 1]\<rparr>"

theorem evm_copy_past_end_panics_witness:
  "fst (op_calldatacopy copy_frame) = Inl Panic \<and> fst (op_codecopy copy_frame) = Inl Panic \<and>
   fst (run (mock_env (\<lambda>_. u256_zero) (\<lambda>_ _ _ _ _. None)) 9 (evm_new (plain_context 50) [0x60, 1, 0x60, 1, 0x5f, 0x37] mock_new)) = Inl Panic"
proof -
  have st: "ev_stack copy_frame = u256_zero # u256_from_u64 2 # u256_from_u64 1 # []" by (simp add: copy_frame_def)
  have w: "unat (u256_to_u64 u256_zero) = 0" "unat (u256_to_u64 (u256_from_u64 2)) = 2" "unat (u256_to_u64 (u256_from_u64 1)) = 1" by code_simp+
  have "fst (then_st (ensure_paid 0 1) (consume_gas (copy_cost (of_nat 1))) (copy_frame\<lparr>ev_stack := []\<rparr>)) = Inr ()" by code_simp
  then obtain s1 where "then_st (ensure_paid 0 1) (consume_gas (copy_cost (of_nat 1))) (copy_frame\<lparr>ev_stack := []\<rparr>) = (Inr (), s1)"
    by (metis prod.collapse)
  then have "fst (op_calldatacopy copy_frame) = Inl Panic \<and> fst (op_codecopy copy_frame) = Inl Panic"
    using evm_copy_past_end_panics [OF st refl, of s1, unfolded w] by (simp add: copy_frame_def evm_new_def plain_context_def)
  moreover have "fst (run (mock_env (\<lambda>_. u256_zero) (\<lambda>_ _ _ _ _. None)) 9 (evm_new (plain_context 50) [0x60, 1, 0x60, 1, 0x5f, 0x37] mock_new)) = Inl Panic"
    by code_simp
  ultimately show ?thesis by blast
qed

end
