(* ===== verification/Zrc20.thy ===== *)
theory Zrc20
  imports Machine
begin

text \<open>
  \<^verbatim>\<open>zbx-contracts/src/zrc20_token.rs\<close>: the ZRC-20 token engine.  The token is the record \<open>zrc20_token\<close>;
  hash maps are partial maps, hash sets are sets, amounts are 128-bit words, and a method on
  \<^verbatim>\<open>&mut self\<close> is a state computation that keeps the state reached when it fails.
\<close>

section \<open>State\<close>

datatype zrc20_error =
    ZeroAddress
  | NotOwner
  | NotMinter
  | InsufficientBalance u128 u128
  | InsufficientAllowance u128 u128
  | MintCapExceeded u128 u128
  | MintingPaused
  | MintingFinalized
  | TransferPaused
  | AccountFrozen address
  | TokensLocked u128
  | ExceedsMaxTransfer u128 u128
  | BatchLengthMismatch
  | BatchEmpty
  | BatchTooLarge nat
  | AlreadyFrozen
  | NotFrozen
  | ActiveLockExists
  | LockMustGrow
  | LockNotFound
  | LockExpired
  | UnlockTimeInPast
  | InsufficientBalanceForLock u128 u128
  | MintingAlreadyPaused
  | MintingNotPaused
  | AlreadyFinalized
  | InvalidMinterOp
  | ArithmeticOverflow

definition MAX_BATCH_SIZE :: nat where
  "MAX_BATCH_SIZE = 512"

definition UNLIMITED_CAP :: u128 where
  "UNLIMITED_CAP = - 1"

definition zero_address :: address where
  "zero_address = replicate 20 0"

record lock_info =
  lk_amount :: u128
  lk_unlock_time :: u64

record zrc20_token =
  tk_name :: string
  tk_symbol :: string
  tk_decimals :: byte
  tk_logo_uri :: string
  tk_total_supply :: u128
  tk_total_burned :: u128
  tk_mint_cap :: u128
  tk_balances :: "address \<rightharpoonup> u128"
  tk_allowances :: "address \<times> address \<rightharpoonup> u128"
  tk_owner :: address
  tk_pending_owner :: "address option"
  tk_minters :: "address set"
  tk_minting_paused :: bool
  tk_minting_finalized :: bool
  tk_transfer_paused :: bool
  tk_max_transfer_amount :: u128
  tk_frozen :: "address set"
  tk_locks :: "address \<rightharpoonup> lock_info"

type_synonym 'a zrc20 = "(zrc20_token, zrc20_error, 'a) st"

section \<open>Views\<close>

definition balance_of :: "zrc20_token \<Rightarrow> address \<Rightarrow> u128" where
  "balance_of t a = (case tk_balances t a of Some b \<Rightarrow> b | None \<Rightarrow> 0)"

definition allowance :: "zrc20_token \<Rightarrow> address \<Rightarrow> address \<Rightarrow> u128" where
  "allowance t owner spender = (case tk_allowances t (owner, spender) of Some b \<Rightarrow> b | None \<Rightarrow> 0)"

definition is_frozen :: "zrc20_token \<Rightarrow> address \<Rightarrow> bool" where
  "is_frozen t a \<longleftrightarrow> a \<in> tk_frozen t"

definition frozen_balance :: "zrc20_token \<Rightarrow> address \<Rightarrow> u128" where
  "frozen_balance t a = (if a \<in> tk_frozen t then balance_of t a else 0)"

definition locked_balance_of :: "zrc20_token \<Rightarrow> address \<Rightarrow> u64 \<Rightarrow> u128" where
  "locked_balance_of t a now =
     (case tk_locks t a of
        Some l \<Rightarrow> if lk_amount l > 0 \<and> now < lk_unlock_time l then lk_amount l else 0
      | None \<Rightarrow> 0)"

definition transferable_balance :: "zrc20_token \<Rightarrow> address \<Rightarrow> u64 \<Rightarrow> u128" where
  "transferable_balance t a now =
     (let bal = balance_of t a; locked = locked_balance_of t a now
      in if bal < locked then 0 else bal - locked)"

section \<open>Internal helpers\<close>

definition before_transfer :: "zrc20_token \<Rightarrow> address \<Rightarrow> address \<Rightarrow> u128 \<Rightarrow> u64 \<Rightarrow> (zrc20_error, unit) res" where
  "before_transfer t src dst v now =
     (let locked = locked_balance_of t src now; bal = balance_of t src in
      if tk_transfer_paused t then Inl (Err TransferPaused)
      else if src \<noteq> zero_address \<and> src \<in> tk_frozen t then Inl (Err (AccountFrozen src))
      else if dst \<noteq> zero_address \<and> dst \<in> tk_frozen t then Inl (Err (AccountFrozen dst))
      else if src \<noteq> zero_address \<and> locked > 0 \<and> (bal < locked \<or> bal - locked < v)
      then Inl (Err (TokensLocked (if bal > locked then bal - locked else 0)))
      else if tk_max_transfer_amount t > 0 \<and> src \<noteq> zero_address \<and> dst \<noteq> zero_address \<and> v > tk_max_transfer_amount t
      then Inl (Err (ExceedsMaxTransfer v (tk_max_transfer_amount t)))
      else Inr ())"

definition set_balance :: "zrc20_token \<Rightarrow> address \<Rightarrow> u128 \<Rightarrow> zrc20_token" where
  "set_balance t a v = t\<lparr>tk_balances := (tk_balances t)(a \<mapsto> v)\<rparr>"

definition internal_transfer :: "address \<Rightarrow> address \<Rightarrow> u128 \<Rightarrow> u64 \<Rightarrow> unit zrc20" where
  "internal_transfer src dst v now t =
     (if src = zero_address then (Inl (Err ZeroAddress), t)
      else if dst = zero_address then (Inl (Err ZeroAddress), t)
      else case before_transfer t src dst v now of
        Inl e \<Rightarrow> (Inl e, t)
      | Inr _ \<Rightarrow>
          (let from_bal = balance_of t src in
           if from_bal < v then (Inl (Err (InsufficientBalance from_bal v)), t)
           else
            (let t1 = set_balance t src (from_bal - v);
                 to_bal = balance_of t1 dst
             in (Inr (), set_balance t1 dst (sat_add128 to_bal v)))))"

definition internal_mint :: "address \<Rightarrow> u128 \<Rightarrow> u64 \<Rightarrow> unit zrc20" where
  "internal_mint dst v now t =
     (if dst = zero_address then (Inl (Err ZeroAddress), t)
      else case before_transfer t zero_address dst v now of
        Inl e \<Rightarrow> (Inl e, t)
      | Inr _ \<Rightarrow>
          if unat (tk_total_supply t) + unat v \<ge> 2 ^ 128 then (Inl (Err ArithmeticOverflow), t)
          else
           (let new_supply = tk_total_supply t + v in
            if new_supply > tk_mint_cap t then (Inl (Err (MintCapExceeded (tk_mint_cap t) new_supply)), t)
            else
             (let t1 = t\<lparr>tk_total_supply := new_supply\<rparr>;
                  bal = balance_of t1 dst
              in (Inr (), set_balance t1 dst (sat_add128 bal v)))))"

definition internal_burn :: "address \<Rightarrow> u128 \<Rightarrow> u64 \<Rightarrow> unit zrc20" where
  "internal_burn src v now t =
     (if src = zero_address then (Inl (Err ZeroAddress), t)
      else case before_transfer t src zero_address v now of
        Inl e \<Rightarrow> (Inl e, t)
      | Inr _ \<Rightarrow>
          (let bal = balance_of t src in
           if bal < v then (Inl (Err (InsufficientBalance bal v)), t)
           else
            (let t1 = set_balance t src (bal - v)
             in (Inr (), t1\<lparr>tk_total_supply := (if tk_total_supply t < v then 0 else tk_total_supply t - v),
                    tk_total_burned := sat_add128 (tk_total_burned t) v\<rparr>))))"

definition spend_allowance :: "address \<Rightarrow> address \<Rightarrow> u128 \<Rightarrow> unit zrc20" where
  "spend_allowance owner spender v t =
     (let current = allowance t owner spender in
      if current = - 1 then (Inr (), t)
      else if current < v then (Inl (Err (InsufficientAllowance current v)), t)
      else (Inr (), t\<lparr>tk_allowances := (tk_allowances t)((owner, spender) \<mapsto> current - v)\<rparr>))"

section \<open>Constructor\<close>

definition zrc20_new :: "string \<Rightarrow> string \<Rightarrow> byte \<Rightarrow> u128 \<Rightarrow> u128 \<Rightarrow> string \<Rightarrow> address \<Rightarrow> u64 \<Rightarrow>
    (zrc20_error, zrc20_token) res" where
  "zrc20_new name symbol decimals initial_supply mint_cap logo_uri owner now =
     (if owner = zero_address then Inl (Err ZeroAddress)
      else
       (let resolved_cap = (if mint_cap = 0 then UNLIMITED_CAP else mint_cap) in
        if initial_supply > resolved_cap then Inl (Err (MintCapExceeded resolved_cap initial_supply))
        else
         (let token = \<lparr>tk_name = name, tk_symbol = symbol, tk_decimals = decimals, tk_logo_uri = logo_uri,
               tk_total_supply = 0, tk_total_burned = 0, tk_mint_cap = resolved_cap, tk_balances = Map.empty,
               tk_allowances = Map.empty, tk_owner = owner, tk_pending_owner = None, tk_minters = {owner},
               tk_minting_paused = False, tk_minting_finalized = False, tk_transfer_paused = False,
               tk_max_transfer_amount = 0, tk_frozen = {}, tk_locks = Map.empty\<rparr>
          in if initial_supply > 0 then
               (case internal_mint owner initial_supply now token of
                  (Inl e, _) \<Rightarrow> Inl e
                | (Inr _, t) \<Rightarrow> Inr t)
             else Inr token)))"

section \<open>Balance movements\<close>

definition zrc20_transfer :: "address \<Rightarrow> address \<Rightarrow> u128 \<Rightarrow> u64 \<Rightarrow> unit zrc20" where
  "zrc20_transfer src dst v now = internal_transfer src dst v now"

definition zrc20_approve :: "address \<Rightarrow> address \<Rightarrow> u128 \<Rightarrow> unit zrc20" where
  "zrc20_approve owner spender v t =
     (if owner = zero_address then (Inl (Err ZeroAddress), t)
      else if spender = zero_address then (Inl (Err ZeroAddress), t)
      else (Inr (), t\<lparr>tk_allowances := (tk_allowances t)((owner, spender) \<mapsto> v)\<rparr>))"

definition zrc20_transfer_from :: "address \<Rightarrow> address \<Rightarrow> address \<Rightarrow> u128 \<Rightarrow> u64 \<Rightarrow> unit zrc20" where
  "zrc20_transfer_from spender src dst v now =
     then_st (spend_allowance src spender v) (internal_transfer src dst v now)"

fun transfer_all :: "address \<Rightarrow> (address \<times> u128) list \<Rightarrow> u64 \<Rightarrow> unit zrc20" where
  "transfer_all src [] now = sret ()"
| "transfer_all src ((dst, v) # legs) now =
     then_st (internal_transfer src dst v now) (transfer_all src legs now)"

definition zrc20_batch_transfer :: "address \<Rightarrow> address list \<Rightarrow> u128 list \<Rightarrow> u64 \<Rightarrow> unit zrc20" where
  "zrc20_batch_transfer src dsts vs now =
     (if length dsts \<noteq> length vs then sfail (Err BatchLengthMismatch)
      else if dsts = [] then sfail (Err BatchEmpty)
      else if length dsts > MAX_BATCH_SIZE then sfail (Err (BatchTooLarge MAX_BATCH_SIZE))
      else transfer_all src (zip dsts vs) now)"

definition zrc20_mint :: "address \<Rightarrow> address \<Rightarrow> u128 \<Rightarrow> u64 \<Rightarrow> unit zrc20" where
  "zrc20_mint caller dst v now t =
     (if caller \<notin> tk_minters t then (Inl (Err NotMinter), t)
      else if tk_minting_finalized t then (Inl (Err MintingFinalized), t)
      else if tk_minting_paused t then (Inl (Err MintingPaused), t)
      else internal_mint dst v now t)"

definition zrc20_burn :: "address \<Rightarrow> u128 \<Rightarrow> u64 \<Rightarrow> unit zrc20" where
  "zrc20_burn src v now = internal_burn src v now"

definition zrc20_burn_from :: "address \<Rightarrow> address \<Rightarrow> u128 \<Rightarrow> u64 \<Rightarrow> unit zrc20" where
  "zrc20_burn_from spender src v now = then_st (spend_allowance src spender v) (internal_burn src v now)"

section \<open>Administration\<close>

text \<open>The check of the owner that opens every administrative method.\<close>

definition owner_only :: "address \<Rightarrow> (zrc20_token \<Rightarrow> (zrc20_error, 'a) res \<times> zrc20_token) \<Rightarrow> 'a zrc20" where
  "owner_only caller m t = (if caller \<noteq> tk_owner t then (Inl (Err NotOwner), t) else m t)"

definition add_minter :: "address \<Rightarrow> address \<Rightarrow> unit zrc20" where
  "add_minter caller account = owner_only caller (\<lambda>t.
     if account = zero_address then (Inl (Err ZeroAddress), t)
     else (Inr (), t\<lparr>tk_minters := insert account (tk_minters t)\<rparr>))"

definition remove_minter :: "address \<Rightarrow> address \<Rightarrow> unit zrc20" where
  "remove_minter caller account = owner_only caller (\<lambda>t.
     (Inr (), t\<lparr>tk_minters := tk_minters t - {account}\<rparr>))"

definition pause_minting :: "address \<Rightarrow> unit zrc20" where
  "pause_minting caller = owner_only caller (\<lambda>t.
     if tk_minting_finalized t then (Inl (Err MintingFinalized), t)
     else if tk_minting_paused t then (Inl (Err MintingAlreadyPaused), t)
     else (Inr (), t\<lparr>tk_minting_paused := True\<rparr>))"

definition resume_minting :: "address \<Rightarrow> unit zrc20" where
  "resume_minting caller = owner_only caller (\<lambda>t.
     if tk_minting_finalized t then (Inl (Err MintingFinalized), t)
     else if \<not> tk_minting_paused t then (Inl (Err MintingNotPaused), t)
     else (Inr (), t\<lparr>tk_minting_paused := False\<rparr>))"

definition finalize_minting :: "address \<Rightarrow> unit zrc20" where
  "finalize_minting caller = owner_only caller (\<lambda>t.
     if tk_minting_finalized t then (Inl (Err AlreadyFinalized), t)
     else (Inr (), t\<lparr>tk_minting_finalized := True\<rparr>))"

definition pause_transfers :: "address \<Rightarrow> unit zrc20" where
  "pause_transfers caller = owner_only caller (\<lambda>t. (Inr (), t\<lparr>tk_transfer_paused := True\<rparr>))"

definition unpause_transfers :: "address \<Rightarrow> unit zrc20" where
  "unpause_transfers caller = owner_only caller (\<lambda>t. (Inr (), t\<lparr>tk_transfer_paused := False\<rparr>))"

definition set_max_transfer_amount :: "address \<Rightarrow> u128 \<Rightarrow> unit zrc20" where
  "set_max_transfer_amount caller amount = owner_only caller (\<lambda>t. (Inr (), t\<lparr>tk_max_transfer_amount := amount\<rparr>))"

definition freeze :: "address \<Rightarrow> address \<Rightarrow> unit zrc20" where
  "freeze caller account = owner_only caller (\<lambda>t.
     if account = zero_address then (Inl (Err ZeroAddress), t)
     else if account \<in> tk_frozen t then (Inl (Err AlreadyFrozen), t)
     else (Inr (), t\<lparr>tk_frozen := insert account (tk_frozen t)\<rparr>))"

definition unfreeze :: "address \<Rightarrow> address \<Rightarrow> unit zrc20" where
  "unfreeze caller account = owner_only caller (\<lambda>t.
     if account \<notin> tk_frozen t then (Inl (Err NotFrozen), t)
     else (Inr (), t\<lparr>tk_frozen := tk_frozen t - {account}\<rparr>))"

definition lock_tokens :: "address \<Rightarrow> address \<Rightarrow> u128 \<Rightarrow> u64 \<Rightarrow> u64 \<Rightarrow> unit zrc20" where
  "lock_tokens caller account amount unlock_time now = owner_only caller (\<lambda>t.
     if account = zero_address then (Inl (Err ZeroAddress), t)
     else if amount = 0 then (Inl (Err (InsufficientBalanceForLock 0 1)), t)
     else if unlock_time \<le> now then (Inl (Err UnlockTimeInPast), t)
     else if balance_of t account < amount
     then (Inl (Err (InsufficientBalanceForLock (balance_of t account) amount)), t)
     else if (case tk_locks t account of Some l \<Rightarrow> lk_amount l > 0 \<and> now < lk_unlock_time l | None \<Rightarrow> False)
     then (Inl (Err ActiveLockExists), t)
     else (Inr (), t\<lparr>tk_locks := (tk_locks t)(account \<mapsto> \<lparr>lk_amount = amount, lk_unlock_time = unlock_time\<rparr>)\<rparr>))"

definition extend_lock :: "address \<Rightarrow> address \<Rightarrow> u128 \<Rightarrow> u64 \<Rightarrow> u64 \<Rightarrow> unit zrc20" where
  "extend_lock caller account new_amount new_unlock_time now = owner_only caller (\<lambda>t.
     case tk_locks t account of
       None \<Rightarrow> (Inl (Err LockNotFound), t)
     | Some l \<Rightarrow>
         if lk_amount l = 0 then (Inl (Err LockNotFound), t)
         else if now \<ge> lk_unlock_time l then (Inl (Err LockExpired), t)
         else if new_amount < lk_amount l then (Inl (Err LockMustGrow), t)
         else if new_unlock_time < lk_unlock_time l then (Inl (Err LockMustGrow), t)
         else if balance_of t account < new_amount
         then (Inl (Err (InsufficientBalanceForLock (balance_of t account) new_amount)), t)
         else (Inr (), t\<lparr>tk_locks := (tk_locks t)(account \<mapsto> \<lparr>lk_amount = new_amount, lk_unlock_time = new_unlock_time\<rparr>)\<rparr>))"

definition transfer_ownership :: "address \<Rightarrow> address \<Rightarrow> unit zrc20" where
  "transfer_ownership caller new_owner = owner_only caller (\<lambda>t.
     if new_owner = zero_address then (Inl (Err ZeroAddress), t)
     else (Inr (), t\<lparr>tk_pending_owner := Some new_owner\<rparr>))"

definition accept_ownership :: "address \<Rightarrow> unit zrc20" where
  "accept_ownership caller t =
     (if tk_pending_owner t = Some caller then (Inr (), t\<lparr>tk_owner := caller, tk_pending_owner := None\<rparr>)
      else (Inl (Err NotOwner), t))"

definition renounce_ownership :: "address \<Rightarrow> unit zrc20" where
  "renounce_ownership caller = owner_only caller (\<lambda>t. (Inr (), t\<lparr>tk_owner := zero_address\<rparr>))"

definition update_logo_uri :: "address \<Rightarrow> string \<Rightarrow> string zrc20" where
  "update_logo_uri caller new_uri = owner_only caller (\<lambda>t. (Inr (tk_logo_uri t), t\<lparr>tk_logo_uri := new_uri\<rparr>))"

end
