(* ===== verification/Zrc20_Props.thy ===== *)
theory Zrc20_Props
  imports Zrc20
begin

text \<open>
  The ZRC-20 token as a state machine driven by arbitrary sequences of external calls, failed
  calls included: the balances add up to the supply, the supply stays below the cap, frozen
  accounts keep their balance, locked amounts stay, a finalised supply does not grow.
\<close>

section \<open>External calls\<close>

datatype zrc20_call =
    Transfer address address u128 u64
  | Approve address address u128
  | TransferFrom address address address u128 u64
  | BatchTransfer address "address list" "u128 list" u64
  | Mint address address u128 u64
  | AddMinter address address
  | RemoveMinter address address
  | Burn address u128 u64
  | BurnFrom address address u128 u64
  | PauseMinting address
  | ResumeMinting address
  | FinalizeMinting address
  | PauseTransfers address
  | UnpauseTransfers address
  | SetMaxTransferAmount address u128
  | Freeze address address
  | Unfreeze address address
  | LockTokens address address u128 u64 u64
  | ExtendLock address address u128 u64 u64
  | TransferOwnership address address
  | AcceptOwnership address
  | RenounceOwnership address
  | UpdateLogoUri address string

fun zrc20_exec :: "zrc20_call \<Rightarrow> zrc20_token \<Rightarrow> zrc20_token" where
  "zrc20_exec (Transfer src dst v now) t = snd (zrc20_transfer src dst v now t)"
| "zrc20_exec (Approve owner spender v) t = snd (zrc20_approve owner spender v t)"
| "zrc20_exec (TransferFrom spender src dst v now) t = snd (zrc20_transfer_from spender src dst v now t)"
| "zrc20_exec (BatchTransfer src dsts vs now) t = snd (zrc20_batch_transfer src dsts vs now t)"
| "zrc20_exec (Mint caller dst v now) t = snd (zrc20_mint caller dst v now t)"
| "zrc20_exec (AddMinter caller a) t = snd (add_minter caller a t)"
| "zrc20_exec (RemoveMinter caller a) t = snd (remove_minter caller a t)"
| "zrc20_exec (Burn src v now) t = snd (zrc20_burn src v now t)"
| "zrc20_exec (BurnFrom spender src v now) t = snd (zrc20_burn_from spender src v now t)"
| "zrc20_exec (PauseMinting caller) t = snd (pause_minting caller t)"
| "zrc20_exec (ResumeMinting caller) t = snd (resume_minting caller t)"
| "zrc20_exec (FinalizeMinting caller) t = snd (finalize_minting caller t)"
| "zrc20_exec (PauseTransfers caller) t = snd (pause_transfers caller t)"
| "zrc20_exec (UnpauseTransfers caller) t = snd (unpause_transfers caller t)"
| "zrc20_exec (SetMaxTransferAmount caller v) t = snd (set_max_transfer_amount caller v t)"
| "zrc20_exec (Freeze caller a) t = snd (freeze caller a t)"
| "zrc20_exec (Unfreeze caller a) t = snd (unfreeze caller a t)"
| "zrc20_exec (LockTokens caller a v u now) t = snd (lock_tokens caller a v u now t)"
| "zrc20_exec (ExtendLock caller a v u now) t = snd (extend_lock caller a v u now t)"
| "zrc20_exec (TransferOwnership caller a) t = snd (transfer_ownership caller a t)"
| "zrc20_exec (AcceptOwnership caller) t = snd (accept_ownership caller t)"
| "zrc20_exec (RenounceOwnership caller) t = snd (renounce_ownership caller t)"
| "zrc20_exec (UpdateLogoUri caller uri) t = snd (update_logo_uri caller uri t)"

definition zrc20_run :: "zrc20_call list \<Rightarrow> zrc20_token \<Rightarrow> zrc20_token" where
  "zrc20_run calls t = fold zrc20_exec calls t"

lemma zrc20_run_invariant:
  assumes "P t" "\<And>c t. c \<in> set calls \<Longrightarrow> P t \<Longrightarrow> P (zrc20_exec c t)"
  shows "P (zrc20_run calls t)"
  using assms unfolding zrc20_run_def by (induction calls arbitrary: t) auto

section \<open>Sums of balances\<close>

definition supply_sum :: "zrc20_token \<Rightarrow> nat" where
  "supply_sum t = (\<Sum>a\<in>dom (tk_balances t). unat (balance_of t a))"

lemma balance_set [simp]: "balance_of (set_balance t a v) b = (if b = a then v else balance_of t b)"
  by (simp add: balance_of_def set_balance_def)

lemma set_balance_simps [simp]:
  "dom (tk_balances (set_balance t a v)) = insert a (dom (tk_balances t))"
  "tk_total_supply (set_balance t a v) = tk_total_supply t" "tk_mint_cap (set_balance t a v) = tk_mint_cap t"
  "tk_frozen (set_balance t a v) = tk_frozen t" "tk_locks (set_balance t a v) = tk_locks t"
  "tk_minting_finalized (set_balance t a v) = tk_minting_finalized t" "tk_allowances (set_balance t a v) = tk_allowances t"
  by (simp_all add: set_balance_def)

lemma total_set:
  assumes "finite (dom (tk_balances t))"
  shows "supply_sum (set_balance t a v) + unat (balance_of t a) = supply_sum t + unat v"
proof -
  let ?D = "dom (tk_balances t) - {a}"
  have rest: "(\<Sum>b\<in>?D. unat (balance_of (set_balance t a v) b)) = (\<Sum>b\<in>?D. unat (balance_of t b))"
    by (rule sum.cong) auto
  have new: "supply_sum (set_balance t a v) = unat v + (\<Sum>b\<in>?D. unat (balance_of t b))"
    unfolding supply_sum_def set_balance_simps sum.insert_remove [OF assms] rest by simp
  have old: "supply_sum t = unat (balance_of t a) + (\<Sum>b\<in>?D. unat (balance_of t b))"
  proof (cases "a \<in> dom (tk_balances t)")
    case True
    then show ?thesis unfolding supply_sum_def using assms by (rule sum.remove [rotated])
  next
    case False
    then have "balance_of t a = 0" by (auto simp: balance_of_def split: option.splits)
    then show ?thesis using False unfolding supply_sum_def by simp
  qed
  show ?thesis using new old by simp
qed

lemma balance_le_total:
  assumes "finite (dom (tk_balances t))"
  shows "unat (balance_of t a) \<le> supply_sum t"
  using total_set [OF assms, of a 0] by simp

lemma total_simps [simp]:
  "supply_sum (t\<lparr>tk_total_supply := s\<rparr>) = supply_sum t" "balance_of (t\<lparr>tk_total_supply := s\<rparr>) a = balance_of t a"
  "supply_sum (t\<lparr>tk_total_burned := s\<rparr>) = supply_sum t" "balance_of (t\<lparr>tk_total_burned := s\<rparr>) a = balance_of t a"
  "supply_sum (t\<lparr>tk_allowances := al\<rparr>) = supply_sum t" "balance_of (t\<lparr>tk_allowances := al\<rparr>) a = balance_of t a"
  by (simp_all add: supply_sum_def balance_of_def)

section \<open>The supply\<close>

definition token_ok :: "zrc20_token \<Rightarrow> bool" where
  "token_ok t \<longleftrightarrow> finite (dom (tk_balances t)) \<and> supply_sum t = unat (tk_total_supply t) \<and>
     tk_total_supply t \<le> tk_mint_cap t \<and> zero_address \<notin> dom (tk_balances t) \<and> zero_address \<notin> tk_frozen t"

lemma token_ok_allowances [simp]: "token_ok (t\<lparr>tk_allowances := al\<rparr>) = token_ok t"
  by (simp add: token_ok_def)

text \<open>What a successful movement does, under the invariant.\<close>

lemma transfer_effect:
  assumes ok: "token_ok t" and m: "internal_transfer src dst v now t = (Inr (), t')"
  shows "token_ok t'"
    and "unat (balance_of t' a) + (if a = src then unat v else 0) = unat (balance_of t a) + (if a = dst then unat v else 0)"
proof -
  let ?t1 = "set_balance t src (balance_of t src - v)"
  let ?t2 = "set_balance ?t1 dst (sat_add128 (balance_of ?t1 dst) v)"
  have z: "src \<noteq> zero_address" "dst \<noteq> zero_address" and le: "v \<le> balance_of t src" and t': "t' = ?t2"
    using m by (auto simp: internal_transfer_def Let_def not_less split: if_splits sum.splits)
  have fin: "finite (dom (tk_balances t))" and tot: "supply_sum t = unat (tk_total_supply t)" using ok by (auto simp: token_ok_def)
  have le': "unat v \<le> unat (balance_of t src)" using le by (simp add: word_le_nat_alt)
  have t1: "supply_sum ?t1 + unat v = supply_sum t"
    using total_set [OF fin, of src "balance_of t src - v"] le' by (simp add: unat_sub128 [OF le])
  have f1: "finite (dom (tk_balances ?t1))" using fin by simp
  have "unat (balance_of ?t1 dst) + unat v \<le> supply_sum t" using balance_le_total [OF f1, of dst] t1 by linarith
  then have ex: "unat (sat_add128 (balance_of ?t1 dst) v) = unat (balance_of ?t1 dst) + unat v"
    using tot unsigned_less [of "tk_total_supply t", where 'a = nat] by (intro sat_add128_exact) simp
  have "supply_sum ?t2 + unat (balance_of ?t1 dst) = supply_sum ?t1 + (unat (balance_of ?t1 dst) + unat v)"
    using total_set [OF f1, of dst] ex by simp
  then have "supply_sum t' = supply_sum t" using t1 t' by simp
  then show "token_ok t'" using ok z t' by (simp add: token_ok_def)
  show "unat (balance_of t' a) + (if a = src then unat v else 0) = unat (balance_of t a) + (if a = dst then unat v else 0)"
    using ex le' by (auto simp: t' unat_sub128 [OF le])
qed

lemma mint_effect:
  assumes ok: "token_ok t" and m: "internal_mint dst v now t = (Inr (), t')"
  shows "token_ok t'" "unat (balance_of t' a) = unat (balance_of t a) + (if a = dst then unat v else 0)"
    "unat (tk_total_supply t') = unat (tk_total_supply t) + unat v"
proof -
  let ?t1 = "t\<lparr>tk_total_supply := tk_total_supply t + v\<rparr>"
  have z: "dst \<noteq> zero_address" and no: "unat (tk_total_supply t) + unat v < 2 ^ 128" and cap: "tk_total_supply t + v \<le> tk_mint_cap t"
    and t': "t' = set_balance ?t1 dst (sat_add128 (balance_of t dst) v)"
    using m by (auto simp: internal_mint_def Let_def not_less not_le split: if_splits sum.splits)
  have fin: "finite (dom (tk_balances ?t1))" and tot: "supply_sum t = unat (tk_total_supply t)" using ok by (auto simp: token_ok_def)
  have sup: "unat (tk_total_supply t + v) = unat (tk_total_supply t) + unat v" using no by (simp add: unat_word_ariths)
  have "unat (balance_of t dst) \<le> unat (tk_total_supply t)" using balance_le_total [OF fin, of dst] tot by simp
  then have ex: "unat (sat_add128 (balance_of t dst) v) = unat (balance_of t dst) + unat v"
    using no by (intro sat_add128_exact) simp
  have "supply_sum t' = unat (tk_total_supply t')" using total_set [OF fin, of dst "sat_add128 (balance_of t dst) v"] ex sup tot t' by simp
  then show "token_ok t'" using ok z cap t' by (simp add: token_ok_def)
  show "unat (balance_of t' a) = unat (balance_of t a) + (if a = dst then unat v else 0)" using ex t' by simp
  show "unat (tk_total_supply t') = unat (tk_total_supply t) + unat v" using sup t' by simp
qed

lemma burn_effect:
  assumes ok: "token_ok t" and m: "internal_burn src v now t = (Inr (), t')"
  shows "token_ok t'" "unat (balance_of t' a) + (if a = src then unat v else 0) = unat (balance_of t a)"
    "unat (tk_total_supply t') + unat v = unat (tk_total_supply t)"
proof -
  let ?t1 = "set_balance t src (balance_of t src - v)"
  have z: "src \<noteq> zero_address" and le: "v \<le> balance_of t src"
    and t': "t' = ?t1\<lparr>tk_total_supply := (if tk_total_supply t < v then 0 else tk_total_supply t - v),
        tk_total_burned := sat_add128 (tk_total_burned t) v\<rparr>"
    using m by (auto simp: internal_burn_def Let_def not_less split: if_splits sum.splits)
  have fin: "finite (dom (tk_balances t))" and tot: "supply_sum t = unat (tk_total_supply t)" using ok by (auto simp: token_ok_def)
  have le': "unat v \<le> unat (balance_of t src)" using le by (simp add: word_le_nat_alt)
  have t1: "supply_sum ?t1 + unat v = supply_sum t"
    using total_set [OF fin, of src "balance_of t src - v"] le' by (simp add: unat_sub128 [OF le])
  have vs: "v \<le> tk_total_supply t" using balance_le_total [OF fin, of src] le' tot by (simp add: word_le_nat_alt)
  then have "unat v \<le> unat (tk_total_supply t)" by (simp add: word_le_nat_alt)
  then have sup: "unat (tk_total_supply t') + unat v = unat (tk_total_supply t)"
    using t' vs by (simp add: unat_sub128 leD)
  then show "unat (tk_total_supply t') + unat v = unat (tk_total_supply t)" .
  have "supply_sum t' = unat (tk_total_supply t')" using t1 sup tot t' by simp
  moreover have "tk_total_supply t' \<le> tk_total_supply t" using sup by (simp add: word_le_nat_alt)
  then have "tk_total_supply t' \<le> tk_mint_cap t'" using ok t' by (auto simp: token_ok_def intro: order_trans)
  ultimately show "token_ok t'" using ok z t' by (simp add: token_ok_def)
  show "unat (balance_of t' a) + (if a = src then unat v else 0) = unat (balance_of t a)"
    using t' le' by (auto simp: unat_sub128 [OF le])
qed

section \<open>One call\<close>

fun call_time :: "zrc20_call \<Rightarrow> u64 option" where
  "call_time (Transfer _ _ _ now) = Some now"
| "call_time (TransferFrom _ _ _ _ now) = Some now"
| "call_time (BatchTransfer _ _ _ now) = Some now"
| "call_time (Mint _ _ _ now) = Some now"
| "call_time (Burn _ _ now) = Some now"
| "call_time (BurnFrom _ _ _ now) = Some now"
| "call_time (LockTokens _ _ _ _ now) = Some now"
| "call_time (ExtendLock _ _ _ _ now) = Some now"
| "call_time _ = None"

text \<open>Calls that neither move balances nor change allowances.\<close>

fun is_admin :: "zrc20_call \<Rightarrow> bool" where
  "is_admin (Transfer _ _ _ _) = False"
| "is_admin (TransferFrom _ _ _ _ _) = False"
| "is_admin (BatchTransfer _ _ _ _) = False"
| "is_admin (Mint _ _ _ _) = False"
| "is_admin (Burn _ _ _) = False"
| "is_admin (BurnFrom _ _ _ _) = False"
| "is_admin (Approve _ _ _) = False"
| "is_admin _ = True"

lemmas admin_defs = add_minter_def remove_minter_def pause_minting_def resume_minting_def finalize_minting_def
  pause_transfers_def unpause_transfers_def set_max_transfer_amount_def freeze_def unfreeze_def lock_tokens_def
  extend_lock_def transfer_ownership_def accept_ownership_def renounce_ownership_def update_logo_uri_def owner_only_def

text \<open>A failed movement changes nothing.\<close>

lemma movement_fails:
  "internal_transfer src dst v now t = (Inl e, t') \<Longrightarrow> t' = t"
  "internal_mint dst v now t = (Inl e, t') \<Longrightarrow> t' = t"
  "internal_burn src v now t = (Inl e, t') \<Longrightarrow> t' = t"
  "spend_allowance a b v t = (Inl e, t') \<Longrightarrow> t' = t"
  by (auto simp: internal_transfer_def internal_mint_def internal_burn_def spend_allowance_def Let_def
      split: if_splits sum.splits)

lemma spend_allowance_state: "\<exists>al. snd (spend_allowance a b v t) = t\<lparr>tk_allowances := al\<rparr>"
proof -
  have "\<exists>al. t = t\<lparr>tk_allowances := al\<rparr>" by (rule exI [of _ "tk_allowances t"]) simp
  then show ?thesis by (auto simp: spend_allowance_def Let_def)
qed

lemma exec_preserves:
  assumes P: "P t"
    and T: "\<And>src dst v now t t'. P t \<Longrightarrow> call_time c = Some now \<Longrightarrow> internal_transfer src dst v now t = (Inr (), t') \<Longrightarrow> P t'"
    and M: "\<And>dst v now t t'. P t \<Longrightarrow> call_time c = Some now \<Longrightarrow> \<not> tk_minting_finalized t \<Longrightarrow>
       internal_mint dst v now t = (Inr (), t') \<Longrightarrow> P t'"
    and B: "\<And>src v now t t'. P t \<Longrightarrow> call_time c = Some now \<Longrightarrow> internal_burn src v now t = (Inr (), t') \<Longrightarrow> P t'"
    and A: "\<And>t al. P t \<Longrightarrow> P (t\<lparr>tk_allowances := al\<rparr>)"
    and admin: "is_admin c \<Longrightarrow> P (zrc20_exec c t)"
  shows "P (zrc20_exec c t)"
proof -
  have tr: "P (snd (internal_transfer src dst v now u))" if "P u" "call_time c = Some now" for src dst v now u
    using T [OF that] movement_fails(1) [of src dst v now u] that(1)
    by (cases "internal_transfer src dst v now u"; cases "fst (internal_transfer src dst v now u)") auto
  have bu: "P (snd (internal_burn src v now u))" if "P u" "call_time c = Some now" for src v now u
    using B [OF that] movement_fails(3) [of src v now u] that(1)
    by (cases "internal_burn src v now u"; cases "fst (internal_burn src v now u)") auto
  have al: "P (snd (spend_allowance a b v u))" if "P u" for a b v u
    using spend_allowance_state [of a b v u] A [OF that] by auto
  have seq: "P (snd (then_st m n u))" if "P (snd (m u))" "\<And>w. P w \<Longrightarrow> P (snd (n w))"
    for m n :: "unit zrc20" and u
    using that by (auto simp: then_st_def sbind_def split: prod.splits sum.splits)
  have all: "P (snd (transfer_all src legs now u))" if "P u" "call_time c = Some now" for src legs now u
    using that(1)
  proof (induction legs arbitrary: u)
    case Nil
    then show ?case by (simp add: sret_def)
  next
    case (Cons l legs)
    obtain dst v where "l = (dst, v)" by (cases l)
    then show ?case using seq [of "internal_transfer src dst v now" u "transfer_all src legs now"] tr [OF Cons.prems that(2)] Cons.IH by simp
  qed
  show ?thesis
  proof (cases c)
    case (Mint caller dst v now)
    then have "P (snd (internal_mint dst v now t))" if "\<not> tk_minting_finalized t"
      using M [OF P _ that, of now dst v] movement_fails(2) [of dst v now t] P
      by (cases "internal_mint dst v now t"; cases "fst (internal_mint dst v now t)") auto
    then show ?thesis using P Mint by (auto simp: zrc20_mint_def)
  next
    case (Transfer src dst v now)
    then show ?thesis using tr [OF P] by (simp add: zrc20_transfer_def)
  next
    case (TransferFrom spender src dst v now)
    then show ?thesis using seq [of "spend_allowance src spender v" t "internal_transfer src dst v now"] al [OF P] tr
      by (simp add: zrc20_transfer_from_def)
  next
    case (BatchTransfer src dsts vs now)
    then show ?thesis using all [OF P] P by (auto simp: zrc20_batch_transfer_def sfail_def)
  next
    case (Burn src v now)
    then show ?thesis using bu [OF P] by (simp add: zrc20_burn_def)
  next
    case (BurnFrom spender src v now)
    then show ?thesis using seq [of "spend_allowance src spender v" t "internal_burn src v now"] al [OF P] bu
      by (simp add: zrc20_burn_from_def)
  next
    case (Approve owner spender v)
    then show ?thesis using A [OF P] P by (auto simp: zrc20_approve_def)
  qed (use admin in simp_all)
qed

lemma admin_ledger:
  assumes "is_admin c"
  shows "tk_balances (zrc20_exec c t) = tk_balances t" "tk_total_supply (zrc20_exec c t) = tk_total_supply t"
    "tk_mint_cap (zrc20_exec c t) = tk_mint_cap t"
    "zero_address \<notin> tk_frozen t \<Longrightarrow> zero_address \<notin> tk_frozen (zrc20_exec c t)"
    "balance_of (zrc20_exec c t) = balance_of t"
    "tk_minting_finalized t \<Longrightarrow> tk_minting_finalized (zrc20_exec c t)"
    "a \<in> tk_frozen t \<Longrightarrow> (\<And>caller. c \<noteq> Unfreeze caller a) \<Longrightarrow> a \<in> tk_frozen (zrc20_exec c t)"
proof -
  show b: "tk_balances (zrc20_exec c t) = tk_balances t"
    using assms by (cases c) (auto simp: admin_defs split: option.splits)
  then show "balance_of (zrc20_exec c t) = balance_of t" by (simp add: balance_of_def fun_eq_iff)
qed (use assms in \<open>cases c; auto simp: admin_defs split: option.splits\<close>)+

lemma exec_token_ok: "token_ok t \<Longrightarrow> token_ok (zrc20_exec c t)"
proof (rule exec_preserves)
  assume "token_ok t" "is_admin c"
  then show "token_ok (zrc20_exec c t)" by (simp add: token_ok_def supply_sum_def admin_ledger)
qed (auto intro: transfer_effect(1) mint_effect(1) burn_effect(1))

lemma new_token_ok:
  assumes "zrc20_new name symbol decimals initial cap uri owner now = Inr t"
  shows "token_ok t"
proof -
  let ?c = "if cap = 0 then UNLIMITED_CAP else cap"
  let ?t = "\<lparr>tk_name = name, tk_symbol = symbol, tk_decimals = decimals, tk_logo_uri = uri,
      tk_total_supply = 0, tk_total_burned = 0, tk_mint_cap = ?c, tk_balances = Map.empty,
      tk_allowances = Map.empty, tk_owner = owner, tk_pending_owner = None, tk_minters = {owner},
      tk_minting_paused = False, tk_minting_finalized = False, tk_transfer_paused = False,
      tk_max_transfer_amount = 0, tk_frozen = {}, tk_locks = Map.empty\<rparr>"
  have ok: "token_ok ?t" by (simp add: token_ok_def supply_sum_def)
  have "t = ?t \<or> internal_mint owner initial now ?t = (Inr (), t)"
    using assms by (auto simp: zrc20_new_def Let_def split: if_splits sum.splits prod.splits)
  then show ?thesis using ok mint_effect(1) by auto
qed

section \<open>Frozen, locked, finalised\<close>

text \<open>The movement hook refuses frozen accounts and the locked part of a balance.\<close>

lemma hook_frozen:
  assumes "before_transfer t src dst v now = Inr x" "zero_address \<notin> tk_frozen t"
  shows "src \<notin> tk_frozen t" "dst \<notin> tk_frozen t"
  using assms by (auto simp: before_transfer_def Let_def split: if_splits)

lemma hook_locked:
  assumes "before_transfer t src dst v now = Inr x" "src \<noteq> zero_address" "v \<le> balance_of t src"
  shows "unat (locked_balance_of t src now) + unat v \<le> unat (balance_of t src)"
proof (cases "locked_balance_of t src now > 0")
  case True
  then have l: "locked_balance_of t src now \<le> balance_of t src" "v \<le> balance_of t src - locked_balance_of t src now"
    using assms(1,2) by (auto simp: before_transfer_def Let_def not_less split: if_splits)
  then have "unat v \<le> unat (balance_of t src) - unat (locked_balance_of t src now)"
    by (simp add: word_le_nat_alt unat_sub128)
  then show ?thesis using l(1) by (simp add: word_le_nat_alt)
next
  case False
  then have "locked_balance_of t src now = 0" by (simp add: word_gt_0)
  then show ?thesis using assms(3) by (simp add: word_le_nat_alt)
qed

lemma movement_hook:
  "internal_transfer src dst v now t = (Inr (), t') \<Longrightarrow> before_transfer t src dst v now = Inr () \<and> src \<noteq> zero_address \<and> v \<le> balance_of t src"
  "internal_mint dst v now t = (Inr (), t') \<Longrightarrow> before_transfer t zero_address dst v now = Inr ()"
  "internal_burn src v now t = (Inr (), t') \<Longrightarrow> before_transfer t src zero_address v now = Inr () \<and> src \<noteq> zero_address \<and> v \<le> balance_of t src"
  by (auto simp: internal_transfer_def internal_mint_def internal_burn_def Let_def not_less split: if_splits sum.splits)

text \<open>Movements change balances, supply and burn count only.\<close>

lemma movement_frame:
  "internal_transfer src dst v now t = (Inr (), t') \<Longrightarrow> tk_frozen t' = tk_frozen t \<and> tk_locks t' = tk_locks t \<and> tk_minting_finalized t' = tk_minting_finalized t"
  "internal_mint dst v now t = (Inr (), t') \<Longrightarrow> tk_frozen t' = tk_frozen t \<and> tk_locks t' = tk_locks t \<and> tk_minting_finalized t' = tk_minting_finalized t"
  "internal_burn src v now t = (Inr (), t') \<Longrightarrow> tk_frozen t' = tk_frozen t \<and> tk_locks t' = tk_locks t \<and> tk_minting_finalized t' = tk_minting_finalized t"
  by (auto simp: internal_transfer_def internal_mint_def internal_burn_def Let_def split: if_splits sum.splits)

definition frozen_at :: "address \<Rightarrow> u128 \<Rightarrow> zrc20_token \<Rightarrow> bool" where
  "frozen_at a b t \<longleftrightarrow> token_ok t \<and> a \<in> tk_frozen t \<and> balance_of t a = b"

lemma exec_frozen:
  assumes "frozen_at a b t" "\<And>caller. c = Unfreeze caller a \<Longrightarrow> caller \<noteq> tk_owner t"
  shows "frozen_at a b (zrc20_exec c t)"
  using assms(1)
proof (rule exec_preserves)
  fix src dst v now t t'
  assume f: "frozen_at a b t" and m: "internal_transfer src dst v now t = (Inr (), t')"
  have "src \<notin> tk_frozen t" "dst \<notin> tk_frozen t"
    using hook_frozen movement_hook(1) [OF m] f by (auto simp: frozen_at_def token_ok_def)
  then have "unat (balance_of t' a) = unat (balance_of t a)"
    using transfer_effect(2) [OF _ m, of a] f by (auto simp: frozen_at_def split: if_splits)
  then show "frozen_at a b t'"
    using transfer_effect(1) [OF _ m] f movement_frame(1) [OF m] unfolding frozen_at_def by (simp add: word_unat_eq_iff)
next
  fix dst v now t t'
  assume f: "frozen_at a b t" and m: "internal_mint dst v now t = (Inr (), t')"
  have "dst \<notin> tk_frozen t" using hook_frozen [OF movement_hook(2) [OF m]] f by (auto simp: frozen_at_def token_ok_def)
  then have "unat (balance_of t' a) = unat (balance_of t a)"
    using mint_effect(2) [OF _ m, of a] f by (auto simp: frozen_at_def split: if_splits)
  then show "frozen_at a b t'"
    using mint_effect(1) [OF _ m] f movement_frame(2) [OF m] unfolding frozen_at_def by (simp add: word_unat_eq_iff)
next
  fix src v now t t'
  assume f: "frozen_at a b t" and m: "internal_burn src v now t = (Inr (), t')"
  have "src \<notin> tk_frozen t" using hook_frozen movement_hook(3) [OF m] f by (auto simp: frozen_at_def token_ok_def)
  then have "unat (balance_of t' a) = unat (balance_of t a)"
    using burn_effect(2) [OF _ m, of a] f by (auto simp: frozen_at_def split: if_splits)
  then show "frozen_at a b t'"
    using burn_effect(1) [OF _ m] f movement_frame(3) [OF m] unfolding frozen_at_def by (simp add: word_unat_eq_iff)
next
  assume adm: "is_admin c"
  have "a \<in> tk_frozen (zrc20_exec c t)"
  proof (cases "\<exists>caller. c = Unfreeze caller a")
    case True
    then show ?thesis using assms by (auto simp: frozen_at_def admin_defs)
  next
    case False
    then show ?thesis using admin_ledger(7) [OF adm] assms(1) by (auto simp: frozen_at_def)
  qed
  then show "frozen_at a b (zrc20_exec c t)"
    using assms(1) exec_token_ok admin_ledger(5) [OF adm] by (auto simp: frozen_at_def)
qed (auto simp: frozen_at_def)

text \<open>Only an \<^verbatim>\<open>unfreeze\<close> of the account by the owner of that moment lifts the freeze; refused ones may occur
  anywhere in the sequence.\<close>

lemma run_frozen:
  assumes "frozen_at a b t" "\<And>pre post caller. calls = pre @ Unfreeze caller a # post \<Longrightarrow> caller \<noteq> tk_owner (zrc20_run pre t)"
  shows "frozen_at a b (zrc20_run calls t)"
  using assms
proof (induction calls arbitrary: t)
  case (Cons c calls)
  have "frozen_at a b (zrc20_exec c t)"
    by (rule exec_frozen [OF Cons.prems(1)]) (use Cons.prems(2) [of "[]"] in \<open>auto simp: zrc20_run_def\<close>)
  moreover have "caller \<noteq> tk_owner (zrc20_run pre (zrc20_exec c t))" if "calls = pre @ Unfreeze caller a # post" for pre post caller
    using Cons.prems(2) [of "c # pre" caller post] that by (simp add: zrc20_run_def)
  ultimately show ?case using Cons.IH [of "zrc20_exec c t"] by (simp add: zrc20_run_def)
qed (simp add: zrc20_run_def)

definition finalized_below :: "nat \<Rightarrow> zrc20_token \<Rightarrow> bool" where
  "finalized_below n t \<longleftrightarrow> token_ok t \<and> tk_minting_finalized t \<and> unat (tk_total_supply t) \<le> n"

lemma exec_finalized:
  assumes "finalized_below n t"
  shows "finalized_below n (zrc20_exec c t)"
  using assms
proof (rule exec_preserves)
  fix src dst v now t t'
  assume f: "finalized_below n t" and m: "internal_transfer src dst v now t = (Inr (), t')"
  have "tk_total_supply t' = tk_total_supply t"
    using m by (auto simp: internal_transfer_def Let_def split: if_splits sum.splits)
  then show "finalized_below n t'"
    using transfer_effect(1) [OF _ m] f movement_frame(1) [OF m] by (auto simp: finalized_below_def)
next
  fix src v now t t'
  assume f: "finalized_below n t" and m: "internal_burn src v now t = (Inr (), t')"
  then show "finalized_below n t'"
    using burn_effect(1,3) [OF _ m] movement_frame(3) [OF m] by (auto simp: finalized_below_def)
next
  assume "is_admin c"
  then show "finalized_below n (zrc20_exec c t)"
    using assms exec_token_ok admin_ledger by (auto simp: finalized_below_def)
qed (auto simp: finalized_below_def)

text \<open>A lock of at least \<open>m\<close> until at least \<open>u\<close>, covered by the balance.\<close>

definition locked_from :: "address \<Rightarrow> u128 \<Rightarrow> u64 \<Rightarrow> zrc20_token \<Rightarrow> bool" where
  "locked_from a m u t \<longleftrightarrow> token_ok t \<and> (\<exists>l. tk_locks t a = Some l \<and> 0 < lk_amount l \<and> m \<le> lk_amount l \<and> u \<le> lk_unlock_time l) \<and>
     (\<exists>l. tk_locks t a = Some l \<and> lk_amount l \<le> balance_of t a)"

lemma locked_fromD:
  assumes "locked_from a m u t" "now < u"
  shows "\<exists>l. tk_locks t a = Some l \<and> locked_balance_of t a now = lk_amount l \<and> lk_amount l \<le> balance_of t a \<and> m \<le> lk_amount l"
  using assms by (auto simp: locked_from_def locked_balance_of_def)

lemma exec_locked:
  assumes "locked_from a m u t" "\<And>now. call_time c = Some now \<Longrightarrow> now < u"
  shows "locked_from a m u (zrc20_exec c t)"
  using assms(1)
proof (rule exec_preserves)
  fix src dst v now t t'
  assume f: "locked_from a m u t" and n: "call_time c = Some now" and mv: "internal_transfer src dst v now t = (Inr (), t')"
  obtain l where l: "tk_locks t a = Some l" "locked_balance_of t a now = lk_amount l" "lk_amount l \<le> balance_of t a"
    using locked_fromD [OF f assms(2) [OF n]] by blast
  have h: "src = a \<Longrightarrow> unat (lk_amount l) + unat v \<le> unat (balance_of t a)"
    using hook_locked [of t src dst v now] movement_hook(1) [OF mv] l(2) by auto
  have "unat (lk_amount l) \<le> unat (balance_of t' a)"
    using transfer_effect(2) [OF _ mv, of a] f h l(3) by (auto simp: locked_from_def word_le_nat_alt split: if_splits)
  then show "locked_from a m u t'"
    using f transfer_effect(1) [OF _ mv] movement_frame(1) [OF mv] l(1)
    by (auto simp: locked_from_def word_le_nat_alt)
next
  fix dst v now t t'
  assume f: "locked_from a m u t" and mv: "internal_mint dst v now t = (Inr (), t')"
  then show "locked_from a m u t'"
    using mint_effect(1,2) [OF _ mv] movement_frame(2) [OF mv]
    by (fastforce simp: locked_from_def word_le_nat_alt)
next
  fix src v now t t'
  assume f: "locked_from a m u t" and n: "call_time c = Some now" and mv: "internal_burn src v now t = (Inr (), t')"
  obtain l where l: "tk_locks t a = Some l" "locked_balance_of t a now = lk_amount l" "lk_amount l \<le> balance_of t a"
    using locked_fromD [OF f assms(2) [OF n]] by blast
  have h: "src = a \<Longrightarrow> unat (lk_amount l) + unat v \<le> unat (balance_of t a)"
    using hook_locked [of t src zero_address v now] movement_hook(3) [OF mv] l(2) by auto
  have "unat (lk_amount l) \<le> unat (balance_of t' a)"
    using burn_effect(2) [OF _ mv, of a] f h l(3) by (auto simp: locked_from_def word_le_nat_alt split: if_splits)
  then show "locked_from a m u t'"
    using f burn_effect(1) [OF _ mv] movement_frame(3) [OF mv] l(1)
    by (auto simp: locked_from_def word_le_nat_alt)
next
  assume adm: "is_admin c"
  obtain l where l: "tk_locks t a = Some l" "0 < lk_amount l" "m \<le> lk_amount l" "u \<le> lk_unlock_time l" "lk_amount l \<le> balance_of t a"
    using assms(1) by (auto simp: locked_from_def)
  have "\<exists>l'. tk_locks (zrc20_exec c t) a = Some l' \<and> lk_amount l \<le> lk_amount l' \<and> lk_unlock_time l \<le> lk_unlock_time l' \<and>
      lk_amount l' \<le> balance_of t a"
    using adm l assms(2) by (cases c) (fastforce simp: admin_defs not_less split: option.splits)+
  then show "locked_from a m u (zrc20_exec c t)"
    using l assms(1) exec_token_ok admin_ledger(5) [OF adm, of t] by (fastforce simp: locked_from_def)
qed (auto simp: locked_from_def)

section \<open>Properties\<close>

definition alice :: address where "alice = replicate 20 1"
definition bob :: address where "bob = replicate 20 2"

definition demo_token :: zrc20_token where
  "demo_token = \<lparr>tk_name = ''T'', tk_symbol = ''T'', tk_decimals = 18, tk_logo_uri = [], tk_total_supply = 1000,
     tk_total_burned = 0, tk_mint_cap = UNLIMITED_CAP, tk_balances = [alice \<mapsto> 1000], tk_allowances = [(alice, bob) \<mapsto> 300],
     tk_owner = alice, tk_pending_owner = None, tk_minters = {alice}, tk_minting_paused = False, tk_minting_finalized = True,
     tk_transfer_paused = False, tk_max_transfer_amount = 0, tk_frozen = {},
     tk_locks = [alice \<mapsto> \<lparr>lk_amount = 400, lk_unlock_time = 100\<rparr>]\<rparr>"

lemma demo_token_ok: "token_ok demo_token"
  by (simp add: token_ok_def supply_sum_def demo_token_def balance_of_def UNLIMITED_CAP_def alice_def zero_address_def)

text \<open>C7. Whatever sequence of calls is made to a newly created token, by whomever and failed calls
  included, the balances add up to the total supply (so no addition of balances saturates), the
  supply stays within the cap, and the zero address holds nothing.\<close>

theorem zrc20_supply_conserved:
  assumes "zrc20_new name symbol decimals initial cap uri owner now = Inr t"
  shows "let t' = zrc20_run calls t in
    supply_sum t' = unat (tk_total_supply t') \<and> tk_total_supply t' \<le> tk_mint_cap t' \<and> balance_of t' zero_address = 0"
proof -
  have "token_ok (zrc20_run calls t)" by (rule zrc20_run_invariant [OF new_token_ok [OF assms] exec_token_ok])
  then show ?thesis by (auto simp: token_ok_def balance_of_def Let_def domIff)
qed

theorem zrc20_supply_conserved_witness:
  "\<exists>t. zrc20_new ''T'' ''T'' 18 1000 5000 [] alice 0 = Inr t \<and>
    (let t' = zrc20_run [Transfer alice bob 300 1, Mint alice bob 50 2, Burn bob 100 3] t in
     supply_sum t' = unat (tk_total_supply t') \<and> tk_total_supply t' = 950)"
proof -
  have e: "case zrc20_new ''T'' ''T'' 18 1000 5000 [] alice 0 of Inl _ \<Rightarrow> False
      | Inr t \<Rightarrow> tk_total_supply (zrc20_run [Transfer alice bob 300 1, Mint alice bob 50 2, Burn bob 100 3] t) = 950"
    by code_simp
  then obtain t where t: "zrc20_new ''T'' ''T'' 18 1000 5000 [] alice 0 = Inr t"
    by (cases "zrc20_new ''T'' ''T'' 18 1000 5000 [] alice 0") auto
  then show ?thesis
    using e zrc20_supply_conserved [OF t, of "[Transfer alice bob 300 1, Mint alice bob 50 2, Burn bob 100 3]"] by (simp add: Let_def)
qed

text \<open>C29. The controls of the token hold against every sequence of calls: a frozen account stays frozen and keeps
  its balance unless the owner of the token at that moment calls \<^verbatim>\<open>unfreeze\<close> on it (attempts by anybody else may
  occur and change nothing), a finalised supply never grows, and an account with a lock keeps at
  least the locked amount through every call made before the unlock time (the lock itself can
  only be extended).\<close>

theorem zrc20_controls_hold:
  assumes "token_ok t"
  shows "(a \<in> tk_frozen t \<and> (\<forall>pre post caller. calls = pre @ Unfreeze caller a # post \<longrightarrow> caller \<noteq> tk_owner (zrc20_run pre t)) \<longrightarrow>
       a \<in> tk_frozen (zrc20_run calls t) \<and> balance_of (zrc20_run calls t) a = balance_of t a) \<and>
     (tk_minting_finalized t \<longrightarrow> tk_total_supply (zrc20_run calls t) \<le> tk_total_supply t) \<and>
     (tk_locks t a = Some l \<and> 0 < lk_amount l \<and> lk_amount l \<le> balance_of t a \<and>
        (\<forall>c\<in>set calls. \<forall>now. call_time c = Some now \<longrightarrow> now < lk_unlock_time l) \<longrightarrow>
       lk_amount l \<le> balance_of (zrc20_run calls t) a)"
proof (intro conjI impI)
  assume f: "a \<in> tk_frozen t \<and> (\<forall>pre post caller. calls = pre @ Unfreeze caller a # post \<longrightarrow> caller \<noteq> tk_owner (zrc20_run pre t))"
  then have "frozen_at a (balance_of t a) (zrc20_run calls t)"
    by (intro run_frozen) (use assms in \<open>auto simp: frozen_at_def\<close>)
  then show "a \<in> tk_frozen (zrc20_run calls t)" "balance_of (zrc20_run calls t) a = balance_of t a" by (simp_all add: frozen_at_def)
next
  assume "tk_minting_finalized t"
  then have "finalized_below (unat (tk_total_supply t)) (zrc20_run calls t)"
    by (intro zrc20_run_invariant [where P = "finalized_below (unat (tk_total_supply t))"] exec_finalized)
      (use assms in \<open>auto simp: finalized_below_def [of _ t]\<close>)
  then show "tk_total_supply (zrc20_run calls t) \<le> tk_total_supply t" by (simp add: finalized_below_def word_le_nat_alt)
next
  assume l: "tk_locks t a = Some l \<and> 0 < lk_amount l \<and> lk_amount l \<le> balance_of t a \<and>
      (\<forall>c\<in>set calls. \<forall>now. call_time c = Some now \<longrightarrow> now < lk_unlock_time l)"
  then have "locked_from a (lk_amount l) (lk_unlock_time l) (zrc20_run calls t)"
    by (intro zrc20_run_invariant [where P = "locked_from a (lk_amount l) (lk_unlock_time l)"] exec_locked)
      (use assms in \<open>auto simp: locked_from_def [of _ _ _ t]\<close>)
  then show "lk_amount l \<le> balance_of (zrc20_run calls t) a" by (auto simp: locked_from_def intro: order_trans)
qed

theorem zrc20_controls_hold_witness:
  "400 \<le> balance_of (zrc20_run [Transfer alice bob 700 6, Transfer alice bob 600 7] demo_token) alice \<and>
   tk_total_supply (zrc20_run [Transfer alice bob 700 6, Transfer alice bob 600 7] demo_token) \<le> 1000 \<and>
   (let t = zrc20_run [Freeze alice alice] demo_token; t' = zrc20_run [Unfreeze bob alice, Transfer alice bob 600 7] t in
    alice \<in> tk_frozen t' \<and> balance_of t' alice = 1000)"
proof -
  let ?t = "zrc20_run [Freeze alice alice] demo_token" and ?cs = "[Unfreeze bob alice, Transfer alice bob 600 7]"
  have t: "token_ok ?t" by (rule zrc20_run_invariant [OF demo_token_ok exec_token_ok])
  have f: "alice \<in> tk_frozen ?t" "tk_owner ?t = alice" "balance_of ?t alice = 1000"
    by (simp_all add: zrc20_run_def freeze_def owner_only_def demo_token_def balance_of_def alice_def zero_address_def)
  have "caller \<noteq> tk_owner (zrc20_run pre ?t)" if "?cs = pre @ Unfreeze caller alice # post" for pre post caller
  proof -
    have "pre = [] \<and> caller = bob" using that by (cases pre; cases "tl pre") auto
    then show ?thesis using f(2) by (simp add: zrc20_run_def alice_def bob_def)
  qed
  then have "alice \<in> tk_frozen (zrc20_run ?cs ?t) \<and> balance_of (zrc20_run ?cs ?t) alice = balance_of ?t alice"
    using zrc20_controls_hold [OF t, of alice ?cs] f(1) by blast
  then show ?thesis
    using f(3) zrc20_controls_hold [OF demo_token_ok, of alice "[Transfer alice bob 700 6, Transfer alice bob 600 7]"
        "\<lparr>lk_amount = 400, lk_unlock_time = 100\<rparr>"]
    by (simp add: demo_token_def balance_of_def)
qed

text \<open>C30. A delegated transfer is not atomic: when the movement fails after the allowance was found
  sufficient, the call reports the error and the allowance is spent although no balance moved.\<close>

theorem zrc20_failed_transfer_from_spends:
  assumes "internal_transfer src dst v now (t\<lparr>tk_allowances := (tk_allowances t)((src, spender) \<mapsto> allowance t src spender - v)\<rparr>) = (Inl e, u)"
    and "v \<le> allowance t src spender" "allowance t src spender \<noteq> - 1"
  shows "fst (zrc20_transfer_from spender src dst v now t) = Inl e \<and>
    allowance (snd (zrc20_transfer_from spender src dst v now t)) src spender = allowance t src spender - v \<and>
    tk_balances (snd (zrc20_transfer_from spender src dst v now t)) = tk_balances t"
proof -
  let ?t = "t\<lparr>tk_allowances := (tk_allowances t)((src, spender) \<mapsto> allowance t src spender - v)\<rparr>"
  have "spend_allowance src spender v t = (Inr (), ?t)" using assms(2,3) by (simp add: spend_allowance_def Let_def leD)
  then have "zrc20_transfer_from spender src dst v now t = (Inl e, u)"
    using assms(1) by (simp add: zrc20_transfer_from_def then_st_def sbind_def)
  moreover have "u = ?t" by (rule movement_fails(1) [OF assms(1)])
  ultimately show ?thesis by (simp add: allowance_def)
qed

theorem zrc20_failed_transfer_from_spends_witness:
  "allowance (snd (zrc20_transfer_from bob alice bob 200 6 (demo_token\<lparr>tk_transfer_paused := True\<rparr>))) alice bob = 100"
proof -
  let ?t = "demo_token\<lparr>tk_transfer_paused := True\<rparr>"
  have a: "allowance ?t alice bob = 300" by (simp add: demo_token_def allowance_def)
  let ?t' = "?t\<lparr>tk_allowances := (tk_allowances ?t)((alice, bob) \<mapsto> allowance ?t alice bob - 200)\<rparr>"
  have "internal_transfer alice bob 200 6 ?t' = (Inl (Err TransferPaused), ?t')"
    by (simp add: internal_transfer_def before_transfer_def alice_def bob_def zero_address_def)
  from zrc20_failed_transfer_from_spends [OF this] show ?thesis by (simp add: a)
qed

end
