(* ===== verification/Uint.thy ===== *)
theory Uint
  imports Machine
begin

text \<open>
  The 256-bit unsigned integers of \<^verbatim>\<open>zbx-primitives/src/uint.rs\<close>: four 64-bit limbs, the least
  significant first.  Addition and subtraction carry through all four limbs and are
  exact; multiplication and division look at the low limbs only, and the derived
  order compares the least significant limb first.
\<close>

section \<open>The type and its conversions\<close>

datatype U256 = U256 u64 u64 u64 u64

definition U256_ZERO :: U256 where "U256_ZERO = U256 0 0 0 0"
definition U256_ONE :: U256 where "U256_ONE = U256 1 0 0 0"
definition U256_MAX :: U256 where "U256_MAX = U256 (- 1) (- 1) (- 1) (- 1)"

definition U256_from_u64 :: "u64 \<Rightarrow> U256" where
  "U256_from_u64 v = U256 v 0 0 0"

definition U256_from_u128 :: "u128 \<Rightarrow> U256" where
  "U256_from_u128 v = U256 (ucast v) (ucast (drop_bit 64 v)) 0 0"

fun U256_as_u64 :: "U256 \<Rightarrow> u64" where
  "U256_as_u64 (U256 a b c d) = a"

fun U256_is_zero :: "U256 \<Rightarrow> bool" where
  "U256_is_zero (U256 a b c d) \<longleftrightarrow> a = 0 \<and> b = 0 \<and> c = 0 \<and> d = 0"

fun U256_as_u128_lossy :: "U256 \<Rightarrow> u128" where
  "U256_as_u128_lossy (U256 a b c d) = or (ucast a) (push_bit 64 (ucast b))"

definition u64_be_bytes :: "u64 \<Rightarrow> bytes" where
  "u64_be_bytes v = be_bytes 8 (unat v)"

fun U256_to_be_bytes :: "U256 \<Rightarrow> bytes" where
  "U256_to_be_bytes (U256 a b c d) = u64_be_bytes d @ u64_be_bytes c @ u64_be_bytes b @ u64_be_bytes a"

definition u64_from_be_bytes :: "bytes \<Rightarrow> u64" where
  "u64_from_be_bytes bs = of_nat (be_val bs)"

definition U256_from_be_bytes :: "bytes \<Rightarrow> U256" where
  "U256_from_be_bytes b = U256 (u64_from_be_bytes (take 8 (drop 24 b))) (u64_from_be_bytes (take 8 (drop 16 b)))
     (u64_from_be_bytes (take 8 (drop 8 b))) (u64_from_be_bytes (take 8 b))"

section \<open>Arithmetic\<close>

text \<open>One round of the loops of \<^verbatim>\<open>overflowing_add\<close> and \<^verbatim>\<open>overflowing_sub\<close>: the limb and the carry (borrow) out.\<close>

definition add_limb :: "u64 \<Rightarrow> u64 \<Rightarrow> u64 \<Rightarrow> u64 \<times> u64" where
  "add_limb a b carry = (let s1 = a + b; s2 = s1 + carry in (s2, of_bool (s1 < a) + of_bool (s2 < s1)))"

definition sub_limb :: "u64 \<Rightarrow> u64 \<Rightarrow> u64 \<Rightarrow> u64 \<times> u64" where
  "sub_limb a b borrow = (let s1 = a - b; s2 = s1 - borrow in (s2, of_bool (a < b) + of_bool (s1 < borrow)))"

fun U256_overflowing_add :: "U256 \<Rightarrow> U256 \<Rightarrow> U256 \<times> bool" where
  "U256_overflowing_add (U256 a0 a1 a2 a3) (U256 b0 b1 b2 b3) =
     (let (r0, c0) = add_limb a0 b0 0; (r1, c1) = add_limb a1 b1 c0;
          (r2, c2) = add_limb a2 b2 c1; (r3, c3) = add_limb a3 b3 c2
      in (U256 r0 r1 r2 r3, c3 \<noteq> 0))"

fun U256_overflowing_sub :: "U256 \<Rightarrow> U256 \<Rightarrow> U256 \<times> bool" where
  "U256_overflowing_sub (U256 a0 a1 a2 a3) (U256 b0 b1 b2 b3) =
     (let (r0, c0) = sub_limb a0 b0 0; (r1, c1) = sub_limb a1 b1 c0;
          (r2, c2) = sub_limb a2 b2 c1; (r3, c3) = sub_limb a3 b3 c2
      in (U256 r0 r1 r2 r3, c3 \<noteq> 0))"

definition U256_overflowing_mul :: "U256 \<Rightarrow> U256 \<Rightarrow> U256 \<times> bool" where
  "U256_overflowing_mul x y = (U256_from_u128 (U256_as_u128_lossy x * U256_as_u128_lossy y), False)"

definition U256_saturating_add :: "U256 \<Rightarrow> U256 \<Rightarrow> U256" where
  "U256_saturating_add x y = (let (r, c) = U256_overflowing_add x y in if c then U256_MAX else r)"

definition U256_saturating_sub :: "U256 \<Rightarrow> U256 \<Rightarrow> U256" where
  "U256_saturating_sub x y = (let (r, b) = U256_overflowing_sub x y in if b then U256_ZERO else r)"

definition U256_checked_add :: "U256 \<Rightarrow> U256 \<Rightarrow> U256 option" where
  "U256_checked_add x y = (let (r, c) = U256_overflowing_add x y in if c then None else Some r)"

definition U256_checked_sub :: "U256 \<Rightarrow> U256 \<Rightarrow> U256 option" where
  "U256_checked_sub x y = (let (r, b) = U256_overflowing_sub x y in if b then None else Some r)"

definition U256_div :: "U256 \<Rightarrow> U256 \<Rightarrow> U256" where
  "U256_div x r = (if U256_is_zero r then U256_ZERO
     else let a = U256_as_u64 x; b = U256_as_u64 r in if b = 0 then U256_ZERO else U256_from_u64 (a div b))"

fun U256_bitand :: "U256 \<Rightarrow> U256 \<Rightarrow> U256" where
  "U256_bitand (U256 a0 a1 a2 a3) (U256 b0 b1 b2 b3) = U256 (and a0 b0) (and a1 b1) (and a2 b2) (and a3 b3)"

fun U256_bitor :: "U256 \<Rightarrow> U256 \<Rightarrow> U256" where
  "U256_bitor (U256 a0 a1 a2 a3) (U256 b0 b1 b2 b3) = U256 (or a0 b0) (or a1 b1) (or a2 b2) (or a3 b3)"

fun U256_bitxor :: "U256 \<Rightarrow> U256 \<Rightarrow> U256" where
  "U256_bitxor (U256 a0 a1 a2 a3) (U256 b0 b1 b2 b3) = U256 (xor a0 b0) (xor a1 b1) (xor a2 b2) (xor a3 b3)"

text \<open>The derived \<^verbatim>\<open>PartialOrd\<close>: lexicographic in the order of the array, so the least significant limb decides first.\<close>

fun U256_lt :: "U256 \<Rightarrow> U256 \<Rightarrow> bool" where
  "U256_lt (U256 a0 a1 a2 a3) (U256 b0 b1 b2 b3) \<longleftrightarrow>
     a0 < b0 \<or> a0 = b0 \<and> (a1 < b1 \<or> a1 = b1 \<and> (a2 < b2 \<or> a2 = b2 \<and> a3 < b3))"

section \<open>Values\<close>

fun u256_nat :: "U256 \<Rightarrow> nat" where
  "u256_nat (U256 a b c d) = unat a + 2 ^ 64 * (unat b + 2 ^ 64 * (unat c + 2 ^ 64 * unat d))"

lemma limbs_less: "x < 2 ^ 64 \<Longrightarrow> y < m \<Longrightarrow> x + 2 ^ 64 * y < 2 ^ 64 * (m :: nat)"
proof -
  assume x: "x < 2 ^ 64" and "y < m"
  then have "2 ^ 64 * (y + 1) \<le> 2 ^ 64 * m" by (intro mult_left_mono) auto
  with x show ?thesis by simp
qed

lemma u256_nat_less: "u256_nat x < 2 ^ 256"
proof (cases x)
  case (U256 a b c d)
  have "u256_nat x < 2 ^ 64 * (2 ^ 64 * (2 ^ 64 * 2 ^ 64))"
    unfolding U256 u256_nat.simps by (intro limbs_less unat_u64_less)
  then show ?thesis by simp
qed

lemma u256_nat_consts [simp]: "u256_nat U256_ZERO = 0" "u256_nat U256_ONE = 1" "u256_nat U256_MAX = 2 ^ 256 - 1"
  by (simp_all add: U256_ZERO_def U256_ONE_def U256_MAX_def unsigned_minus_1_eq_mask mask_eq_exp_minus_1)

lemma wrap_add_val: "unat (a + b :: u64) + 2 ^ 64 * of_bool (a + b < a) = unat a + unat b"
proof (cases "unat a + unat b < 2 ^ 64")
  case True
  then have "unat (a + b) = unat a + unat b" by (simp add: unat_word_ariths(1))
  then show ?thesis by (simp add: word_less_nat_alt)
next
  case False
  then have "unat (a + b) = unat a + unat b - 2 ^ 64"
    using unat_u64_less [of a] unat_u64_less [of b] by (simp add: unat_word_ariths(1) le_mod_geq)
  then show ?thesis using False unat_u64_less [of b] by (simp add: word_less_nat_alt)
qed

lemma wrap_sub_val: "unat (a - b :: u64) + unat b = unat a + 2 ^ 64 * of_bool (a < b)"
proof (cases "b \<le> a")
  case True
  then show ?thesis by (simp add: unat_sub word_le_nat_alt not_less)
next
  case False
  then have "unat (a - b) = 2 ^ 64 + unat a - unat b" by (simp add: unat_sub_if' not_le word_less_nat_alt)
  then show ?thesis using False unat_u64_less [of b] by simp
qed

lemma of_bool_u64 [simp]: "unat (of_bool P :: u64) = of_bool P"
  by simp

lemma unat_zero_le: "unat (0 :: u64) \<le> 1"
  by simp

lemma add_limb_val:
  assumes "add_limb a b c = (r, c')" "unat c \<le> 1"
  shows "unat r + 2 ^ 64 * unat c' = unat a + unat b + unat c" "unat c' \<le> 1"
proof -
  let ?p = "a + b < a" and ?q = "a + b + c < a + b"
  have r: "r = a + b + c" and c': "c' = of_bool ?p + of_bool ?q" using assms(1) by (auto simp: add_limb_def Let_def)
  have 1: "unat (a + b) + 2 ^ 64 * of_bool ?p = unat a + unat b" by (rule wrap_add_val)
  have 2: "unat r + 2 ^ 64 * of_bool ?q = unat (a + b) + unat c" unfolding r by (rule wrap_add_val)
  have u: "unat c' = of_bool ?p + of_bool ?q" unfolding c' by (cases ?p; cases ?q) simp_all
  show v: "unat r + 2 ^ 64 * unat c' = unat a + unat b + unat c" using 1 2 unfolding u by (simp add: algebra_simps)
  have "2 ^ 64 * unat c' < 2 ^ 64 * 2"
    using v unat_u64_less [of a] unat_u64_less [of b] assms(2) by linarith
  then show "unat c' \<le> 1" by simp
qed

lemma sub_limb_val:
  assumes "sub_limb a b c = (r, c')" "unat c \<le> 1"
  shows "unat r + unat b + unat c = unat a + 2 ^ 64 * unat c'" "unat c' \<le> 1"
proof -
  let ?p = "a < b" and ?q = "a - b < c"
  have r: "r = a - b - c" and c': "c' = of_bool ?p + of_bool ?q" using assms(1) by (auto simp: sub_limb_def Let_def)
  have 1: "unat (a - b) + unat b = unat a + 2 ^ 64 * of_bool ?p" by (rule wrap_sub_val)
  have 2: "unat r + unat c = unat (a - b) + 2 ^ 64 * of_bool ?q" unfolding r by (rule wrap_sub_val)
  have u: "unat c' = of_bool ?p + of_bool ?q" unfolding c' by (cases ?p; cases ?q) simp_all
  show v: "unat r + unat b + unat c = unat a + 2 ^ 64 * unat c'" using 1 2 unfolding u by (simp add: algebra_simps)
  have "2 ^ 64 * unat c' < 2 ^ 64 * 2"
    using v unat_u64_less [of r] unat_u64_less [of b] assms(2) by linarith
  then show "unat c' \<le> 1" by simp
qed

lemma overflowing_add_val:
  assumes "U256_overflowing_add x y = (r, c)"
  shows "u256_nat r + 2 ^ 256 * of_bool c = u256_nat x + u256_nat y"
proof -
  obtain a0 a1 a2 a3 where x: "x = U256 a0 a1 a2 a3" by (cases x)
  obtain b0 b1 b2 b3 where y: "y = U256 b0 b1 b2 b3" by (cases y)
  obtain r0 c0 where 0: "add_limb a0 b0 0 = (r0, c0)" by fastforce
  obtain r1 c1 where 1: "add_limb a1 b1 c0 = (r1, c1)" by fastforce
  obtain r2 c2 where 2: "add_limb a2 b2 c1 = (r2, c2)" by fastforce
  obtain r3 c3 where 3: "add_limb a3 b3 c2 = (r3, c3)" by fastforce
  have r: "r = U256 r0 r1 r2 r3" and c: "c = (c3 \<noteq> 0)" using assms by (simp_all add: x y 0 1 2 3)
  note v0 = add_limb_val [OF 0 unat_zero_le] note v1 = add_limb_val [OF 1 v0(2)]
  note v2 = add_limb_val [OF 2 v1(2)] note v3 = add_limb_val [OF 3 v2(2)]
  have "unat c3 = of_bool c" using v3(2) unfolding c by (cases "unat c3") (auto simp: unat_eq_0)
  then show ?thesis using v0(1) v1(1) v2(1) v3(1) unfolding r x y u256_nat.simps by (simp add: algebra_simps)
qed

lemma overflowing_sub_val:
  assumes "U256_overflowing_sub x y = (r, c)"
  shows "u256_nat r + u256_nat y = u256_nat x + 2 ^ 256 * of_bool c"
proof -
  obtain a0 a1 a2 a3 where x: "x = U256 a0 a1 a2 a3" by (cases x)
  obtain b0 b1 b2 b3 where y: "y = U256 b0 b1 b2 b3" by (cases y)
  obtain r0 c0 where 0: "sub_limb a0 b0 0 = (r0, c0)" by fastforce
  obtain r1 c1 where 1: "sub_limb a1 b1 c0 = (r1, c1)" by fastforce
  obtain r2 c2 where 2: "sub_limb a2 b2 c1 = (r2, c2)" by fastforce
  obtain r3 c3 where 3: "sub_limb a3 b3 c2 = (r3, c3)" by fastforce
  have r: "r = U256 r0 r1 r2 r3" and c: "c = (c3 \<noteq> 0)" using assms by (simp_all add: x y 0 1 2 3)
  note v0 = sub_limb_val [OF 0 unat_zero_le] note v1 = sub_limb_val [OF 1 v0(2)]
  note v2 = sub_limb_val [OF 2 v1(2)] note v3 = sub_limb_val [OF 3 v2(2)]
  have "unat c3 = of_bool c" using v3(2) unfolding c by (cases "unat c3") (auto simp: unat_eq_0)
  then show ?thesis using v0(1) v1(1) v2(1) v3(1) unfolding r x y u256_nat.simps by (simp add: algebra_simps)
qed

lemma u256_add_laws:
  "u256_nat (U256_saturating_add x y) = min (u256_nat x + u256_nat y) (2 ^ 256 - 1)"
  "U256_checked_add x y = None \<longleftrightarrow> 2 ^ 256 \<le> u256_nat x + u256_nat y"
  "U256_checked_add x y = Some r \<Longrightarrow> u256_nat r = u256_nat x + u256_nat y"
proof -
  obtain r c where e: "U256_overflowing_add x y = (r, c)" by fastforce
  note v = overflowing_add_val [OF e] u256_nat_less [of r]
  show "u256_nat (U256_saturating_add x y) = min (u256_nat x + u256_nat y) (2 ^ 256 - 1)"
    using v by (cases c) (auto simp: U256_saturating_add_def e)
  show "U256_checked_add x y = None \<longleftrightarrow> 2 ^ 256 \<le> u256_nat x + u256_nat y"
    using v by (cases c) (auto simp: U256_checked_add_def e)
  show "U256_checked_add x y = Some r' \<Longrightarrow> u256_nat r' = u256_nat x + u256_nat y" for r'
    using v by (cases c) (auto simp: U256_checked_add_def e)
qed

lemma u256_sub_laws:
  "u256_nat (U256_saturating_sub x y) = u256_nat x - u256_nat y"
  "U256_checked_sub x y = None \<longleftrightarrow> u256_nat x < u256_nat y"
  "U256_checked_sub x y = Some r \<Longrightarrow> u256_nat r = u256_nat x - u256_nat y"
proof -
  obtain r c where e: "U256_overflowing_sub x y = (r, c)" by fastforce
  note v = overflowing_sub_val [OF e] u256_nat_less [of r]
  show "u256_nat (U256_saturating_sub x y) = u256_nat x - u256_nat y"
    using v by (cases c) (auto simp: U256_saturating_sub_def e)
  show "U256_checked_sub x y = None \<longleftrightarrow> u256_nat x < u256_nat y"
    using v by (cases c) (auto simp: U256_checked_sub_def e)
  show "U256_checked_sub x y = Some r' \<Longrightarrow> u256_nat r' = u256_nat x - u256_nat y" for r'
    using v by (cases c) (auto simp: U256_checked_sub_def e)
qed

lemma from_u64_val [simp]: "u256_nat (U256_from_u64 v) = unat v"
  by (simp add: U256_from_u64_def)

lemma from_u128_val [simp]: "u256_nat (U256_from_u128 v) = unat v"
proof -
  have "unat v div 2 ^ 64 < 2 ^ 64" using unat_u128_less [of v] by (simp add: div_less_iff_less_mult)
  then have "unat (ucast (drop_bit 64 v) :: u64) = unat v div 2 ^ 64"
    by (simp add: unsigned_ucast_eq drop_bit_eq_div take_bit_eq_mod unat_div)
  moreover have "unat (ucast v :: u64) = unat v mod 2 ^ 64" by (simp add: unsigned_ucast_eq take_bit_eq_mod)
  ultimately show ?thesis by (simp add: U256_from_u128_def mod_mult_div_eq add.commute)
qed

text \<open>Two limbs in a u128: \<^verbatim>\<open>(hi << 64) | lo\<close> is the number with these limbs, and shifting and masking take it apart.\<close>

lemma join_limbs_val:
  fixes hi lo :: u128
  assumes "unat lo < 2 ^ 64" "unat hi < 2 ^ 64"
  shows "unat (or (push_bit 64 hi) lo) = 2 ^ 64 * unat hi + unat lo"
proof -
  have l: "take_bit 64 lo = lo"
    using assms(1) by (simp add: word_unat_eq_iff take_bit_eq_mod unat_mod)
  have "n < 64" if "bit lo n" for n
    using that bit_take_bit_iff [of 64 lo n] unfolding l by blast
  then have "and (push_bit 64 hi) lo = 0" by (intro bit_word_eqI) (force simp: bit_and_iff bit_push_bit_iff)
  then have "or (push_bit 64 hi) lo = push_bit 64 hi + lo" by (simp add: disjunctive_add_eq_or)
  moreover have "unat (push_bit 64 hi) = 2 ^ 64 * unat hi"
    using assms(2) by (simp add: push_bit_eq_mult unat_word_ariths(2))
  ultimately show ?thesis using assms by (simp add: unat_word_ariths(1))
qed

lemma high_limb_val [simp]: "unat (drop_bit 64 v :: u128) = unat v div 2 ^ 64"
  by (simp add: drop_bit_eq_div unat_div)

lemma low_limb_val [simp]: "unat (and v (push_bit 64 1 - 1) :: u128) = unat v mod 2 ^ 64"
proof -
  have "and v (push_bit 64 1 - 1) = take_bit 64 v" by (simp add: take_bit_eq_mask mask_eq_exp_minus_1)
  then show ?thesis by (simp add: take_bit_eq_mod unat_mod)
qed

lemma low_limb_numeral [simp]: "unat (and v 18446744073709551615 :: u128) = unat v mod 2 ^ 64"
  using low_limb_val [of v] by simp

lemma as_u128_val [simp]: "unat (U256_as_u128_lossy x) = u256_nat x mod 2 ^ 128"
proof (cases x)
  case (U256 a b c d)
  have u: "unat (ucast a :: u128) = unat a" "unat (ucast b :: u128) = unat b"
    using unat_u64_less [of a] unat_u64_less [of b] by (simp_all add: unsigned_ucast_eq take_bit_eq_mod)
  then have "unat (U256_as_u128_lossy x) = unat a + 2 ^ 64 * unat b"
    using join_limbs_val [of "ucast a" "ucast b"] unat_u64_less [of a] unat_u64_less [of b]
    by (simp add: U256 or.commute)
  moreover have "u256_nat x = unat a + 2 ^ 64 * unat b + 2 ^ 128 * (unat c + 2 ^ 64 * unat d)"
    by (simp add: U256 algebra_simps)
  moreover have "unat a + 2 ^ 64 * unat b < 2 ^ 128" using unat_u64_less [of a] unat_u64_less [of b] by simp
  ultimately show ?thesis by (metis mod_less mod_mult_self2)
qed

text \<open>Multiplication keeps the low 128 bits of the product of the low halves and never reports an overflow.\<close>

lemma overflowing_mul_val:
  "u256_nat (fst (U256_overflowing_mul x y)) = u256_nat x * u256_nat y mod 2 ^ 128"
  "\<not> snd (U256_overflowing_mul x y)"
  by (simp_all add: U256_overflowing_mul_def unat_word_ariths(2) mod_mult_eq)

text \<open>On values of one limb the derived order is the order of the values.\<close>

lemma lt_val:
  assumes "u256_nat x < 2 ^ 64" "u256_nat y < 2 ^ 64"
  shows "U256_lt x y \<longleftrightarrow> u256_nat x < u256_nat y"
proof -
  have *: "\<exists>a. z = U256 a 0 0 0" if "u256_nat z < 2 ^ 64" for z
  proof (cases z)
    case (U256 a b c d)
    then have "unat a + 2 ^ 64 * (unat b + 2 ^ 64 * (unat c + 2 ^ 64 * unat d)) < 2 ^ 64" using that by simp
    then have "unat b = 0 \<and> unat c = 0 \<and> unat d = 0" by simp
    then show ?thesis by (simp add: U256 unat_eq_0)
  qed
  from * [OF assms(1)] * [OF assms(2)] show ?thesis by (auto simp: word_less_nat_alt)
qed

lemma be_bytes_roundtrip:
  "U256_from_be_bytes (U256_to_be_bytes x) = x" "be_val (U256_to_be_bytes x) = u256_nat x"
proof -
  obtain a b c d where U256: "x = U256 a b c d" by (cases x)
  have r: "u64_from_be_bytes (u64_be_bytes v) = v" for v
    using unat_u64_less [of v] by (simp add: u64_from_be_bytes_def u64_be_bytes_def be_val_be_bytes)
  have l: "length (u64_be_bytes v) = 8" for v by (simp add: u64_be_bytes_def)
  have v: "be_val (u64_be_bytes v) = unat v" for v
    using unat_u64_less [of v] by (simp add: u64_be_bytes_def be_val_be_bytes)
  show "U256_from_be_bytes (U256_to_be_bytes x) = x" by (simp add: U256 U256_from_be_bytes_def l r)
  show "be_val (U256_to_be_bytes x) = u256_nat x" by (simp add: U256 be_val_append l v algebra_simps)
qed

end
