(* ===== verification/Fees.thy ===== *)
theory Fees
  imports Uint
begin

text \<open>
  The fee market of zbx-fee: the EIP-1559 base fee of \<^verbatim>\<open>base_fee.rs\<close>, the tip estimator of
  \<^verbatim>\<open>priority_fee.rs\<close>, the gas price oracle of \<^verbatim>\<open>gas_price.rs\<close> and the sliding window of
  \<^verbatim>\<open>fee_history.rs\<close>.  Fees are 64-bit words; the products of the adjustment are taken in 128 bits
  as the code does, with the saturation and the truncating cast back written out.
\<close>

section \<open>Base fee\<close>

datatype fee_error =
    BaseFeeOverflow
  | GasLimitExceeded u64 u64
  | FeeHistoryRangeTooLarge u64 u64
  | InsufficientTip u64 u64
  | MaxFeeBelowBaseFee u64 u64

definition BASE_FEE_CHANGE_DENOMINATOR :: u64 where "BASE_FEE_CHANGE_DENOMINATOR = 8"
definition ELASTICITY_MULTIPLIER :: u64 where "ELASTICITY_MULTIPLIER = 2"
definition MIN_BASE_FEE :: u64 where "MIN_BASE_FEE = 7"

text \<open>The change of the fee for a block \<open>gas_delta\<close> away from the target; a zero target is a division by zero.\<close>

definition fee_delta128 :: "u64 \<Rightarrow> u64 \<Rightarrow> u64 \<Rightarrow> (fee_error, u128) res" where
  "fee_delta128 parent_base_fee gas_delta gas_target =
     (if gas_target = 0 then Inl Panic
      else Inr (sat_mul128 (ucast parent_base_fee) (ucast gas_delta) div ucast gas_target div ucast BASE_FEE_CHANGE_DENOMINATOR))"

definition next_base_fee :: "u64 \<Rightarrow> u64 \<Rightarrow> u64 \<Rightarrow> (fee_error, u64) res" where
  "next_base_fee parent_base_fee parent_gas_used parent_gas_limit =
     (let gas_target = parent_gas_limit div ELASTICITY_MULTIPLIER in
      rbind
        (if parent_gas_used = gas_target then Inr parent_base_fee
         else if gas_target < parent_gas_used then
           rbind (fee_delta128 parent_base_fee (parent_gas_used - gas_target) gas_target)
             (\<lambda>d. ok_or BaseFeeOverflow (checked_add64 parent_base_fee (ucast (max d 1))))
         else
           rbind (fee_delta128 parent_base_fee (gas_target - parent_gas_used) gas_target)
             (\<lambda>d. Inr (sat_sub64 parent_base_fee (ucast d))))
        (\<lambda>fee. Inr (max fee MIN_BASE_FEE)))"

definition effective_gas_price :: "u64 \<Rightarrow> u64 \<Rightarrow> u64 \<Rightarrow> (fee_error, u64) res" where
  "effective_gas_price base_fee max_fee_per_gas max_priority_fee_per_gas =
     (if max_fee_per_gas < base_fee then Inl (Err (MaxFeeBelowBaseFee max_fee_per_gas base_fee))
      else let tip = min max_priority_fee_per_gas (max_fee_per_gas - base_fee) in Inr (base_fee + tip))"

definition miner_tip :: "u64 \<Rightarrow> u64 \<Rightarrow> u64 \<Rightarrow> u64" where
  "miner_tip base_fee max_fee_per_gas max_priority_fee_per_gas =
     min max_priority_fee_per_gas (sat_sub64 max_fee_per_gas base_fee)"

section \<open>Priority fees\<close>

record priority_fee_estimator =
  pe_samples :: "u64 list list"
  pe_capacity :: nat

record fee_estimate =
  fe_low :: u64
  fe_medium :: u64
  fe_high :: u64
  fe_urgent :: u64

definition estimator_new :: "nat \<Rightarrow> priority_fee_estimator" where
  "estimator_new history_blocks = \<lparr>pe_samples = [], pe_capacity = max history_blocks 1\<rparr>"

definition record_block :: "priority_fee_estimator \<Rightarrow> u64 list \<Rightarrow> priority_fee_estimator" where
  "record_block p tips =
     p\<lparr>pe_samples := (if pe_capacity p \<le> length (pe_samples p) then drop 1 (pe_samples p) else pe_samples p) @ [tips]\<rparr>"

definition percentile :: "u64 list \<Rightarrow> nat \<Rightarrow> (fee_error, u64) res" where
  "percentile xs p = (if xs = [] then Inr 0 else index_chk xs ((length xs - 1) * p div 100))"

definition estimate :: "priority_fee_estimator \<Rightarrow> (fee_error, fee_estimate) res" where
  "estimate p = (let all = concat (pe_samples p) in
     if all = [] then Inr \<lparr>fe_low = 1000000000, fe_medium = 1500000000, fe_high = 2000000000, fe_urgent = 3000000000\<rparr>
     else let all = sort all in
       rbind (percentile all 25) (\<lambda>l. rbind (percentile all 50) (\<lambda>m. rbind (percentile all 75) (\<lambda>h.
       rbind (percentile all 95) (\<lambda>u. Inr \<lparr>fe_low = l, fe_medium = m, fe_high = h, fe_urgent = u\<rparr>)))))"

section \<open>Gas price oracle and fee history\<close>

record gas_price_oracle =
  go_tip_estimator :: priority_fee_estimator
  go_last_base_fee :: u64

definition oracle_new :: "nat \<Rightarrow> gas_price_oracle" where
  "oracle_new history_blocks = \<lparr>go_tip_estimator = estimator_new history_blocks, go_last_base_fee = 1000000000\<rparr>"

definition oracle_update :: "gas_price_oracle \<Rightarrow> u64 \<Rightarrow> u64 list \<Rightarrow> gas_price_oracle" where
  "oracle_update g base_fee tips = g\<lparr>go_last_base_fee := base_fee, go_tip_estimator := record_block (go_tip_estimator g) tips\<rparr>"

definition oracle_gas_price :: "gas_price_oracle \<Rightarrow> (fee_error, u64) res" where
  "oracle_gas_price g = rbind (estimate (go_tip_estimator g)) (\<lambda>e. Inr (sat_add64 (go_last_base_fee g) (fe_medium e)))"

definition oracle_fast_gas_price :: "gas_price_oracle \<Rightarrow> (fee_error, u64) res" where
  "oracle_fast_gas_price g = rbind (estimate (go_tip_estimator g)) (\<lambda>e. Inr (sat_add64 (go_last_base_fee g) (fe_high e)))"

text \<open>The ratio of gas used is a floating point number in the code; the window only stores it.\<close>

record 'f fee_history_entry =
  he_base_fee_per_gas :: u64
  he_gas_used_ratio :: 'f
  he_rewards :: "u64 list"

record 'f fee_history =
  fh_entries :: "'f fee_history_entry list"
  fh_capacity :: nat

definition history_new :: "nat \<Rightarrow> 'f fee_history" where
  "history_new window = \<lparr>fh_entries = [], fh_capacity = max window 1\<rparr>"

definition history_push :: "'f fee_history \<Rightarrow> 'f fee_history_entry \<Rightarrow> 'f fee_history" where
  "history_push h e =
     h\<lparr>fh_entries := (if fh_capacity h \<le> length (fh_entries h) then drop 1 (fh_entries h) else fh_entries h) @ [e]\<rparr>"

definition history_last_n :: "'f fee_history \<Rightarrow> nat \<Rightarrow> 'f fee_history_entry list" where
  "history_last_n h count = drop (length (fh_entries h) - count) (fh_entries h)"

section \<open>Properties\<close>

text \<open>The price of a transaction is the base fee plus the tip, capped by the fee it allows; the addition does not overflow.\<close>

lemma effective_gas_price_val:
  assumes "base_fee \<le> max_fee"
  shows "\<exists>p. effective_gas_price base_fee max_fee prio = Inr p \<and> p = base_fee + miner_tip base_fee max_fee prio \<and>
    unat p = min (unat max_fee) (unat base_fee + unat prio)"
proof -
  have s: "sat_sub64 max_fee base_fee = max_fee - base_fee" using assms by (simp add: sat_sub64_def)
  have m: "unat (min prio (max_fee - base_fee)) = min (unat prio) (unat max_fee - unat base_fee)"
    using assms by (simp add: unat_min unat_sub)
  have "unat base_fee \<le> unat max_fee" using assms by (simp add: word_le_nat_alt)
  then have "unat (base_fee + min prio (max_fee - base_fee)) = min (unat max_fee) (unat base_fee + unat prio)"
    using m unat_u64_less [of max_fee] by (auto simp: unat_word_ariths(1) min_def)
  then show ?thesis using assms by (simp add: effective_gas_price_def miner_tip_def s not_less Let_def)
qed

text \<open>The estimator always answers, its four tips are ordered, and each is one of the recorded tips when there is any.\<close>

lemma percentile_mono:
  assumes "sorted xs" "xs \<noteq> []" "p \<le> q" "q \<le> 100"
  shows "\<exists>x y. percentile xs p = Inr x \<and> percentile xs q = Inr y \<and> x \<le> y \<and> x \<in> set xs"
proof -
  have b: "(length xs - 1) * r div 100 < length xs" if "r \<le> 100" for r
  proof -
    have "(length xs - 1) * r div 100 \<le> (length xs - 1) * 100 div 100" using that by (intro div_le_mono mult_le_mono2)
    then show ?thesis using assms(2) by (cases xs) auto
  qed
  have "(length xs - 1) * p div 100 \<le> (length xs - 1) * q div 100" using assms(3) by (intro div_le_mono mult_le_mono2)
  with b [of p] b [of q] assms show ?thesis by (auto simp: percentile_def index_chk_def sorted_iff_nth_mono)
qed

lemma estimate_ordered:
  "\<exists>e. estimate p = Inr e \<and> fe_low e \<le> fe_medium e \<and> fe_medium e \<le> fe_high e \<and> fe_high e \<le> fe_urgent e \<and>
     (concat (pe_samples p) \<noteq> [] \<longrightarrow> {fe_low e, fe_medium e, fe_high e} \<subseteq> set (concat (pe_samples p)))"
proof (cases "concat (pe_samples p) = []")
  case True
  then show ?thesis by (simp add: estimate_def Let_def)
next
  case False
  let ?s = "sort (concat (pe_samples p))"
  have s: "sorted ?s" by simp
  have "set ?s \<noteq> {}" using False by simp
  then have n: "?s \<noteq> []" by (metis set_empty)
  from percentile_mono [OF s n, of 25 50] percentile_mono [OF s n, of 50 75] percentile_mono [OF s n, of 75 95]
  show ?thesis using False by (auto simp: estimate_def Let_def)
qed

lemma fee_delta_val:
  assumes "t \<noteq> 0"
  shows "\<exists>x. fee_delta128 b d t = Inr x \<and> unat x = unat b * unat d div unat t div 8"
proof -
  have "unat b * unat d < 2 ^ 128" using unat_u128_less [of "ucast b * ucast d"] by (simp only: unat_mul_u64)
  then have "unat (sat_mul128 (ucast b) (ucast d)) = unat b * unat d" by (simp add: sat_mul128_def unat_mul_u64)
  then show ?thesis using assms by (simp add: fee_delta128_def unat_div BASE_FEE_CHANGE_DENOMINATOR_def)
qed

lemma delta_at_most_eighth:
  fixes b d t :: nat
  assumes "d \<le> t" shows "b * d div t div 8 \<le> b div 8"
proof (intro div_le_mono)
  show "b * d div t \<le> b"
    using assms by (cases "t = 0") (auto intro: order_trans [OF div_le_mono [OF mult_le_mono2]])
qed

lemma delta_full_block:
  fixes b u t :: nat
  assumes "0 < t" "u \<le> 2 * t + 1" shows "b * (u - t) div t div 8 \<le> (b + b div t) div 8"
proof (intro div_le_mono)
  have "b * (u - t) \<le> b * (t + 1)" using assms(2) by (intro mult_le_mono2) simp
  then have "b * (u - t) div t \<le> (b * t + b) div t" by (intro div_le_mono) simp
  then show "b * (u - t) div t \<le> b + b div t" using assms(1) by simp
qed

text \<open>The three branches of the adjustment, with the target \<open>t\<close>.\<close>

lemma next_base_fee_target:
  "limit div ELASTICITY_MULTIPLIER = used \<Longrightarrow> next_base_fee fee used limit = Inr (max fee MIN_BASE_FEE)"
  by (simp add: next_base_fee_def Let_def)

lemma next_base_fee_above:
  fixes fee used limit :: u64
  defines "t \<equiv> limit div ELASTICITY_MULTIPLIER"
  defines "r \<equiv> max 1 (unat fee * (unat used - unat t) div unat t div 8) mod 2 ^ 64"
  assumes "t \<noteq> 0" "t < used"
  shows "if 2 ^ 64 \<le> unat fee + r then next_base_fee fee used limit = Inl (Err BaseFeeOverflow)
    else \<exists>f. next_base_fee fee used limit = Inr f \<and> unat f = max 7 (unat fee + r)"
proof -
  obtain x where x: "fee_delta128 fee (used - t) t = Inr x" "unat x = unat fee * (unat used - unat t) div unat t div 8"
    using fee_delta_val [OF assms(3), of fee "used - t"] assms(4) by (auto simp: unat_sub)
  have u: "unat (ucast (max x 1) :: u64) = r"
    using x(2) by (simp add: r_def unat_max max.commute unsigned_ucast_eq take_bit_eq_mod)
  have e: "next_base_fee fee used limit = rbind (ok_or BaseFeeOverflow (checked_add64 fee (ucast (max x 1)))) (\<lambda>f. Inr (max f MIN_BASE_FEE))"
    using assms(4) x(1) unfolding next_base_fee_def Let_def t_def [symmetric] by auto
  show ?thesis
  proof (cases "2 ^ 64 \<le> unat fee + r")
    case False
    then have "unat (fee + ucast (max x 1)) = unat fee + r" using u by (simp add: unat_word_ariths(1))
    then show ?thesis using False unfolding e checked_add64_def u by (simp add: unat_max MIN_BASE_FEE_def max.commute)
  qed (simp add: e checked_add64_def u)
qed

lemma next_base_fee_below:
  fixes fee used limit :: u64
  defines "t \<equiv> limit div ELASTICITY_MULTIPLIER" and "d \<equiv> unat fee * (unat (limit div ELASTICITY_MULTIPLIER) - unat used) div unat (limit div ELASTICITY_MULTIPLIER) div 8"
  assumes "used < t"
  shows "d \<le> unat fee div 8" "\<exists>f. next_base_fee fee used limit = Inr f \<and> unat f = max 7 (unat fee - d)"
proof -
  have "t \<noteq> 0" using assms(3) by auto
  then obtain x where x: "fee_delta128 fee (t - used) t = Inr x" "unat x = d"
    using fee_delta_val [of t fee "t - used"] assms(3) by (auto simp: d_def t_def unat_sub)
  show le: "d \<le> unat fee div 8" unfolding d_def t_def [symmetric] by (intro delta_at_most_eighth) simp
  then have u: "unat (ucast x :: u64) = d" using x(2) unat_u64_less [of fee] unat_ucast_down [of x] by simp
  have "next_base_fee fee used limit = Inr (max (sat_sub64 fee (ucast x)) MIN_BASE_FEE)"
    using assms(3) x(1) unfolding next_base_fee_def Let_def t_def [symmetric] by auto
  then show "\<exists>f. next_base_fee fee used limit = Inr f \<and> unat f = max 7 (unat fee - d)"
    using u by (simp add: unat_max MIN_BASE_FEE_def max.commute)
qed

lemma next_base_fee_zero_target:
  "limit div ELASTICITY_MULTIPLIER = 0 \<Longrightarrow> next_base_fee fee used limit = (if used = 0 then Inr (max fee MIN_BASE_FEE) else Inl Panic)"
  by (auto simp: next_base_fee_def fee_delta128_def word_gt_0)

lemma rise_bounds:
  fixes b u T :: nat
  defines "d \<equiv> b * (u - T) div T div 8"
  assumes "0 < T" "b < 2 ^ 64"
  shows "u \<le> 2 * T + 1 \<Longrightarrow> max 1 d mod 2 ^ 64 = max 1 d \<and> max 1 d \<le> max 1 ((b + b div T) div 8)"
    "u \<le> 2 * T \<Longrightarrow> max 1 d \<le> max 1 (b div 8)"
proof -
  show "max 1 d mod 2 ^ 64 = max 1 d \<and> max 1 d \<le> max 1 ((b + b div T) div 8)" if "u \<le> 2 * T + 1"
  proof -
    have d: "d \<le> (b + b div T) div 8" unfolding d_def by (rule delta_full_block [OF assms(2) that])
    have "b div T \<le> b" by simp
    then have "d < 2 ^ 64" using d assms(3) by linarith
    then show ?thesis using d by (simp add: max_def)
  qed
  show "max 1 d \<le> max 1 (b div 8)" if "u \<le> 2 * T"
  proof -
    have "u - T \<le> T" using that by linarith
    then have "d \<le> b div 8" unfolding d_def by (rule delta_at_most_eighth)
    then show ?thesis by (rule max.mono [OF order_refl])
  qed
qed

text \<open>C33. The base fee follows EIP-1559.  With half the gas limit as target, a block at or below it lowers the
  fee by the fee times the relative slack over eight; a block above it raises the fee by the
  fee times the relative excess over eight, at least one wei, where the rise is cut to 64 bits; the
  result is never below the floor of 7, and the only error is an overflow of the sum.  The fee falls by at most an
  eighth.  For a block within its gas limit nothing is cut and the rise is at most one wei or
  \<open>(fee + fee div target) div 8\<close>, and for a block up to twice its target one wei or an eighth of the fee; a full
  block with an odd limit exceeds the documented 12.5 percent, as for a limit of 29999999.  With a gas limit below 2
  an empty block keeps the fee and every other block is a division by zero.\<close>

theorem base_fee_adjustment:
  "let T = unat limit div 2; b = unat fee; u = unat used; rise = max 1 (b * (u - T) div T div 8) mod 2 ^ 64 in
   (T = 0 \<longrightarrow> next_base_fee fee used limit = (if used = 0 then Inr (max fee MIN_BASE_FEE) else Inl Panic)) \<and>
   (0 < T \<and> u \<le> T \<longrightarrow> (\<exists>f. next_base_fee fee used limit = Inr f \<and> unat f = max 7 (b - b * (T - u) div T div 8) \<and> b - b div 8 \<le> unat f)) \<and>
   (0 < T \<and> T < u \<longrightarrow>
      (if 2 ^ 64 \<le> b + rise then next_base_fee fee used limit = Inl (Err BaseFeeOverflow)
       else \<exists>f. next_base_fee fee used limit = Inr f \<and> unat f = max 7 (b + rise)) \<and>
      (u \<le> unat limit \<longrightarrow> rise = max 1 (b * (u - T) div T div 8) \<and> rise \<le> max 1 ((b + b div T) div 8)) \<and>
      (u \<le> 2 * T \<longrightarrow> rise \<le> max 1 (b div 8))) \<and>
   next_base_fee 1000000000 29999999 29999999 = Inr 1125000008"
proof -
  define t where "t = limit div ELASTICITY_MULTIPLIER"
  have t: "unat limit div 2 = unat t" by (simp add: t_def ELASTICITY_MULTIPLIER_def unat_div)
  have l: "unat limit \<le> 2 * unat t + 1" unfolding t [symmetric] by linarith
  have z: "unat t = 0 \<longleftrightarrow> t = 0" by (rule unat_eq_0)
  have b: "unat fee < 2 ^ 64" by (rule unat_u64_less)
  have low: "\<exists>f. next_base_fee fee used limit = Inr f \<and> unat f = max 7 (unat fee - unat fee * (unat t - unat used) div unat t div 8) \<and>
      unat fee - unat fee div 8 \<le> unat f" if "unat used \<le> unat t"
  proof (cases "used = t")
    case True
    then have "next_base_fee fee used limit = Inr (max fee MIN_BASE_FEE)" by (intro next_base_fee_target) (simp add: t_def)
    then show ?thesis using True by (simp add: unat_max MIN_BASE_FEE_def max.commute)
  next
    case False
    then have "used < t" using that by (simp add: word_less_nat_alt word_unat_eq_iff)
    note n = next_base_fee_below [of used limit fee, folded t_def, OF this]
    from n(2) obtain f where f: "next_base_fee fee used limit = Inr f"
      "unat f = max 7 (unat fee - unat fee * (unat t - unat used) div unat t div 8)" by blast
    have "unat fee - unat fee div 8 \<le> unat f" unfolding f(2) by (intro max.coboundedI2 diff_le_mono2 n(1))
    with f show ?thesis by blast
  qed
  have ex: "next_base_fee 1000000000 29999999 29999999 = Inr 1125000008"
    by (simp add: next_base_fee_def fee_delta128_def sat_mul128_def checked_add64_def Let_def max_def word_le_nat_alt
        ELASTICITY_MULTIPLIER_def BASE_FEE_CHANGE_DENOMINATOR_def MIN_BASE_FEE_def)
  have high: "u \<le> unat limit \<Longrightarrow> max 1 (unat fee * (u - unat t) div unat t div 8) mod 2 ^ 64 = max 1 (unat fee * (u - unat t) div unat t div 8) \<and>
        max 1 (unat fee * (u - unat t) div unat t div 8) mod 2 ^ 64 \<le> max 1 ((unat fee + unat fee div unat t) div 8)"
      "u \<le> 2 * unat t \<Longrightarrow> max 1 (unat fee * (u - unat t) div unat t div 8) mod 2 ^ 64 \<le> max 1 (unat fee div 8)"
    if "0 < unat t" for u
    using rise_bounds [OF that b, of u] l by (auto simp only: le_trans [OF _ l] intro: order_trans [OF mod_less_eq_dividend])
  have "next_base_fee fee used limit = (if used = 0 then Inr (max fee MIN_BASE_FEE) else Inl Panic)" if "unat t = 0"
    using next_base_fee_zero_target [of limit fee used, folded t_def] that by (simp add: z)
  moreover note low ex
  moreover have "if 2 ^ 64 \<le> unat fee + max 1 (unat fee * (unat used - unat t) div unat t div 8) mod 2 ^ 64
      then next_base_fee fee used limit = Inl (Err BaseFeeOverflow)
      else \<exists>f. next_base_fee fee used limit = Inr f \<and> unat f = max 7 (unat fee + max 1 (unat fee * (unat used - unat t) div unat t div 8) mod 2 ^ 64)"
    if "0 < unat t" "unat t < unat used"
  proof (rule next_base_fee_above [of limit used fee, folded t_def])
    show "t \<noteq> 0" "t < used" using that by (auto simp: word_less_nat_alt)
  qed
  ultimately show ?thesis unfolding Let_def t using high by blast
qed

theorem base_fee_adjustment_witness:
  "next_base_fee 1000 1 1 = Inl Panic \<and> (\<exists>f. next_base_fee 1000000000 30000000 30000000 = Inr f \<and> unat f = 1125000000)"
proof
  show "next_base_fee 1000 1 1 = Inl Panic" using base_fee_adjustment [of 1 1000 1] by (simp add: Let_def)
  show "\<exists>f. next_base_fee 1000000000 30000000 30000000 = Inr f \<and> unat f = 1125000000"
    using base_fee_adjustment [of 30000000 1000000000 30000000] by (simp add: Let_def)
qed

end
