(* ===== verification/Rewards.thy ===== *)
theory Rewards
  imports Fees
begin

text \<open>
  Block rewards and the distribution of fees: the crate zbx-rewards (\<^verbatim>\<open>block_reward.rs\<close>,
  \<^verbatim>\<open>fee_distribution.rs\<close>, the integer part of \<^verbatim>\<open>halving.rs\<close>) and the subsidy schedule
  \<^verbatim>\<open>block_reward_at\<close> of zbx-types, which the staking module pays by.
\<close>

section \<open>The split of a block reward\<close>

definition INITIAL_REWARD :: u128 where "INITIAL_REWARD = 3000000000000000000"
definition HALVING_INTERVAL :: u64 where "HALVING_INTERVAL = 25000000"
definition VALIDATOR_BPS :: u64 where "VALIDATOR_BPS = 8000"
definition STAKER_BPS :: u64 where "STAKER_BPS = 1500"
definition MAX_REWARD_PER_BLOCK :: u128 where "MAX_REWARD_PER_BLOCK = push_bit 120 1"

record block_reward =
  br_block_number :: u64
  br_validator :: address
  br_total_reward :: U256
  br_validator_reward :: U256
  br_staker_reward :: U256
  br_foundation_reward :: U256
  br_fee_reward :: U256
  br_halving_epoch :: u32

datatype reward_error = RewardOverflow

definition base_reward_u128 :: "u64 \<Rightarrow> u128" where
  "base_reward_u128 block = (let halvings = block div HALVING_INTERVAL in
     if 64 \<le> halvings then 0 else drop_bit (unat halvings) INITIAL_REWARD)"

definition base_reward :: "u64 \<Rightarrow> U256" where
  "base_reward block = U256_from_u128 (base_reward_u128 block)"

text \<open>The 256-bit product of two u128 as a low and a high half, and the division of such a pair by 10000.\<close>

definition mul_u128_split :: "u128 \<Rightarrow> u128 \<Rightarrow> u128 \<times> u128" where
  "mul_u128_split a b =
     (let a_lo = ucast (ucast a :: u64); a_hi = drop_bit 64 a; b_lo = ucast (ucast b :: u64); b_hi = drop_bit 64 b;
          ll = a_lo * b_lo; lh = a_lo * b_hi; hl = a_hi * b_lo; hh = a_hi * b_hi;
          mid = drop_bit 64 ll + (and lh (push_bit 64 1 - 1)) + (and hl (push_bit 64 1 - 1));
          lo = or (and ll (push_bit 64 1 - 1)) (push_bit 64 mid);
          hi = hh + drop_bit 64 lh + drop_bit 64 hl + drop_bit 64 mid
      in (lo, hi))"

definition div_by_10000 :: "u128 \<Rightarrow> u128 \<Rightarrow> u128" where
  "div_by_10000 lo hi =
     (let r = hi mod 10000; lo_hi = drop_bit 64 lo; lo_lo = and lo (push_bit 64 1 - 1);
          n1 = or (push_bit 64 r) lo_hi; q1 = n1 div 10000; r = n1 mod 10000;
          n0 = or (push_bit 64 r) lo_lo; q0 = n0 div 10000
      in or (push_bit 64 q1) q0)"

definition bps :: "u128 \<Rightarrow> u64 \<Rightarrow> u128" where
  "bps v b = (let (lo, hi) = mul_u128_split v (ucast b) in div_by_10000 lo hi)"

definition compute_checked :: "u64 \<Rightarrow> address \<Rightarrow> u64 \<Rightarrow> u128 \<Rightarrow> (reward_error, block_reward) res" where
  "compute_checked block validator gas_used priority_fee =
     (let base = base_reward_u128 block in
      rbind (ok_or RewardOverflow (checked_mul128 (ucast gas_used) priority_fee)) (\<lambda>fee.
      rbind (ok_or RewardOverflow (checked_add128 base fee)) (\<lambda>total.
      if MAX_REWARD_PER_BLOCK < total then Inl (Err RewardOverflow)
      else let vr = bps total VALIDATOR_BPS; sr = bps total STAKER_BPS; fr = sat_sub128 (sat_sub128 total vr) sr in
        Inr \<lparr>br_block_number = block, br_validator = validator, br_total_reward = U256_from_u128 total,
          br_validator_reward = U256_from_u128 vr, br_staker_reward = U256_from_u128 sr,
          br_foundation_reward = U256_from_u128 fr, br_fee_reward = U256_from_u128 fee,
          br_halving_epoch = ucast (block div HALVING_INTERVAL)\<rparr>)))"

definition compute_reward :: "u64 \<Rightarrow> address \<Rightarrow> u64 \<Rightarrow> U256 \<Rightarrow> block_reward" where
  "compute_reward block validator gas_used priority_fee =
     (case compute_checked block validator gas_used (U256_as_u128_lossy priority_fee) of
        Inr r \<Rightarrow> r
      | Inl _ \<Rightarrow>
          \<lparr>br_block_number = block, br_validator = validator, br_total_reward = U256_from_u128 MAX_REWARD_PER_BLOCK,
           br_validator_reward = U256_from_u128 (bps MAX_REWARD_PER_BLOCK VALIDATOR_BPS),
           br_staker_reward = U256_from_u128 (bps MAX_REWARD_PER_BLOCK STAKER_BPS),
           br_foundation_reward = U256_from_u128 (sat_sub128 (sat_sub128 MAX_REWARD_PER_BLOCK (bps MAX_REWARD_PER_BLOCK VALIDATOR_BPS))
             (bps MAX_REWARD_PER_BLOCK STAKER_BPS)),
           br_fee_reward = U256_from_u128 (sat_sub128 MAX_REWARD_PER_BLOCK (base_reward_u128 block)),
           br_halving_epoch = ucast (block div HALVING_INTERVAL)\<rparr>)"

definition epoch_for_block :: "u64 \<Rightarrow> u32" where
  "epoch_for_block b = ucast (b div HALVING_INTERVAL)"

definition next_halving :: "u64 \<Rightarrow> u64" where
  "next_halving b = (b div HALVING_INTERVAL + 1) * HALVING_INTERVAL"

section \<open>The distribution of fees\<close>

record fee_distribution =
  fd_burned :: U256
  fd_validator_tip :: U256
  fd_total :: U256

datatype distribution_error = FeeOverflow

definition distribute_checked :: "u64 \<Rightarrow> U256 \<Rightarrow> U256 \<Rightarrow> U256 \<Rightarrow> (distribution_error, fee_distribution) res" where
  "distribute_checked gas_used base_fee max_priority_fee max_fee =
     (let gas = U256_from_u64 gas_used; (burned, ovf) = U256_overflowing_mul base_fee gas in
      if ovf then Inl (Err FeeOverflow)
      else
        let cap = U256_saturating_sub max_fee base_fee;
            prio = (if U256_lt max_priority_fee cap then max_priority_fee else cap);
            (tip, ovf) = U256_overflowing_mul prio gas in
        if ovf then Inl (Err FeeOverflow)
        else
          let (sum, ovf) = U256_overflowing_add burned tip in
          if ovf then Inl (Err FeeOverflow)
          else Inr \<lparr>fd_burned = burned, fd_validator_tip = tip, fd_total = sum\<rparr>)"

definition distribute :: "u64 \<Rightarrow> U256 \<Rightarrow> U256 \<Rightarrow> U256 \<Rightarrow> fee_distribution" where
  "distribute gas_used base_fee max_priority_fee max_fee =
     (case distribute_checked gas_used base_fee max_priority_fee max_fee of
        Inr d \<Rightarrow> d
      | Inl _ \<Rightarrow>
          let m = U256_from_u128 (- 1); gas = U256_from_u64 gas_used;
              cap = U256_saturating_sub max_fee base_fee;
              prio = (if U256_lt max_priority_fee cap then max_priority_fee else cap);
              (burned, ovf1) = U256_overflowing_mul base_fee gas; burned = (if ovf1 then m else burned);
              (tip, ovf2) = U256_overflowing_mul prio gas; tip = (if ovf2 then m else tip)
          in \<lparr>fd_burned = burned, fd_validator_tip = tip, fd_total = U256_saturating_add burned tip\<rparr>)"

section \<open>The subsidy of zbx-types\<close>

definition TOTAL_SUPPLY :: u128 where "TOTAL_SUPPLY = 150000000 * 10 ^ 18"
definition INITIAL_BLOCK_REWARD :: u128 where "INITIAL_BLOCK_REWARD = 2 * 10 ^ 18"
definition TYPES_HALVING_INTERVAL :: u64 where "TYPES_HALVING_INTERVAL = 63072000"

definition block_reward_at :: "u64 \<Rightarrow> u128" where
  "block_reward_at height = (let halvings = height div TYPES_HALVING_INTERVAL in
     if 64 \<le> halvings then 0 else drop_bit (unat halvings) INITIAL_BLOCK_REWARD)"

end
