(* ===== verification/Rewards_Props.thy ===== *)
theory Rewards_Props
  imports Rewards
begin

text \<open>
  What the reward and fee arithmetic computes: the long multiplication and division behind the
  basis-point shares are exact, the shares of a block add up to its total, the subsidy of
  the reward engine stays within the supply cap while the schedule of zbx-types does not, and the fee
  distribution is the EIP-1559 split on 64-bit fees but has no overflow check that can fire.
\<close>

section \<open>Long multiplication and division\<close>

lemma schoolbook_product:
  fixes al ah bl bh B :: nat
  defines "ll \<equiv> al * bl" and "lh \<equiv> al * bh" and "hl \<equiv> ah * bl" and "hh \<equiv> ah * bh"
  defines "mid \<equiv> al * bl div B + al * bh mod B + ah * bl mod B"
  shows "ll mod B + B * (mid mod B) + B * B * (hh + lh div B + hl div B + mid div B) = (al + B * ah) * (bl + B * bh)"
proof -
  have j: "B * (x mod B) + B * B * (x div B) = B * x" for x by (simp add: mult.assoc flip: distrib_left)
  have "ll mod B + B * (mid mod B) + B * B * (hh + lh div B + hl div B + mid div B) =
      ll mod B + (B * (mid mod B) + B * B * (mid div B)) + B * B * (hh + lh div B + hl div B)"
    by (simp add: algebra_simps)
  also have "\<dots> = (ll mod B + B * (ll div B)) + (B * (lh mod B) + B * B * (lh div B)) + (B * (hl mod B) + B * B * (hl div B)) + B * B * hh"
    unfolding j [of mid] by (simp add: mid_def ll_def lh_def hl_def algebra_simps)
  also have "\<dots> = ll + B * lh + B * hl + B * B * hh" unfolding j by simp
  finally show ?thesis by (simp add: ll_def lh_def hl_def hh_def algebra_simps)
qed

lemma unat_low64 [simp]: "unat (ucast (a :: u128) :: u64) = unat a mod 2 ^ 64"
  by (simp add: unsigned_ucast_eq take_bit_eq_mod)

lemma mul_limbs_val: "unat x < 2 ^ 64 \<Longrightarrow> unat y < 2 ^ 64 \<Longrightarrow> unat (x * y :: u128) = unat x * unat y"
  using mult_strict_mono [of "unat x" "2 ^ 64" "unat y" "2 ^ 64"] by (simp add: unat_word_ariths(2))

lemma shl64_val: "unat (push_bit 64 v :: u128) = 2 ^ 64 * (unat v mod 2 ^ 64)"
proof -
  have "unat (push_bit 64 v) = unat v * 2 ^ 64 mod (2 ^ 64 * 2 ^ 64)" by (simp add: push_bit_eq_mult unat_word_ariths(2))
  also have "\<dots> = unat v mod 2 ^ 64 * 2 ^ 64" by (rule mod_mult_mult2)
  finally show ?thesis by simp
qed

lemma join_low_shifted:
  fixes lo v :: u128
  assumes "unat lo < 2 ^ 64"
  shows "unat (or lo (push_bit 64 v)) = unat lo + 2 ^ 64 * (unat v mod 2 ^ 64)"
proof -
  have "push_bit 64 v = push_bit 64 (of_nat (unat v mod 2 ^ 64))"
    by (rule word_unat_eq_iff [THEN iffD2]) (simp add: shl64_val unat_of_nat)
  then show ?thesis
    using join_limbs_val [OF assms, of "of_nat (unat v mod 2 ^ 64)"] by (simp add: or.commute unat_of_nat)
qed

lemma mul_u128_split_val:
  assumes "mul_u128_split a b = (lo, hi)"
  shows "unat lo + 2 ^ 128 * unat hi = unat a * unat b"
proof -
  define B :: nat where "B = 2 ^ 64"
  define al ah bl bh where "al = unat a mod B" and "ah = unat a div B" and "bl = unat b mod B" and "bh = unat b div B"
  have l: "al < B" "ah < B" "bl < B" "bh < B"
    using unat_u128_less [of a] unat_u128_less [of b]
    by (simp_all add: al_def ah_def bl_def bh_def B_def div_less_iff_less_mult)
  define mid where "mid = al * bl div B + al * bh mod B + ah * bl mod B"
  define H where "H = ah * bh + al * bh div B + ah * bl div B + mid div B"
  have s: "al * bl mod B + B * (mid mod B) + B * B * H = unat a * unat b"
    using schoolbook_product [of al bl B bh ah] unfolding mid_def H_def al_def ah_def bl_def bh_def by simp
  define wl wh vl vh :: u128 where "wl = ucast (ucast a :: u64)" and "wh = drop_bit 64 a"
    and "vl = ucast (ucast b :: u64)" and "vh = drop_bit 64 b"
  have u: "unat wl = al" "unat wh = ah" "unat vl = bl" "unat vh = bh"
    by (simp_all add: wl_def wh_def vl_def vh_def al_def ah_def bl_def bh_def B_def)
  have p: "unat (wl * vl) = al * bl" "unat (wl * vh) = al * bh" "unat (wh * vl) = ah * bl" "unat (wh * vh) = ah * bh"
    using l by (simp_all add: mul_limbs_val u B_def)
  define m where "m = drop_bit 64 (wl * vl) + and (wl * vh) (push_bit 64 1 - 1) + and (wh * vl) (push_bit 64 1 - 1)"
  have q: "al * bl div B < B" using l(1,3) by (simp add: div_less_iff_less_mult mult_strict_mono')
  have "al * bh mod B < B" "ah * bl mod B < B" by (simp_all add: B_def)
  with q have "mid < 2 ^ 128" by (simp add: mid_def B_def)
  then have m: "unat m = mid" by (simp add: m_def unat_word_ariths(1) p mid_def B_def mod_simps)
  have lo: "lo = or (and (wl * vl) (push_bit 64 1 - 1)) (push_bit 64 m)"
    and hi: "hi = wh * vh + drop_bit 64 (wl * vh) + drop_bit 64 (wh * vl) + drop_bit 64 m"
    using assms unfolding mul_u128_split_def Let_def wl_def wh_def vl_def vh_def m_def by auto
  have "unat lo = al * bl mod B + B * (mid mod B)"
    unfolding lo by (subst join_low_shifted) (simp_all add: p m B_def)
  moreover have "unat hi = H"
  proof -
    have "B * B * H \<le> unat a * unat b" using s by linarith
    also have "\<dots> < 2 ^ 128 * 2 ^ 128" by (intro mult_strict_mono unat_u128_less) auto
    finally have "H < 2 ^ 128" by (simp add: B_def)
    then show ?thesis by (simp add: hi unat_word_ariths(1) p m H_def B_def mod_simps)
  qed
  ultimately show ?thesis using s by (simp add: B_def)
qed

lemma div_by_10000_val:
  assumes "unat hi < 10000"
  shows "unat (div_by_10000 lo hi) = (unat lo + 2 ^ 128 * unat hi) div 10000"
proof -
  define B :: nat where "B = 2 ^ 64"
  define x1 x0 where "x1 = unat lo div B" and "x0 = unat lo mod B"
  have x: "x1 < B" "x0 < B" "unat lo = x0 + B * x1"
    using unat_u128_less [of lo] by (simp_all add: x1_def x0_def B_def div_less_iff_less_mult)
  define n1 where "n1 = or (push_bit 64 (hi mod 10000)) (drop_bit 64 lo)"
  define n0 where "n0 = or (push_bit 64 (n1 mod 10000)) (and lo (push_bit 64 1 - 1))"
  have n1: "unat n1 = B * unat hi + x1"
    unfolding n1_def using x(1) assms by (subst join_limbs_val) (simp_all add: B_def x1_def unat_mod)
  have n0: "unat n0 = B * (unat n1 mod 10000) + x0"
    unfolding n0_def using x(2) by (subst join_limbs_val) (simp_all add: B_def x0_def unat_mod less_trans [OF mod_less_divisor])
  have q: "unat n1 div 10000 < B" "unat n0 div 10000 < B"
    using x(1,2) assms by (simp_all add: n1 n0 div_less_iff_less_mult B_def less_trans [OF add_strict_mono])
  have aux: "10000 * B * c + (B * r + x0) = B * (10000 * c + r) + x0" for c r by (simp add: algebra_simps)
  have "div_by_10000 lo hi = or (push_bit 64 (n1 div 10000)) (n0 div 10000)"
    by (simp add: div_by_10000_def Let_def n1_def n0_def)
  then have "unat (div_by_10000 lo hi) = B * (unat n1 div 10000) + unat n0 div 10000"
    using q by (simp add: join_limbs_val unat_div B_def)
  also have "\<dots> = (10000 * B * (unat n1 div 10000) + unat n0) div 10000"
    using div_mult_self4 [of "10000 :: nat" "B * (unat n1 div 10000)" "unat n0"] by (simp add: mult.assoc)
  also have "10000 * B * (unat n1 div 10000) + unat n0 = B * (10000 * (unat n1 div 10000) + unat n1 mod 10000) + x0"
    unfolding n0 by (rule aux)
  also have "\<dots> = unat lo + 2 ^ 128 * unat hi" unfolding n1 x(3) by (simp add: B_def algebra_simps)
  finally show ?thesis .
qed

lemma bps_val:
  assumes "unat b \<le> 10000"
  shows "unat (bps v b) = unat v * unat b div 10000"
proof -
  obtain lo hi where s: "mul_u128_split v (ucast b) = (lo, hi)" by fastforce
  note p = mul_u128_split_val [OF s]
  have "2 ^ 128 * unat hi \<le> unat v * unat b" using p by (simp flip: p)
  also have "\<dots> \<le> unat v * 10000" using assms by simp
  also have "\<dots> < 2 ^ 128 * 10000" using unat_u128_less [of v] by simp
  finally have "unat hi < 10000" by simp
  from div_by_10000_val [OF this, of lo] show ?thesis using p by (simp add: bps_def s)
qed

section \<open>Shares of a block\<close>

lemma unat_drop_bit_div: "unat (drop_bit n v :: u128) = unat v div 2 ^ n"
proof -
  have "unat (drop_bit n v) = drop_bit n (unat v)"
    unfolding unsigned_drop_bit_eq using unat_u128_less [of v] by (simp add: take_bit_eq_mod)
  then show ?thesis by (simp add: drop_bit_eq_div)
qed

text \<open>Sixty-four halvings leave nothing of either initial reward, so the cut-off agrees with the shift.\<close>

lemma halved_val:
  assumes "unat R < 2 ^ 64"
  shows "unat (if 64 \<le> (h :: u64) then 0 else drop_bit (unat h) R :: u128) = unat R div 2 ^ unat h"
proof (cases "64 \<le> h")
  case True
  then have "64 \<le> unat h" by (simp add: word_le_nat_alt)
  then have "(2 :: nat) ^ 64 \<le> 2 ^ unat h" by (intro power_increasing) simp_all
  then have "unat R div 2 ^ unat h = 0" using assms by simp
  then show ?thesis using True by simp
next
  case False
  then show ?thesis by (simp add: unat_drop_bit_div)
qed

lemma base_reward_val: "unat (base_reward_u128 block) = 3 * 10 ^ 18 div 2 ^ (unat block div 25000000)"
  unfolding base_reward_u128_def Let_def
  by (subst halved_val) (simp_all add: INITIAL_REWARD_def HALVING_INTERVAL_def unat_div)

lemma block_reward_at_val: "unat (block_reward_at h) = 2 * 10 ^ 18 div 2 ^ (unat h div 63072000)"
  unfolding block_reward_at_def Let_def
  by (subst halved_val) (simp_all add: INITIAL_BLOCK_REWARD_def TYPES_HALVING_INTERVAL_def unat_div)

text \<open>C34. The reward engine splits exactly: for a block whose subsidy (3 ZBX halved every 25 million
  blocks) plus gas times priority fee is within the bound of \<open>2 ^ 120\<close> wei, validator and stakers get
  their 80% and 15% rounded down, computed by 256-bit long multiplication and division, and the
  three shares add up to the total; a larger sum is an overflow error and nothing else is.\<close>

theorem block_reward_split:
  "let total = 3 * 10 ^ 18 div 2 ^ (unat block div 25000000) + unat gas * unat pfee in
   case compute_checked block validator gas pfee of
     Inl e \<Rightarrow> e = Err RewardOverflow \<and> 2 ^ 120 < total
   | Inr r \<Rightarrow> total \<le> 2 ^ 120 \<and> u256_nat (br_total_reward r) = total \<and> u256_nat (br_fee_reward r) = unat gas * unat pfee \<and>
       u256_nat (br_validator_reward r) = total * 8000 div 10000 \<and> u256_nat (br_staker_reward r) = total * 1500 div 10000 \<and>
       u256_nat (br_validator_reward r) + u256_nat (br_staker_reward r) + u256_nat (br_foundation_reward r) = total"
proof -
  define base where "base = base_reward_u128 block"
  have b: "3 * 10 ^ 18 div 2 ^ (unat block div 25000000) = unat base" by (simp add: base_def base_reward_val)
  have mx: "unat MAX_REWARD_PER_BLOCK = 2 ^ 120" by (simp add: MAX_REWARD_PER_BLOCK_def)
  show ?thesis
  proof (cases "unat base + unat gas * unat pfee \<le> 2 ^ 120")
    case False
    then show ?thesis unfolding b Let_def
      by (auto simp: compute_checked_def base_def [symmetric] checked_mul128_def checked_add128_def
          word_less_nat_alt mx unat_word_ariths)
  next
    case True
    define fee total where "fee = ucast gas * pfee" and "total = base + fee"
    have f: "unat fee = unat gas * unat pfee" using True by (simp add: fee_def unat_word_ariths(2))
    have t: "unat total = unat base + unat gas * unat pfee" using True f by (simp add: total_def unat_word_ariths(1))
    have v: "unat (bps total VALIDATOR_BPS) = unat total * 8000 div 10000" "unat (bps total STAKER_BPS) = unat total * 1500 div 10000"
      by (simp_all add: bps_val VALIDATOR_BPS_def STAKER_BPS_def)
    have "unat total * 8000 div 10000 + unat total * 1500 div 10000 \<le> unat total" by linarith
    then show ?thesis
      using True t f v unfolding b Let_def
      by (simp add: Let_def compute_checked_def base_def [symmetric] checked_mul128_def checked_add128_def
          fee_def [symmetric] total_def [symmetric] word_less_nat_alt mx not_less)
  qed
qed

section \<open>The subsidy and the supply\<close>

lemma sum_split_at: "(\<Sum>b<m + k. f b) = (\<Sum>b<m. f b) + (\<Sum>b = m..<m + k. f b :: nat)" for m k :: nat
  by (simp add: lessThan_atLeast0 sum.atLeastLessThan_concat)

lemma sum_of_halvings:
  fixes R H :: nat
  shows "(\<Sum>b<H * m. R div 2 ^ (b div H)) + 2 * H * (R div 2 ^ m) \<le> 2 * H * R"
proof (induction m)
  case (Suc m)
  have "(\<Sum>b<H * Suc m. R div 2 ^ (b div H)) =
      (\<Sum>b<H * m. R div 2 ^ (b div H)) + (\<Sum>b = H * m..<H * m + H. R div 2 ^ (b div H))"
    using sum_split_at [of _ "H * m" H] by (simp add: add.commute)
  also have "(\<Sum>b = H * m..<H * m + H. R div 2 ^ (b div H)) = (\<Sum>b = H * m..<H * m + H. R div 2 ^ m)"
    by (intro sum.cong) (auto simp: div_nat_eqI)
  also have "\<dots> = H * (R div 2 ^ m)" by simp
  finally have s: "(\<Sum>b<H * Suc m. R div 2 ^ (b div H)) = (\<Sum>b<H * m. R div 2 ^ (b div H)) + H * (R div 2 ^ m)" .
  have "R div 2 ^ Suc m = R div 2 ^ m div 2" unfolding power_Suc2 by (rule div_mult2_eq)
  then have "2 * (R div 2 ^ Suc m) \<le> R div 2 ^ m" by simp
  then have "H * (2 * (R div 2 ^ Suc m)) \<le> H * (R div 2 ^ m)" by (rule mult_le_mono2)
  moreover have "2 * H * (R div 2 ^ Suc m) = H * (2 * (R div 2 ^ Suc m))" by (simp only: mult_ac)
  moreover have "2 * H * (R div 2 ^ m) = H * (R div 2 ^ m) + H * (R div 2 ^ m)" by simp
  ultimately show ?case using Suc.IH s by linarith
qed simp

lemma subsidy_total:
  fixes R H :: nat
  assumes "0 < H" shows "(\<Sum>b<n. R div 2 ^ (b div H)) \<le> 2 * H * R"
proof -
  have "(\<Sum>b<n. R div 2 ^ (b div H)) \<le> (\<Sum>b<H * n. R div 2 ^ (b div H))" using assms by (intro sum_mono2) auto
  then show ?thesis using sum_of_halvings [of R H n] by linarith
qed

lemma first_epochs:
  fixes R H k :: nat
  assumes "k \<le> H" shows "(\<Sum>b<H + k. R div 2 ^ (b div H)) = H * R + k * (R div 2)"
proof -
  have "(\<Sum>b<H. R div 2 ^ (b div H)) = H * R" by simp
  moreover have "(\<Sum>b = H..<H + k. R div 2 ^ (b div H)) = (\<Sum>b = H..<H + k. R div 2)"
  proof (intro sum.cong refl)
    fix b assume "b \<in> {H..<H + k}"
    then have "b div H = 1" using assms by (intro div_nat_eqI) auto
    then show "R div 2 ^ (b div H) = R div 2" by simp
  qed
  ultimately show ?thesis by (simp add: sum_split_at)
qed

text \<open>C35. All the subsidy the reward engine of zbx-rewards can ever pay, over every block number, is within
  the supply cap of 150 million ZBX.  The schedule of zbx-types, by which the staking module pays, is
  not: after 87072000 blocks (five and a half years of two-second blocks) it has paid 150144000 ZBX.\<close>

theorem subsidy_against_supply:
  "(\<forall>n\<le>2 ^ 64. (\<Sum>b<n. unat (base_reward_u128 (of_nat b))) \<le> unat TOTAL_SUPPLY) \<and>
   (\<Sum>b<87072000. unat (block_reward_at (of_nat b))) = 150144000 * 10 ^ 18 \<and>
   unat TOTAL_SUPPLY < (\<Sum>b<87072000. unat (block_reward_at (of_nat b)))"
proof -
  have T: "unat TOTAL_SUPPLY = 150000000 * 10 ^ 18" by (simp add: TOTAL_SUPPLY_def)
  have u: "unat (of_nat b :: u64) = b" if "b < n" "n \<le> 2 ^ 64" for b n using that by (simp add: unat_of_nat)
  have "(\<Sum>b<n. unat (base_reward_u128 (of_nat b))) \<le> unat TOTAL_SUPPLY" if "n \<le> 2 ^ 64" for n
  proof -
    have "(\<Sum>b<n. unat (base_reward_u128 (of_nat b))) = (\<Sum>b<n. 3 * 10 ^ 18 div 2 ^ (b div 25000000))"
      by (intro sum.cong) (auto simp: base_reward_val u [OF _ that])
    also have "\<dots> \<le> 2 * 25000000 * (3 * 10 ^ 18)" by (rule subsidy_total) simp
    finally show ?thesis unfolding T by simp
  qed
  moreover have "(\<Sum>b<N. unat (block_reward_at (of_nat b))) = 150144000 * 10 ^ 18" if N: "N = 87072000" for N
  proof -
    have "(\<Sum>b<N. unat (block_reward_at (of_nat b))) = (\<Sum>b<63072000 + (N - 63072000). 2 * 10 ^ 18 div 2 ^ (b div 63072000))"
      by (intro sum.cong) (auto simp: block_reward_at_val u [of _ N] N)
    also have "\<dots> = 63072000 * (2 * 10 ^ 18) + (N - 63072000) * (2 * 10 ^ 18 div 2)" using N by (intro first_epochs) linarith
    finally show ?thesis by (simp add: N)
  qed
  ultimately show ?thesis unfolding T by (simp only: refl) simp
qed

theorem subsidy_against_supply_witness:
  "(\<Sum>b<2. unat (base_reward_u128 (of_nat b))) \<le> unat TOTAL_SUPPLY"
  by (rule subsidy_against_supply [THEN conjunct1, rule_format]) simp

section \<open>Fee distribution\<close>

lemma fee_distribution_laws:
  "\<exists>d. distribute_checked gas base prio maxfee = Inr d \<and> distribute gas base prio maxfee = d \<and>
     u256_nat (fd_burned d) = u256_nat base * unat gas mod 2 ^ 128 \<and>
     u256_nat (fd_validator_tip d) = (if U256_lt prio (U256_saturating_sub maxfee base) then u256_nat prio else u256_nat maxfee - u256_nat base) * unat gas mod 2 ^ 128 \<and>
     u256_nat (fd_total d) = u256_nat (fd_burned d) + u256_nat (fd_validator_tip d) \<and>
     (u256_nat base < 2 ^ 64 \<and> u256_nat prio < 2 ^ 64 \<and> u256_nat maxfee < 2 ^ 64 \<longrightarrow>
        u256_nat (fd_burned d) = u256_nat base * unat gas \<and>
        u256_nat (fd_validator_tip d) = min (u256_nat prio) (u256_nat maxfee - u256_nat base) * unat gas)"
proof -
  define burned where "burned = fst (U256_overflowing_mul base (U256_from_u64 gas))"
  define cap where "cap = U256_saturating_sub maxfee base"
  define p where "p = (if U256_lt prio cap then prio else cap)"
  define tip where "tip = fst (U256_overflowing_mul p (U256_from_u64 gas))"
  have v: "u256_nat burned = u256_nat base * unat gas mod 2 ^ 128" "u256_nat tip = u256_nat p * unat gas mod 2 ^ 128"
    by (simp_all add: burned_def tip_def overflowing_mul_val)
  obtain s c where sc: "U256_overflowing_add burned tip = (s, c)" by fastforce
  from overflowing_add_val [OF sc] have a: "u256_nat s + 2 ^ 256 * of_bool c = u256_nat burned + u256_nat tip" .
  have "u256_nat burned < 2 ^ 128" "u256_nat tip < 2 ^ 128" by (simp_all add: v)
  with a have c: "\<not> c" and s: "u256_nat s = u256_nat burned + u256_nat tip" by (auto simp: of_bool_def split: if_splits)
  have m: "U256_overflowing_mul base (U256_from_u64 gas) = (burned, False)" "U256_overflowing_mul p (U256_from_u64 gas) = (tip, False)"
    by (simp_all add: burned_def tip_def U256_overflowing_mul_def)
  have d: "distribute_checked gas base prio maxfee = Inr \<lparr>fd_burned = burned, fd_validator_tip = tip, fd_total = s\<rparr>"
    unfolding distribute_checked_def Let_def cap_def [symmetric] p_def [symmetric] m case_prod_conv sc using c by simp
  have exact: "u256_nat burned = u256_nat base * unat gas \<and> u256_nat tip = min (u256_nat prio) (u256_nat maxfee - u256_nat base) * unat gas"
    if l: "u256_nat base < 2 ^ 64" "u256_nat prio < 2 ^ 64" "u256_nat maxfee < 2 ^ 64"
  proof -
    have cv: "u256_nat cap = u256_nat maxfee - u256_nat base" by (simp add: cap_def u256_sub_laws)
    then have pv: "u256_nat p = min (u256_nat prio) (u256_nat cap)" using l by (simp add: p_def lt_val)
    have "x * unat gas < 2 ^ 128" if "x < 2 ^ 64" for x
      using mult_strict_mono [OF that unat_u64_less [of gas]] by simp
    then show ?thesis using l cv pv v by (simp add: min_def)
  qed
  have "u256_nat p = (if U256_lt prio (U256_saturating_sub maxfee base) then u256_nat prio else u256_nat maxfee - u256_nat base)"
    by (simp add: p_def cap_def u256_sub_laws)
  then show ?thesis using d exact v s by (simp add: distribute_def)
qed

text \<open>C36. The checked fee distribution never rejects anything: multiplication of the 256-bit integers keeps the low
  128 bits and reports no overflow, so the burned fee and the tip are products modulo \<open>2 ^ 128\<close> (the tip that
  of the priority fee or of what the fee limit leaves above the base fee, chosen by the derived order of the limbs) and
  their sum is exact.  When the three fees are below \<open>2 ^ 64\<close> the split is that of EIP-1559: the base fee
  burned, the tip capped by the fee limit, nothing lost; a base fee of \<open>2 ^ 127\<close> burns nothing for two gas.\<close>

theorem fee_distribution_split:
  "(\<exists>d. distribute_checked gas base prio maxfee = Inr d \<and> distribute gas base prio maxfee = d \<and>
     u256_nat (fd_burned d) = u256_nat base * unat gas mod 2 ^ 128 \<and>
     u256_nat (fd_validator_tip d) = (if U256_lt prio (U256_saturating_sub maxfee base) then u256_nat prio else u256_nat maxfee - u256_nat base) * unat gas mod 2 ^ 128 \<and>
     u256_nat (fd_total d) = u256_nat (fd_burned d) + u256_nat (fd_validator_tip d) \<and>
     (u256_nat base < 2 ^ 64 \<and> u256_nat prio < 2 ^ 64 \<and> u256_nat maxfee < 2 ^ 64 \<longrightarrow>
        u256_nat (fd_burned d) = u256_nat base * unat gas \<and>
        u256_nat (fd_validator_tip d) = min (u256_nat prio) (u256_nat maxfee - u256_nat base) * unat gas)) \<and>
   u256_nat (fd_burned (distribute 2 (U256 0 (push_bit 63 1) 0 0) U256_ZERO U256_MAX)) = 0"
proof
  let ?b = "U256 0 (push_bit 63 1) 0 0"
  have "u256_nat ?b * unat (2 :: u64) = 2 ^ 128" by simp
  then show "u256_nat (fd_burned (distribute 2 ?b U256_ZERO U256_MAX)) = 0"
    using fee_distribution_laws [of 2 ?b U256_ZERO U256_MAX] by (auto simp del: u256_nat.simps)
qed (rule fee_distribution_laws)

theorem fee_distribution_split_witness:
  "\<exists>d. distribute_checked 21000 (U256_from_u64 10) (U256_from_u64 2) (U256_from_u64 15) = Inr d \<and>
    u256_nat (fd_burned d) = 210000 \<and> u256_nat (fd_validator_tip d) = 42000"
  using fee_distribution_split [THEN conjunct1, of 21000 "U256_from_u64 10" "U256_from_u64 2" "U256_from_u64 15"] by auto

end
