(* ===== verification/Block.thy ===== *)
theory Block
  imports Fees
begin

text \<open>
  Block headers of zbx-types (\<^verbatim>\<open>block.rs\<close>): the canonical encoding that is hashed, the validation of a
  header against its parent and the base fee rule that validation applies.  Keccak-256 is
  the parameter \<open>K\<close>.
\<close>

section \<open>Headers and blocks\<close>

record block_header =
  bh_parent_hash :: bytes
  bh_uncle_hash :: bytes
  bh_coinbase :: address
  bh_state_root :: bytes
  bh_transactions_root :: bytes
  bh_receipts_root :: bytes
  bh_logs_bloom :: bytes
  bh_difficulty :: "256 word"
  bh_number :: u64
  bh_gas_limit :: u64
  bh_gas_used :: u64
  bh_timestamp :: u64
  bh_extra_data :: bytes
  bh_mix_hash :: bytes
  bh_nonce :: u64
  bh_base_fee_per_gas :: u64
  bh_committee_signature :: bytes
  bh_epoch :: u64
  bh_epoch_seed :: "bytes option"

record 'tx block =
  bl_header :: block_header
  bl_transactions :: "'tx list"
  bl_uncles :: "block_header list"

definition canonical_encode :: "block_header \<Rightarrow> bytes" where
  "canonical_encode h =
     bh_parent_hash h @ bh_uncle_hash h @ bh_coinbase h @ bh_state_root h @ bh_transactions_root h @ bh_receipts_root h @
     bh_logs_bloom h @ be_bytes 32 (unat (bh_difficulty h)) @
     u64_be_bytes (bh_number h) @ u64_be_bytes (bh_gas_limit h) @ u64_be_bytes (bh_gas_used h) @ u64_be_bytes (bh_timestamp h) @
     be_bytes 4 (length (bh_extra_data h)) @ bh_extra_data h @
     bh_mix_hash h @ u64_be_bytes (bh_nonce h) @ u64_be_bytes (bh_base_fee_per_gas h) @ u64_be_bytes (bh_epoch h) @
     (case bh_epoch_seed h of None \<Rightarrow> [0] | Some s \<Rightarrow> 1 # s)"

definition header_hash :: "(bytes \<Rightarrow> bytes) \<Rightarrow> block_header \<Rightarrow> bytes" where
  "header_hash K h = K (canonical_encode h)"

definition block_hash :: "(bytes \<Rightarrow> bytes) \<Rightarrow> 'tx block \<Rightarrow> bytes" where
  "block_hash K b = header_hash K (bl_header b)"

definition block_number :: "'tx block \<Rightarrow> u64" where
  "block_number b = bh_number (bl_header b)"

definition block_coinbase :: "'tx block \<Rightarrow> address" where
  "block_coinbase b = bh_coinbase (bl_header b)"

definition BLOCK_GAS_LIMIT :: u64 where
  "BLOCK_GAS_LIMIT = 30000000"

definition zero_hash :: bytes where
  "zero_hash = replicate 32 0"

definition block_genesis :: "bytes \<Rightarrow> u64 \<Rightarrow> 'tx block" where
  "block_genesis state_root timestamp =
     \<lparr>bl_header =
        \<lparr>bh_parent_hash = zero_hash, bh_uncle_hash = zero_hash, bh_coinbase = replicate 20 0, bh_state_root = state_root,
         bh_transactions_root = zero_hash, bh_receipts_root = zero_hash, bh_logs_bloom = replicate 256 0, bh_difficulty = 0,
         bh_number = 0, bh_gas_limit = BLOCK_GAS_LIMIT, bh_gas_used = 0, bh_timestamp = timestamp,
         bh_extra_data = map (of_nat \<circ> of_char) ''Zebvix Genesis'', bh_mix_hash = zero_hash, bh_nonce = 0,
         bh_base_fee_per_gas = 1000000000, bh_committee_signature = [], bh_epoch = 0, bh_epoch_seed = None\<rparr>,
      bl_transactions = [], bl_uncles = []\<rparr>"

section \<open>Validation\<close>

text \<open>All checks of \<^verbatim>\<open>validate_against_parent\<close> fail with \<^verbatim>\<open>ZbxError::Consensus\<close>; the constructors name the message.\<close>

datatype header_error =
    ParentHashMismatch
  | NumberGap u64 u64
  | TimestampNotIncreasing
  | GasUsedExceedsLimit u64 u64
  | GasLimitExceedsMaximum
  | ExtraDataTooLong nat
  | BaseFeeMismatch u64 u64 u64

definition compute_eip1559_base_fee :: "u64 \<Rightarrow> u64 \<Rightarrow> u64 \<Rightarrow> (header_error, u64) res" where
  "compute_eip1559_base_fee parent_base gas_used gas_limit =
     (if gas_limit = 0 then Inr parent_base
      else let target = gas_limit div 2 in
        if gas_used = target then Inr parent_base
        else let base = ucast parent_base :: u128; adj = base div 8 in
          if target = 0 then Inl Panic
          else if target < gas_used then
            let delta = ucast (gas_used - target); bump = min (max (base * delta div ucast target) 1) adj in
            Inr (ucast (sat_add128 base bump))
          else
            let delta = ucast (target - gas_used); cut = min (base * delta div ucast target) adj in
            Inr (ucast (sat_sub128 base cut)))"

definition validate_against_parent :: "(bytes \<Rightarrow> bytes) \<Rightarrow> block_header \<Rightarrow> block_header \<Rightarrow> (header_error, unit) res" where
  "validate_against_parent K self parent =
     (if bh_parent_hash self \<noteq> header_hash K parent then Inl (Err ParentHashMismatch)
      else if bh_number self \<noteq> bh_number parent + 1 then Inl (Err (NumberGap (bh_number parent + 1) (bh_number self)))
      else if bh_timestamp self \<le> bh_timestamp parent then Inl (Err TimestampNotIncreasing)
      else if bh_gas_limit self < bh_gas_used self then Inl (Err (GasUsedExceedsLimit (bh_gas_used self) (bh_gas_limit self)))
      else if BLOCK_GAS_LIMIT < bh_gas_limit self then Inl (Err GasLimitExceedsMaximum)
      else if 32 < length (bh_extra_data self) then Inl (Err (ExtraDataTooLong (length (bh_extra_data self))))
      else if 0 < bh_number parent \<or> 0 < bh_base_fee_per_gas parent then
        rbind (compute_eip1559_base_fee (bh_base_fee_per_gas parent) (bh_gas_used parent) (bh_gas_limit parent))
          (\<lambda>expected. if bh_base_fee_per_gas self \<noteq> expected
             then Inl (Err (BaseFeeMismatch (bh_number self) expected (bh_base_fee_per_gas self))) else Inr ())
      else Inr ())"

end
