(* ===== verification/Block_Props.thy ===== *)
theory Block_Props
  imports Block
begin

text \<open>
  The hash of a header commits to every field but the committee signature, so a chain of validated
  headers is determined by the hash of its newest one; and what validation promises of a child, its
  base fee included.
\<close>

section \<open>The encoding is injective\<close>

definition wf_header :: "block_header \<Rightarrow> bool" where
  "wf_header h \<longleftrightarrow> length (bh_parent_hash h) = 32 \<and> length (bh_uncle_hash h) = 32 \<and> length (bh_coinbase h) = 20 \<and>
     length (bh_state_root h) = 32 \<and> length (bh_transactions_root h) = 32 \<and> length (bh_receipts_root h) = 32 \<and>
     length (bh_logs_bloom h) = 256 \<and> length (bh_mix_hash h) = 32 \<and> length (bh_extra_data h) < 2 ^ 32 \<and>
     (\<forall>s. bh_epoch_seed h = Some s \<longrightarrow> length s = 32)"

text \<open>The header without the signature of the committee, which is attached after hashing.\<close>

definition unsigned_header :: "block_header \<Rightarrow> block_header" where
  "unsigned_header h = h\<lparr>bh_committee_signature := []\<rparr>"

lemma append_split: "a @ c = b @ d \<Longrightarrow> length a = length b \<Longrightarrow> a = b \<and> c = d"
  by simp

lemma u64_be_bytes_inject [simp]: "u64_be_bytes a = u64_be_bytes b \<longleftrightarrow> a = b"
proof
  assume "u64_be_bytes a = u64_be_bytes b"
  then have "be_val (be_bytes 8 (unat a)) = be_val (be_bytes 8 (unat b))" by (simp add: u64_be_bytes_def)
  then show "a = b" using unat_u64_less [of a] unat_u64_less [of b] by (simp add: be_val_be_bytes word_unat_eq_iff)
qed simp

lemma length_u64_be_bytes [simp]: "length (u64_be_bytes a) = 8"
  by (simp add: u64_be_bytes_def)

lemma be_bytes_inject: "m < 256 ^ k \<Longrightarrow> n < 256 ^ k \<Longrightarrow> be_bytes k m = be_bytes k n \<longleftrightarrow> m = n"
  by (metis be_val_be_bytes mod_less)

lemma seed_tail_inject:
  fixes x y :: "bytes option"
  assumes "\<And>s. x = Some s \<Longrightarrow> length s = 32" "\<And>s. y = Some s \<Longrightarrow> length s = 32"
  shows "(case x of None \<Rightarrow> [0] | Some s \<Rightarrow> 1 # s) = (case y of None \<Rightarrow> [0] | Some s \<Rightarrow> 1 # s) \<longleftrightarrow> x = y"
  using assms by (cases x; cases y) auto

lemma canonical_encode_inject:
  assumes "wf_header g" "wf_header h" "canonical_encode g = canonical_encode h"
  shows "unsigned_header g = unsigned_header h"
proof -
  note w = assms(1,2) [unfolded wf_header_def]
  note e = assms(3) [unfolded canonical_encode_def]
  have 1: "bh_parent_hash g = bh_parent_hash h \<and> bh_uncle_hash g = bh_uncle_hash h \<and> bh_coinbase g = bh_coinbase h \<and>
      bh_state_root g = bh_state_root h \<and> bh_transactions_root g = bh_transactions_root h \<and>
      bh_receipts_root g = bh_receipts_root h \<and> bh_logs_bloom g = bh_logs_bloom h \<and>
      be_bytes 32 (unat (bh_difficulty g)) = be_bytes 32 (unat (bh_difficulty h)) \<and> bh_number g = bh_number h \<and>
      bh_gas_limit g = bh_gas_limit h \<and> bh_gas_used g = bh_gas_used h \<and> bh_timestamp g = bh_timestamp h \<and>
      be_bytes 4 (length (bh_extra_data g)) = be_bytes 4 (length (bh_extra_data h))"
    using e w by simp
  then have l: "length (bh_extra_data g) = length (bh_extra_data h)" using w by (simp add: be_bytes_inject)
  have "bh_difficulty g = bh_difficulty h"
    using 1 unsigned_less [of "bh_difficulty g", where 'a = nat] unsigned_less [of "bh_difficulty h", where 'a = nat]
    by (simp add: be_bytes_inject word_unat_eq_iff)
  moreover have "bh_extra_data g = bh_extra_data h \<and> bh_mix_hash g = bh_mix_hash h \<and> bh_nonce g = bh_nonce h \<and>
      bh_base_fee_per_gas g = bh_base_fee_per_gas h \<and> bh_epoch g = bh_epoch h \<and> bh_epoch_seed g = bh_epoch_seed h"
    using e w l by (simp add: seed_tail_inject)
  ultimately show ?thesis using 1 by (intro block_header.equality) (simp_all add: unsigned_header_def)
qed

section \<open>Chains of headers\<close>

text \<open>A chain of headers, newest first, each validated against its parent.\<close>

fun valid_chain :: "(bytes \<Rightarrow> bytes) \<Rightarrow> block_header list \<Rightarrow> bool" where
  "valid_chain K (h # p # hs) \<longleftrightarrow> validate_against_parent K h p = Inr () \<and> valid_chain K (p # hs)"
| "valid_chain K [h] \<longleftrightarrow> True"
| "valid_chain K [] \<longleftrightarrow> True"

lemma validate_parent_ok:
  assumes "validate_against_parent K h p = Inr ()"
  shows "bh_parent_hash h = header_hash K p" "bh_number h = bh_number p + 1" "bh_timestamp p < bh_timestamp h"
    "bh_gas_used h \<le> bh_gas_limit h" "bh_gas_limit h \<le> BLOCK_GAS_LIMIT" "length (bh_extra_data h) \<le> 32"
    "0 < bh_number p \<or> 0 < bh_base_fee_per_gas p \<Longrightarrow>
       compute_eip1559_base_fee (bh_base_fee_per_gas p) (bh_gas_used p) (bh_gas_limit p) = Inr (bh_base_fee_per_gas h)"
  using assms unfolding validate_against_parent_def by (simp_all add: not_less not_le res_simps split: if_split_asm)

lemma header_hash_commits:
  assumes "wf_header g" "wf_header h" "header_hash K g = header_hash K h"
    and "K (canonical_encode g) = K (canonical_encode h) \<Longrightarrow> canonical_encode g = canonical_encode h"
  shows "unsigned_header g = unsigned_header h"
  by (rule canonical_encode_inject [OF assms(1,2)], rule assms(4), rule assms(3) [unfolded header_hash_def])

definition demo_hash :: "bytes \<Rightarrow> bytes" where
  "demo_hash bs = replicate 32 (bs ! 475)"

definition demo_parent :: block_header where
  "demo_parent = bl_header (block_genesis zero_hash 1 :: unit block)"

definition demo_child :: block_header where
  "demo_child = demo_parent\<lparr>bh_parent_hash := header_hash demo_hash demo_parent, bh_number := 1, bh_timestamp := 3,
     bh_base_fee_per_gas := 875000000\<rparr>"

lemma validate_unsigned: "validate_against_parent K (h\<lparr>bh_committee_signature := s\<rparr>) p = validate_against_parent K h p"
  unfolding validate_against_parent_def by (simp cong del: if_weak_cong)

lemma demo_wf: "wf_header demo_parent" "wf_header demo_child"
  by (simp_all add: wf_header_def demo_child_def demo_parent_def block_genesis_def zero_hash_def header_hash_def demo_hash_def)

lemma encoded_number: "wf_header h \<Longrightarrow> canonical_encode h ! 475 = u64_be_bytes (bh_number h) ! 7"
  by (simp add: canonical_encode_def wf_header_def nth_append)

lemma demo_headers:
  "validate_against_parent demo_hash demo_child demo_parent = Inr ()"
  "demo_hash (canonical_encode demo_child) \<noteq> demo_hash (canonical_encode demo_parent)"
proof -
  have "compute_eip1559_base_fee 1000000000 0 30000000 = Inr 875000000"
    by (simp add: compute_eip1559_base_fee_def sat_sub128_def Let_def min_def word_le_nat_alt)
  then show "validate_against_parent demo_hash demo_child demo_parent = Inr ()"
    by (simp add: validate_against_parent_def demo_child_def demo_parent_def block_genesis_def BLOCK_GAS_LIMIT_def word_le_nat_alt)
  have "u64_be_bytes 1 ! 7 \<noteq> u64_be_bytes 0 ! 7" by code_simp
  then show "demo_hash (canonical_encode demo_child) \<noteq> demo_hash (canonical_encode demo_parent)"
    by (simp add: demo_hash_def encoded_number demo_wf) (simp add: demo_child_def demo_parent_def block_genesis_def)
qed

text \<open>C15. Two chains of headers, each header validated against its parent, whose newest headers have the
  same hash consist of the same headers as far back as the shorter one goes, committee
  signatures apart (which the hash leaves out), provided Keccak-256 has no collision among their encodings.\<close>

theorem header_chain_determined:
  assumes "valid_chain K gs" "valid_chain K hs" "list_all wf_header gs" "list_all wf_header hs"
    and "inj_on K (canonical_encode ` (set gs \<union> set hs))"
    and "gs \<noteq> []" "hs \<noteq> []" "header_hash K (hd gs) = header_hash K (hd hs)"
  shows "map unsigned_header (take (length hs) gs) = map unsigned_header (take (length gs) hs)"
  using assms
proof (induction K gs arbitrary: hs rule: valid_chain.induct)
  case (1 K g p gs)
  obtain h hs' where hs: "hs = h # hs'" using 1(8) by (cases hs) auto
  have i: "K (canonical_encode a) = K (canonical_encode b) \<Longrightarrow> canonical_encode a = canonical_encode b"
    if "a \<in> set (g # p # gs)" "b \<in> set hs" for a b
    using inj_onD [OF 1(6), of "canonical_encode a" "canonical_encode b"] that by blast
  have u: "unsigned_header g = unsigned_header h"
    using 1(4,5,9) i [of g h] by (intro header_hash_commits [of g h K]) (auto simp: hs)
  show ?case
  proof (cases hs')
    case Nil
    then show ?thesis using u by (simp add: hs)
  next
    case (Cons q hs'')
    have "bh_parent_hash g = bh_parent_hash h" using arg_cong [OF u, of bh_parent_hash] by (simp add: unsigned_header_def)
    then have "header_hash K (hd (p # gs)) = header_hash K (hd hs')"
      using validate_parent_ok(1) [of K g p] validate_parent_ok(1) [of K h q] 1(2,3) by (simp add: hs Cons)
    then have "map unsigned_header (take (length hs') (p # gs)) = map unsigned_header (take (length (p # gs)) hs')"
      using 1(2-6) by (intro 1(1)) (auto simp: hs Cons intro: inj_on_subset)
    then show ?thesis using u by (simp add: hs)
  qed
next
  case (2 K g)
  obtain h hs' where hs: "hs = h # hs'" using 2(7) by (cases hs) auto
  have "unsigned_header g = unsigned_header h"
    using 2(3,4,8) inj_onD [OF 2(5), of "canonical_encode g" "canonical_encode h"]
    by (intro header_hash_commits [of g h K]) (auto simp: hs)
  then show ?case by (simp add: hs)
qed simp

theorem header_chain_determined_witness:
  "map unsigned_header [demo_child, demo_parent] =
   map unsigned_header [demo_child\<lparr>bh_committee_signature := [1]\<rparr>, demo_parent]"
proof -
  let ?c = "demo_child\<lparr>bh_committee_signature := [1]\<rparr>"
  have e: "canonical_encode ?c = canonical_encode demo_child" by (simp add: canonical_encode_def)
  have "validate_against_parent demo_hash ?c demo_parent = Inr ()"
    using demo_headers(1) by (simp add: validate_unsigned)
  moreover have "inj_on demo_hash (canonical_encode ` (set [demo_child, demo_parent] \<union> set [?c, demo_parent]))"
    using demo_headers(2) by (auto simp: e inj_on_def)
  moreover have "wf_header ?c" using demo_wf(2) by (simp add: wf_header_def)
  ultimately show ?thesis
    using header_chain_determined [of demo_hash "[demo_child, demo_parent]" "[?c, demo_parent]"] demo_headers demo_wf
    by (simp add: header_hash_def e)
qed

section \<open>The base fee rule of validation\<close>

lemma unat_product64: "unat (ucast (a :: u64) * ucast (b :: u64) div ucast (t :: u64) :: u128) = unat a * unat b div unat t"
  by (simp only: unat_div unat_mul_u64 unat_ucast_u64)

lemma validation_fee_cases:
  fixes b used limit :: u64
  defines "T \<equiv> unat limit div 2"
  assumes "0 < T"
  shows "\<exists>f. compute_eip1559_base_fee b used limit = Inr f \<and>
    unat f = (if unat used \<le> T then unat b - min (unat b * (T - unat used) div T) (unat b div 8)
      else (unat b + min (max 1 (unat b * (unat used - T) div T)) (unat b div 8)) mod 2 ^ 64)"
proof -
  define t where "t = limit div 2"
  have t: "unat t = T" by (simp add: T_def t_def unat_div)
  have t0: "limit \<noteq> 0" "t \<noteq> 0" using assms(2) t by (auto simp: T_def)
  define base :: u128 where "base = ucast b"
  have bv: "unat base = unat b" by (simp add: base_def)
  have m: "unat (min x (base div 8)) = min (unat x) (unat b div 8)" for x by (simp add: unat_min unat_div bv)
  have up: "unat (ucast (sat_add128 base (min x (base div 8))) :: u64) = (unat b + min (unat x) (unat b div 8)) mod 2 ^ 64" for x
  proof -
    have "unat b + min (unat x) (unat b div 8) \<le> 2 * unat b" by linarith
    also have "\<dots> < 2 ^ 128" using unat_u64_less [of b] by simp
    finally have "unat b + min (unat x) (unat b div 8) < 2 ^ 128" .
    then have "unat (sat_add128 base (min x (base div 8))) = unat b + min (unat x) (unat b div 8)" by (simp add: sat_add128_exact m bv)
    then show ?thesis by (simp add: unsigned_ucast_eq take_bit_eq_mod)
  qed
  have down: "unat (ucast (sat_sub128 base (min x (base div 8))) :: u64) = unat b - min (unat x) (unat b div 8)" for x
    using unat_u64_less [of b] unat_ucast_down [of "sat_sub128 base (min x (base div 8))"] by (simp add: m bv)
  consider "used = t" | "t < used" | "used < t" by (rule linorder_cases [of used t])
  then show ?thesis
  proof cases
    case 1
    then show ?thesis using t by (simp add: compute_eip1559_base_fee_def t_def [symmetric])
  next
    case 2
    then have d: "unat (used - t) = unat used - T" "\<not> unat used \<le> T" using t unat_sub [OF less_imp_le [OF 2]] by (simp_all add: word_less_nat_alt)
    have "compute_eip1559_base_fee b used limit = Inr (ucast (sat_add128 base (min (max (base * ucast (used - t) div ucast t) 1) (base div 8))))"
      using 2 t0 by (auto simp: compute_eip1559_base_fee_def t_def [symmetric] base_def Let_def)
    moreover have "unat (base * ucast (used - t) div ucast t) = unat b * (unat used - T) div T" by (simp only: base_def unat_product64 d t)
    ultimately show ?thesis using d(2) by (simp add: up unat_max max.commute)
  next
    case 3
    then have d: "unat (t - used) = T - unat used" "unat used \<le> T" using t unat_sub [OF less_imp_le [OF 3]] by (simp_all add: word_less_nat_alt)
    have "compute_eip1559_base_fee b used limit = Inr (ucast (sat_sub128 base (min (base * ucast (t - used) div ucast t) (base div 8))))"
      using 3 t0 by (auto simp: compute_eip1559_base_fee_def t_def [symmetric] base_def Let_def)
    moreover have "unat (base * ucast (t - used) div ucast t) = unat b * (T - unat used) div T" by (simp only: base_def unat_product64 d t)
    ultimately show ?thesis using d(2) by (simp add: down)
  qed
qed

lemma validation_fee_edge:
  "limit = 0 \<or> limit = 1 \<and> used = 0 \<Longrightarrow> compute_eip1559_base_fee b used limit = Inr b"
  "used \<noteq> 0 \<Longrightarrow> compute_eip1559_base_fee b used 1 = Inl Panic"
  by (auto simp: compute_eip1559_base_fee_def Let_def)

lemma fee_rule_values:
  "compute_eip1559_base_fee 1000000000 18000000 30000000 = Inr 1125000000"
  "next_base_fee 1000000000 18000000 30000000 = Inr 1025000000" "next_base_fee 7 30000000 30000000 = Inr 8"
  "compute_eip1559_base_fee 18446744073709551615 30000000 30000000 = Inr 2305843009213693950"
  by (simp_all add: compute_eip1559_base_fee_def sat_add128_def next_base_fee_def fee_delta128_def sat_mul128_def
      checked_add64_def Let_def min_def max_def word_le_nat_alt ELASTICITY_MULTIPLIER_def BASE_FEE_CHANGE_DENOMINATOR_def
      MIN_BASE_FEE_def)

text \<open>C37. Header validation and the fee calculator of zbx-fee follow different rules.  With half the gas limit as
  target, validation demands the parent's fee changed by the fee times the relative excess (slack), capped by an
  eighth of the fee, but not divided by eight, and cut to 64 bits: where the sum stays below \<open>2 ^ 64\<close> the fee
  moves by at most an eighth, above it the fee wraps around instead of being clamped, and the largest fee
  becomes about \<open>2 ^ 61\<close>.  A block a fifth above its target must raise the fee by an eighth, where
  the calculator raises it by a fortieth.  A fee below 8 wei never changes, where the calculator raises it.
  With a gas limit of 0, and of 1 for an empty block, the fee is kept; a gas limit of 1 and any gas used divide by
  zero.\<close>

theorem validation_fee_rule:
  "let T = unat limit div 2; u = unat used; bf = unat b in
   (limit = 0 \<or> limit = 1 \<and> used = 0 \<longrightarrow> compute_eip1559_base_fee b used limit = Inr b) \<and>
   (limit = 1 \<and> used \<noteq> 0 \<longrightarrow> compute_eip1559_base_fee b used limit = Inl Panic) \<and>
   (0 < T \<longrightarrow> (\<exists>f. compute_eip1559_base_fee b used limit = Inr f \<and>
      unat f = (if u \<le> T then bf - min (bf * (T - u) div T) (bf div 8)
        else (bf + min (max 1 (bf * (u - T) div T)) (bf div 8)) mod 2 ^ 64) \<and>
      (bf + bf div 8 < 2 ^ 64 \<longrightarrow> bf - bf div 8 \<le> unat f \<and> unat f \<le> bf + bf div 8) \<and>
      (bf < 8 \<longrightarrow> f = b))) \<and>
   compute_eip1559_base_fee 18446744073709551615 30000000 30000000 = Inr 2305843009213693950 \<and>
   compute_eip1559_base_fee 1000000000 18000000 30000000 = Inr 1125000000 \<and> next_base_fee 1000000000 18000000 30000000 = Inr 1025000000 \<and>
   next_base_fee 7 30000000 30000000 = Inr 8"
proof -
  have "\<exists>f. compute_eip1559_base_fee b used limit = Inr f \<and>
      unat f = (if unat used \<le> T then unat b - min (unat b * (T - unat used) div T) (unat b div 8)
        else (unat b + min (max 1 (unat b * (unat used - T) div T)) (unat b div 8)) mod 2 ^ 64) \<and>
      (unat b + unat b div 8 < 2 ^ 64 \<longrightarrow> unat b - unat b div 8 \<le> unat f \<and> unat f \<le> unat b + unat b div 8) \<and>
      (unat b < 8 \<longrightarrow> f = b)" if T: "T = unat limit div 2" "0 < T" for T
  proof -
    obtain f where f: "compute_eip1559_base_fee b used limit = Inr f"
      "unat f = (if unat used \<le> T then unat b - min (unat b * (T - unat used) div T) (unat b div 8)
        else (unat b + min (max 1 (unat b * (unat used - T) div T)) (unat b div 8)) mod 2 ^ 64)"
      using validation_fee_cases [of limit b used] T by auto
    have "unat b - unat b div 8 \<le> unat f \<and> unat f \<le> unat b + unat b div 8" if "unat b + unat b div 8 < 2 ^ 64"
    proof (cases "unat used \<le> T")
      case False
      have "unat b + min x (unat b div 8) < 2 ^ 64" for x using that by linarith
      then show ?thesis using False unfolding f(2) by simp
    qed (simp add: f(2) diff_le_mono2)
    moreover have "f = b" if "unat b < 8" using f(2) that unat_u64_less [of b] by (simp add: word_unat_eq_iff split: if_splits)
    ultimately show ?thesis using f by blast
  qed
  then show ?thesis unfolding Let_def using validation_fee_edge(1) [of limit used b] validation_fee_edge(2) [of used b] fee_rule_values by blast
qed

theorem validation_fee_rule_witness:
  "(\<exists>f. compute_eip1559_base_fee 800 0 30000000 = Inr f \<and> unat f = 700) \<and> compute_eip1559_base_fee 800 5 1 = Inl Panic"
  using validation_fee_rule [of 30000000 0 800] validation_fee_rule [of 1 5 800] by (auto simp: Let_def)

end
