(* ===== verification/Vote.thy ===== *)
theory Vote
  imports Uint
begin

text \<open>
  Votes and safety rules of the HotStuff consensus (zbx-consensus: \<^verbatim>\<open>vote.rs\<close>, \<^verbatim>\<open>safety_rules.rs\<close>,
  \<^verbatim>\<open>error.rs\<close>).  BLS signatures and Keccak-256 come from cryptographic libraries and are the fields of a
  record \<open>crypto\<close>; keys, signatures and hashes are byte strings.  A hash map that is iterated is
  an association list: its order, which Rust leaves open, is the order of insertion here, and no theorem
  depends on it.  Writing the safety state to disk has no effect on the state in memory and is left out.
\<close>

section \<open>Cryptography\<close>

record crypto =
  cr_keccak :: "bytes \<Rightarrow> bytes"
  cr_to_pubkey :: "bytes \<Rightarrow> bytes"
  cr_sign :: "bytes \<Rightarrow> bytes \<Rightarrow> bytes"
  cr_verify_single :: "bytes \<Rightarrow> bytes \<Rightarrow> bytes \<Rightarrow> bool"
  cr_verify_aggregate :: "bytes \<Rightarrow> bytes list \<Rightarrow> bytes \<Rightarrow> bool"
  cr_aggregate_signatures :: "bytes list \<Rightarrow> bytes option"

text \<open>The documented law of a signature scheme: what a key signs verifies under its public key.\<close>

definition signs_correctly :: "crypto \<Rightarrow> bool" where
  "signs_correctly C \<longleftrightarrow> (\<forall>k m. cr_verify_single C (cr_sign C k m) (cr_to_pubkey C k) m)"

section \<open>Errors\<close>

text \<open>The errors of \<^verbatim>\<open>ConsensusError\<close>; texts built with \<^verbatim>\<open>format!\<close> are dropped.\<close>

datatype consensus_error =
    SafetyViolation
  | StaleRound u64 u64
  | InsufficientVotes nat nat
  | InvalidProposer u64
  | TimeoutInRound u64
  | DuplicateVote
  | BlockNotFound
  | StaleProposal u64 u64
  | InvalidTimeoutCertificate
  | Equivocation u64 bytes bytes
  | RemoteEquivocation address u64 byte bytes bytes
  | ConsecutiveTimeoutsExceeded u64
  | InvalidQC u64
  | InvalidMessage
  | RateLimitExceeded
  | InvalidEpoch u64 u64

section \<open>Votes and certificates\<close>

record vote_data =
  vd_block_hash :: bytes
  vd_block_number :: u64
  vd_phase :: byte
  vd_epoch :: u64

definition signing_bytes :: "vote_data \<Rightarrow> bytes" where
  "signing_bytes d = vd_block_hash d @ u64_be_bytes (vd_block_number d) @ [vd_phase d] @ u64_be_bytes (vd_epoch d)"

record vote =
  vt_data :: vote_data
  vt_voter :: address
  vt_signature :: bytes

record quorum_certificate =
  qc_vote_data :: vote_data
  qc_agg_signature :: bytes
  qc_signers :: "address list"
  qc_signer_pubkeys :: "bytes list"

definition qc_block_number :: "quorum_certificate \<Rightarrow> u64" where
  "qc_block_number q = vd_block_number (qc_vote_data q)"

definition qc_block_hash :: "quorum_certificate \<Rightarrow> bytes" where
  "qc_block_hash q = vd_block_hash (qc_vote_data q)"

definition qc_phase :: "quorum_certificate \<Rightarrow> byte" where
  "qc_phase q = vd_phase (qc_vote_data q)"

definition qc_verify :: "crypto \<Rightarrow> quorum_certificate \<Rightarrow> bool" where
  "qc_verify C q \<longleftrightarrow> qc_signer_pubkeys q = [] \<or>
     cr_verify_aggregate C (qc_agg_signature q) (qc_signer_pubkeys q) (cr_keccak C (signing_bytes (qc_vote_data q)))"

record vote_accumulator =
  va_data :: vote_data
  va_votes :: "(address \<times> vote \<times> bytes) list"
  va_quorum :: nat

definition accumulator_new :: "vote_data \<Rightarrow> nat \<Rightarrow> vote_accumulator" where
  "accumulator_new d quorum = \<lparr>va_data = d, va_votes = [], va_quorum = quorum\<rparr>"

definition form_qc :: "crypto \<Rightarrow> vote_accumulator \<Rightarrow> (consensus_error, quorum_certificate) res" where
  "form_qc C a = (case cr_aggregate_signatures C (map (vt_signature \<circ> fst \<circ> snd) (va_votes a)) of
     None \<Rightarrow> Inl Panic
   | Some s \<Rightarrow> Inr \<lparr>qc_vote_data = va_data a, qc_agg_signature = s,
       qc_signers = map (vt_voter \<circ> fst \<circ> snd) (va_votes a), qc_signer_pubkeys = map (snd \<circ> snd) (va_votes a)\<rparr>)"

definition vote_valid :: "crypto \<Rightarrow> vote \<Rightarrow> bytes \<Rightarrow> bool" where
  "vote_valid C v pk \<longleftrightarrow> cr_verify_single C (vt_signature v) pk (cr_keccak C (signing_bytes (vt_data v)))"

definition add_vote :: "crypto \<Rightarrow> vote \<Rightarrow> bytes \<Rightarrow> (vote_accumulator, consensus_error, quorum_certificate option) st" where
  "add_vote C v pk a =
     (if vt_data v \<noteq> va_data a then (Inr None, a)
      else if vt_voter v \<in> fst ` set (va_votes a) then (Inl (Err DuplicateVote), a)
      else if \<not> vote_valid C v pk then (Inr None, a)
      else
        let a = a\<lparr>va_votes := va_votes a @ [(vt_voter v, v, pk)]\<rparr> in
        if va_quorum a \<le> length (va_votes a) then (rbind (form_qc C a) (\<lambda>q. Inr (Some q)), a)
        else (Inr None, a))"

record equivocation_evidence =
  ev_validator :: address
  ev_round :: u64
  ev_phase :: byte
  ev_vote_a :: vote
  ev_vote_b :: vote
  ev_pubkey :: bytes

definition evidence_verify :: "crypto \<Rightarrow> equivocation_evidence \<Rightarrow> bool" where
  "evidence_verify C e =
     (let a = ev_vote_a e; b = ev_vote_b e in
      if vt_voter a \<noteq> vt_voter b \<or> vt_voter a \<noteq> ev_validator e
        \<or> vd_block_number (vt_data a) \<noteq> vd_block_number (vt_data b) \<or> vd_phase (vt_data a) \<noteq> vd_phase (vt_data b)
        \<or> vd_block_hash (vt_data a) = vd_block_hash (vt_data b)
        \<or> vd_block_number (vt_data a) \<noteq> ev_round e \<or> vd_phase (vt_data a) \<noteq> ev_phase e
      then False
      else vote_valid C a (ev_pubkey e) \<and> vote_valid C b (ev_pubkey e))"

section \<open>Safety rules\<close>

record safety_state =
  ss_highest_vote_round :: u64
  ss_locked_round :: u64
  ss_locked_qc :: "quorum_certificate option"
  ss_epoch :: u64
  ss_voted_phases :: "(u64 \<times> byte) set"

definition safety_default :: safety_state where
  "safety_default = \<lparr>ss_highest_vote_round = 0, ss_locked_round = 0, ss_locked_qc = None, ss_epoch = 0, ss_voted_phases = {}\<rparr>"

record safety_rules =
  sr_state :: safety_state
  sr_priv_key :: bytes
  sr_pub_key :: bytes
  sr_address :: address

definition safety_new :: "crypto \<Rightarrow> bytes \<Rightarrow> address \<Rightarrow> safety_rules" where
  "safety_new C priv_key addr =
     \<lparr>sr_state = safety_default, sr_priv_key = priv_key, sr_pub_key = cr_to_pubkey C priv_key, sr_address = addr\<rparr>"

definition safety_vote :: "crypto \<Rightarrow> vote_data \<Rightarrow> quorum_certificate \<Rightarrow> (safety_rules, consensus_error, vote) st" where
  "safety_vote C d parent_qc r =
     (let s = sr_state r; phase_key = (vd_block_number d, vd_phase d) in
      if vd_block_number d < ss_highest_vote_round s
      then (Inl (Err (StaleRound (vd_block_number d) (ss_highest_vote_round s))), r)
      else if phase_key \<in> ss_voted_phases s then (Inl (Err DuplicateVote), r)
      else if qc_block_number parent_qc < ss_locked_round s then (Inl (Err SafetyViolation), r)
      else if vd_epoch d \<noteq> ss_epoch s \<and> ss_epoch s \<noteq> 0 then (Inl (Err SafetyViolation), r)
      else
        let sig = cr_sign C (sr_priv_key r) (cr_keccak C (signing_bytes d));
            s = s\<lparr>ss_highest_vote_round := vd_block_number d, ss_voted_phases := insert phase_key (ss_voted_phases s)\<rparr>
        in (Inr \<lparr>vt_data = d, vt_voter = sr_address r, vt_signature = sig\<rparr>, r\<lparr>sr_state := s\<rparr>))"

definition update_locked_qc :: "quorum_certificate \<Rightarrow> safety_rules \<Rightarrow> safety_rules" where
  "update_locked_qc qc r =
     (if ss_locked_round (sr_state r) < qc_block_number qc
      then r\<lparr>sr_state := (sr_state r)\<lparr>ss_locked_round := qc_block_number qc, ss_locked_qc := Some qc\<rparr>\<rparr> else r)"

definition safety_advance_epoch :: "u64 \<Rightarrow> safety_rules \<Rightarrow> safety_rules" where
  "safety_advance_epoch new_epoch r =
     (if ss_epoch (sr_state r) < new_epoch
      then r\<lparr>sr_state := (sr_state r)\<lparr>ss_epoch := new_epoch, ss_voted_phases := {}\<rparr>\<rparr> else r)"

end
