(* ===== verification/Hotstuff.thy ===== *)
theory Hotstuff
  imports Vote Block
begin

text \<open>
  The HotStuff state machine of zbx-consensus: the store of proposed blocks (\<^verbatim>\<open>block_store.rs\<close>), the
  pacemaker (\<^verbatim>\<open>liveness.rs\<close>), validator sets, proposals, votes and certificates
  (\<^verbatim>\<open>hotstuff.rs\<close>) and the round manager.  Durations are natural numbers of nanoseconds; instants, logging
  and the wall clock are left out.  Blocks are those of the theory Block, hashed by the Keccak of the
  \<open>crypto\<close> record.
\<close>

section \<open>Block store\<close>

record 'tx block_store =
  bs_blocks :: "(bytes \<times> 'tx block) list"
  bs_insertion_order :: "bytes list"
  bs_capacity :: nat

definition store_new :: "nat \<Rightarrow> 'tx block_store" where
  "store_new capacity = \<lparr>bs_blocks = [], bs_insertion_order = [], bs_capacity = capacity\<rparr>"

definition store_get :: "'tx block_store \<Rightarrow> bytes \<Rightarrow> 'tx block option" where
  "store_get s h = map_of (bs_blocks s) h"

definition store_remove :: "'tx block_store \<Rightarrow> bytes \<Rightarrow> 'tx block option \<times> 'tx block_store" where
  "store_remove s h = (map_of (bs_blocks s) h, s\<lparr>bs_blocks := filter (\<lambda>(k, _). k \<noteq> h) (bs_blocks s)\<rparr>)"

definition store_add :: "crypto \<Rightarrow> 'tx block \<Rightarrow> 'tx block_store \<Rightarrow> 'tx block_store" where
  "store_add C b s =
     (let h = block_hash (cr_keccak C) b in
      if map_of (bs_blocks s) h \<noteq> None then s
      else
        let s = (if bs_capacity s \<le> length (bs_blocks s) then
                   (case bs_insertion_order s of [] \<Rightarrow> s
                    | oldest # rest \<Rightarrow> s\<lparr>bs_insertion_order := rest, bs_blocks := filter (\<lambda>(k, _). k \<noteq> oldest) (bs_blocks s)\<rparr>)
                 else s)
        in s\<lparr>bs_insertion_order := bs_insertion_order s @ [h], bs_blocks := (h, b) # bs_blocks s\<rparr>)"

section \<open>Pacemaker\<close>

record pacemaker_config =
  pc_base_timeout :: nat
  pc_backoff_num :: u64
  pc_backoff_den :: u64
  pc_max_timeout :: nat

record round_state =
  rs_round :: u64
  rs_epoch :: u64
  rs_timeout :: nat
  rs_consecutive_timeouts :: u32

record pacemaker =
  pm_config :: pacemaker_config
  pm_current :: round_state

definition pacemaker_default :: pacemaker_config where
  "pacemaker_default = \<lparr>pc_base_timeout = 2 * 10 ^ 9, pc_backoff_num = 3, pc_backoff_den = 2, pc_max_timeout = 30 * 10 ^ 9\<rparr>"

definition round_new :: "u64 \<Rightarrow> u64 \<Rightarrow> nat \<Rightarrow> round_state" where
  "round_new round epoch timeout = \<lparr>rs_round = round, rs_epoch = epoch, rs_timeout = timeout, rs_consecutive_timeouts = 0\<rparr>"

definition pacemaker_new :: "pacemaker_config \<Rightarrow> pacemaker" where
  "pacemaker_new config = \<lparr>pm_config = config, pm_current = round_new 1 1 (pc_base_timeout config)\<rparr>"

definition pm_advance_round :: "u64 \<Rightarrow> u64 \<Rightarrow> pacemaker \<Rightarrow> pacemaker" where
  "pm_advance_round new_round epoch p =
     (if new_round \<le> rs_round (pm_current p) then p
      else p\<lparr>pm_current := round_new new_round epoch (pc_base_timeout (pm_config p))\<rparr>)"

definition pm_start_round :: "u64 \<Rightarrow> u64 \<Rightarrow> pacemaker \<Rightarrow> pacemaker" where
  "pm_start_round round epoch p = p\<lparr>pm_current := round_new round epoch (pc_base_timeout (pm_config p))\<rparr>"

definition backoff_step :: "u64 \<Rightarrow> u64 \<Rightarrow> u64 option \<Rightarrow> u64 option" where
  "backoff_step num den acc = Option.bind acc (\<lambda>ms. Option.bind (checked_mul64 ms num) (\<lambda>x. if den = 0 then None else Some (x div den)))"

definition pm_on_timeout :: "pacemaker \<Rightarrow> u64 \<times> pacemaker" where
  "pm_on_timeout p =
     (let cur = pm_current p; config = pm_config p;
          consecutive = rs_consecutive_timeouts cur + 1;
          base_ms = of_nat (pc_base_timeout config div 10 ^ 6);
          den = max (pc_backoff_den config) 1;
          new_ms = (backoff_step (pc_backoff_num config) den ^^ unat consecutive) (Some base_ms);
          new_timeout = min (case new_ms of None \<Rightarrow> pc_max_timeout config | Some ms \<Rightarrow> unat ms * 10 ^ 6) (pc_max_timeout config)
      in (rs_round cur,
          p\<lparr>pm_current := \<lparr>rs_round = rs_round cur + 1, rs_epoch = rs_epoch cur, rs_timeout = new_timeout,
             rs_consecutive_timeouts = consecutive\<rparr>\<rparr>))"

section \<open>Validator sets\<close>

record validator_set =
  vs_validators :: "address list"
  vs_quorum :: nat
  vs_epoch_seed :: bytes

definition hotstuff_quorum :: "nat \<Rightarrow> nat" where
  "hotstuff_quorum n = 2 * n div 3 + 1"

definition valset_new :: "address list \<Rightarrow> (consensus_error, validator_set) res" where
  "valset_new validators =
     (if length validators = 0 then Inl Panic
      else Inr \<lparr>vs_validators = validators, vs_quorum = hotstuff_quorum (length validators), vs_epoch_seed = zero_hash\<rparr>)"

definition proposer_for_round :: "crypto \<Rightarrow> validator_set \<Rightarrow> u64 \<Rightarrow> (consensus_error, address) res" where
  "proposer_for_round C s round =
     (let n = length (vs_validators s) in
      if n = 0 then Inl Panic
      else if vs_epoch_seed s = zero_hash then index_chk (vs_validators s) (unat round mod n)
      else
        let h = cr_keccak C (vs_epoch_seed s @ u64_be_bytes round);
            idx_raw = u64_from_be_bytes (take 8 h)
        in index_chk (vs_validators s) (unat idx_raw mod n))"

definition valset_contains :: "validator_set \<Rightarrow> address \<Rightarrow> bool" where
  "valset_contains s a \<longleftrightarrow> a \<in> set (vs_validators s)"

section \<open>The consensus driver\<close>

datatype 'tx consensus_event =
    Committed "'tx block" quorum_certificate
  | VoteCast vote
  | ProposalRequired u64 bytes
  | TimeoutEvent u64

record 'tx hotstuff =
  hs_my_address :: address
  hs_validator_set :: validator_set
  hs_safety_rules :: safety_rules
  hs_pacemaker :: pacemaker
  hs_block_store :: "'tx block_store"
  hs_vote_accumulators :: "u64 \<times> byte \<rightharpoonup> vote_accumulator"
  hs_committed_height :: u64
  hs_highest_qc :: "quorum_certificate option"
  hs_seen_votes :: "u64 \<times> byte \<times> address \<rightharpoonup> bytes \<times> vote \<times> bytes"
  hs_validator_pubkeys :: "address \<rightharpoonup> bytes"
  hs_dropped_unregistered :: u64
  hs_dropped_pubkey_mismatch :: u64
  hs_dropped_invalid_sig :: u64
  hs_dropped_non_validator :: u64

type_synonym ('tx, 'a) hs = "('tx hotstuff, consensus_error, 'a) st"

definition hotstuff_new :: "address \<Rightarrow> safety_rules \<Rightarrow> validator_set \<Rightarrow> 'tx hotstuff" where
  "hotstuff_new my_address safety_rules validator_set =
     \<lparr>hs_my_address = my_address, hs_validator_set = validator_set, hs_safety_rules = safety_rules,
      hs_pacemaker = pacemaker_new pacemaker_default, hs_block_store = store_new 1024, hs_vote_accumulators = Map.empty,
      hs_committed_height = 0, hs_highest_qc = None, hs_seen_votes = Map.empty, hs_validator_pubkeys = Map.empty,
      hs_dropped_unregistered = 0, hs_dropped_pubkey_mismatch = 0, hs_dropped_invalid_sig = 0, hs_dropped_non_validator = 0\<rparr>"

definition update_validator_set :: "address list \<Rightarrow> ('tx, unit) hs" where
  "update_validator_set addrs s =
     (case valset_new addrs of
        Inl e \<Rightarrow> (Inl e, s)
      | Inr v \<Rightarrow> (Inr (), s\<lparr>hs_validator_set := v\<lparr>vs_epoch_seed := vs_epoch_seed (hs_validator_set s)\<rparr>\<rparr>))"

definition rotate_epoch_seed :: "bytes \<Rightarrow> 'tx hotstuff \<Rightarrow> 'tx hotstuff" where
  "rotate_epoch_seed seed s = s\<lparr>hs_validator_set := (hs_validator_set s)\<lparr>vs_epoch_seed := seed\<rparr>\<rparr>"

definition check_pubkey_registry_invariant :: "'tx hotstuff \<Rightarrow> address list" where
  "check_pubkey_registry_invariant s = filter (\<lambda>a. hs_validator_pubkeys s a = None) (vs_validators (hs_validator_set s))"

definition register_validator_pubkey :: "address \<Rightarrow> bytes \<Rightarrow> 'tx hotstuff \<Rightarrow> 'tx hotstuff" where
  "register_validator_pubkey addr pk s =
     (case hs_validator_pubkeys s addr of
        Some existing \<Rightarrow> if existing \<noteq> pk then s else s\<lparr>hs_validator_pubkeys := (hs_validator_pubkeys s)(addr \<mapsto> pk)\<rparr>
      | None \<Rightarrow> s\<lparr>hs_validator_pubkeys := (hs_validator_pubkeys s)(addr \<mapsto> pk)\<rparr>)"

definition prune_seen_votes_below :: "u64 \<Rightarrow> 'tx hotstuff \<Rightarrow> 'tx hotstuff" where
  "prune_seen_votes_below committed_round s =
     s\<lparr>hs_seen_votes := (\<lambda>(n, p, a). if committed_round \<le> n then hs_seen_votes s (n, p, a) else None)\<rparr>"

definition build_remote_equivocation_evidence ::
    "crypto \<Rightarrow> 'tx hotstuff \<Rightarrow> address \<Rightarrow> u64 \<Rightarrow> byte \<Rightarrow> vote \<Rightarrow> bytes \<Rightarrow> equivocation_evidence option" where
  "build_remote_equivocation_evidence C s validator round phase new_vote new_pk =
     (case hs_seen_votes s (round, phase, validator) of
        None \<Rightarrow> None
      | Some (_, prev_vote, _) \<Rightarrow>
          let ev = \<lparr>ev_validator = validator, ev_round = round, ev_phase = phase, ev_vote_a = prev_vote, ev_vote_b = new_vote,
                    ev_pubkey = new_pk\<rparr>
          in if evidence_verify C ev then Some ev else None)"

text \<open>The call of \<^verbatim>\<open>SafetyRules::vote\<close> on the field of the driver.\<close>

definition hs_vote :: "crypto \<Rightarrow> vote_data \<Rightarrow> quorum_certificate \<Rightarrow> ('tx, vote) hs" where
  "hs_vote C d q s = (let (r, rules) = safety_vote C d q (hs_safety_rules s) in (r, s\<lparr>hs_safety_rules := rules\<rparr>))"

definition on_proposal :: "crypto \<Rightarrow> 'tx block \<Rightarrow> quorum_certificate \<Rightarrow> ('tx, 'tx consensus_event list) hs" where
  "on_proposal C b parent_qc =
     (if \<not> qc_verify C parent_qc then sfail (Err (InvalidQC (block_number b)))
      else
        let round = block_number b in
        sbind (sget (\<lambda>s. proposer_for_round C (hs_validator_set s) round)) (\<lambda>p. sbind (slift p) (\<lambda>proposer.
        if block_coinbase b \<noteq> proposer then sfail (Err (InvalidProposer round))
        else sbind (sget (\<lambda>s. valset_contains (hs_validator_set s) proposer)) (\<lambda>member.
        if \<not> member then sfail (Err (InvalidProposer round))
        else
          then_st (smod (\<lambda>s. s\<lparr>hs_block_store := store_add C b (hs_block_store s)\<rparr>))
          (sbind (hs_vote C \<lparr>vd_block_hash = block_hash (cr_keccak C) b, vd_block_number = round, vd_phase = 0,
                            vd_epoch = bh_epoch (bl_header b)\<rparr> parent_qc)
             (\<lambda>v. sret [VoteCast v]))))))"

text \<open>\<^verbatim>\<open>if let Ok(v) = self.safety_rules.vote(...)\<close>: a refused vote is not an error.\<close>

definition try_vote :: "crypto \<Rightarrow> vote_data \<Rightarrow> quorum_certificate \<Rightarrow> ('tx, 'tx consensus_event list) hs" where
  "try_vote C d q s = (case hs_vote C d q s of (Inr v, s') \<Rightarrow> (Inr [VoteCast v], s') | (Inl _, s') \<Rightarrow> (Inr [], s'))"

definition on_qc :: "crypto \<Rightarrow> quorum_certificate \<Rightarrow> ('tx, 'tx consensus_event list) hs" where
  "on_qc C qc s =
     (let next_data = \<lambda>phase. \<lparr>vd_block_hash = qc_block_hash qc, vd_block_number = qc_block_number qc, vd_phase = phase,
                               vd_epoch = rs_epoch (pm_current (hs_pacemaker s))\<rparr> in
      if qc_phase qc = 0 then
        try_vote C (next_data 1) qc
          (s\<lparr>hs_safety_rules := update_locked_qc qc (hs_safety_rules s), hs_highest_qc := Some qc\<rparr>)
      else if qc_phase qc = 1 then try_vote C (next_data 2) qc s
      else if qc_phase qc = 2 then
        (case store_get (hs_block_store s) (qc_block_hash qc) of
           None \<Rightarrow> (Inr [], s)
         | Some b \<Rightarrow>
             if hs_committed_height s < block_number b then
               (Inr [Committed b qc],
                s\<lparr>hs_committed_height := block_number b,
                  hs_pacemaker := pm_advance_round (block_number b + 1) (vd_epoch (qc_vote_data qc)) (hs_pacemaker s)\<rparr>)
             else (Inr [], s))
      else (Inl (Err InvalidMessage), s))"

text \<open>The accumulator a vote is counted in is the one of its round and phase, created for the data of the first vote.\<close>

definition count_vote :: "crypto \<Rightarrow> vote \<Rightarrow> bytes \<Rightarrow> ('tx, 'tx consensus_event list) hs" where
  "count_vote C v pk s =
     (let key = (vd_block_number (vt_data v), vd_phase (vt_data v));
          acc = (case hs_vote_accumulators s key of Some a \<Rightarrow> a
                 | None \<Rightarrow> accumulator_new (vt_data v) (vs_quorum (hs_validator_set s)));
          (r, acc) = add_vote C v pk acc;
          s = s\<lparr>hs_vote_accumulators := (hs_vote_accumulators s)(key \<mapsto> acc)\<rparr>
      in (case r of Inl e \<Rightarrow> (Inl e, s) | Inr None \<Rightarrow> (Inr [], s) | Inr (Some qc) \<Rightarrow> on_qc C qc s))"

definition on_vote :: "crypto \<Rightarrow> vote \<Rightarrow> bytes \<Rightarrow> ('tx, 'tx consensus_event list) hs" where
  "on_vote C v pk s =
     (if \<not> valset_contains (hs_validator_set s) (vt_voter v) then
        (Inr [], s\<lparr>hs_dropped_non_validator := sat_add64 (hs_dropped_non_validator s) 1\<rparr>)
      else if hs_validator_pubkeys s (vt_voter v) = None then
        (Inr [], s\<lparr>hs_dropped_unregistered := sat_add64 (hs_dropped_unregistered s) 1\<rparr>)
      else if hs_validator_pubkeys s (vt_voter v) \<noteq> Some pk then
        (Inr [], s\<lparr>hs_dropped_pubkey_mismatch := sat_add64 (hs_dropped_pubkey_mismatch s) 1\<rparr>)
      else if \<not> vote_valid C v pk then
        (Inr [], s\<lparr>hs_dropped_invalid_sig := sat_add64 (hs_dropped_invalid_sig s) 1\<rparr>)
      else
        let ek = (vd_block_number (vt_data v), vd_phase (vt_data v), vt_voter v) in
        (case hs_seen_votes s ek of
           Some (prev_hash, prev_vote, _) \<Rightarrow>
             if prev_hash \<noteq> vd_block_hash (vt_data v) then
               (Inl (Err (RemoteEquivocation (vt_voter prev_vote) (vd_block_number (vt_data prev_vote)) (vd_phase (vt_data prev_vote))
                  (vd_block_hash (vt_data prev_vote)) (vd_block_hash (vt_data v)))), s)
             else count_vote C v pk s
         | None \<Rightarrow> count_vote C v pk (s\<lparr>hs_seen_votes := (hs_seen_votes s)(ek \<mapsto> (vd_block_hash (vt_data v), v, pk))\<rparr>)))"

definition hs_on_timeout :: "'tx hotstuff \<Rightarrow> 'tx consensus_event \<times> 'tx hotstuff" where
  "hs_on_timeout s = (let (timed_out, p) = pm_on_timeout (hs_pacemaker s) in (TimeoutEvent timed_out, s\<lparr>hs_pacemaker := p\<rparr>))"

definition is_proposer :: "crypto \<Rightarrow> 'tx hotstuff \<Rightarrow> (consensus_error, bool) res" where
  "is_proposer C s = rbind (proposer_for_round C (hs_validator_set s) (rs_round (pm_current (hs_pacemaker s)))) (\<lambda>a. Inr (a = hs_my_address s))"

end
