(* ===== verification/Vote_Props.thy ===== *)
theory Vote_Props
  imports Vote
begin

text \<open>
  What the safety rules guarantee of the votes of one validator, whatever the order in which
  proposals, certificates and epoch changes reach it: within an epoch it never signs two votes for
  the same round and phase.  Across an epoch change it can.
\<close>

section \<open>Runs of the safety rules\<close>

datatype safety_op =
    CastVote vote_data quorum_certificate
  | LockQc quorum_certificate
  | NewEpoch u64

fun safety_exec :: "crypto \<Rightarrow> safety_op \<Rightarrow> safety_rules \<Rightarrow> vote list \<times> safety_rules" where
  "safety_exec C (CastVote d q) r = (case safety_vote C d q r of (Inr v, r') \<Rightarrow> ([v], r') | (Inl _, r') \<Rightarrow> ([], r'))"
| "safety_exec C (LockQc q) r = ([], update_locked_qc q r)"
| "safety_exec C (NewEpoch e) r = ([], safety_advance_epoch e r)"

fun safety_run :: "crypto \<Rightarrow> safety_op list \<Rightarrow> safety_rules \<Rightarrow> vote list \<times> safety_rules" where
  "safety_run C [] r = ([], r)"
| "safety_run C (p # ps) r = (let (vs, r') = safety_exec C p r; (ws, r'') = safety_run C ps r' in (vs @ ws, r''))"

definition vote_key :: "vote \<Rightarrow> u64 \<times> byte" where
  "vote_key v = (vd_block_number (vt_data v), vd_phase (vt_data v))"

definition vote_round :: "vote \<Rightarrow> u64" where
  "vote_round v = vd_block_number (vt_data v)"

definition signed_by :: "crypto \<Rightarrow> safety_rules \<Rightarrow> vote \<Rightarrow> bool" where
  "signed_by C r v \<longleftrightarrow> vt_voter v = sr_address r \<and>
     vt_signature v = cr_sign C (sr_priv_key r) (cr_keccak C (signing_bytes (vt_data v)))"

text \<open>How one operation moves the state: identity and locks are kept, and the votes it emits are recorded.\<close>

lemma safety_exec_step:
  assumes "safety_exec C p r = (vs, r')" "\<forall>e. p = NewEpoch e \<longrightarrow> e \<le> ss_epoch (sr_state r)"
  shows "sr_address r' = sr_address r" "sr_priv_key r' = sr_priv_key r" "ss_epoch (sr_state r') = ss_epoch (sr_state r)"
    "ss_locked_round (sr_state r) \<le> ss_locked_round (sr_state r')"
    "ss_voted_phases (sr_state r') = ss_voted_phases (sr_state r) \<union> vote_key ` set vs"
    "ss_highest_vote_round (sr_state r) \<le> ss_highest_vote_round (sr_state r')"
    "\<And>v. v \<in> set vs \<Longrightarrow> vs = [v] \<and> vote_key v \<notin> ss_voted_phases (sr_state r) \<and> signed_by C r v \<and>
       ss_highest_vote_round (sr_state r) \<le> vote_round v \<and> ss_highest_vote_round (sr_state r') = vote_round v"
  using assms
  by (cases p; auto simp: safety_vote_def update_locked_qc_def safety_advance_epoch_def Let_def vote_key_def vote_round_def
      signed_by_def not_less split: if_splits prod.splits sum.splits; fail)+

text \<open>The votes of a run: fresh, in order, one per round and phase, and signed by the validator.\<close>

definition votes_from :: "crypto \<Rightarrow> safety_rules \<Rightarrow> vote list \<Rightarrow> bool" where
  "votes_from C r vs \<longleftrightarrow> distinct (map vote_key vs) \<and> sorted (map vote_round vs) \<and>
     (\<forall>v\<in>set vs. vote_key v \<notin> ss_voted_phases (sr_state r) \<and> signed_by C r v \<and> ss_highest_vote_round (sr_state r) \<le> vote_round v)"

lemma votes_from_step:
  assumes "safety_exec C p r = (us, r1)" "\<forall>e. p = NewEpoch e \<longrightarrow> e \<le> ss_epoch (sr_state r)" "votes_from C r1 ws"
  shows "votes_from C r (us @ ws)"
proof -
  note st = safety_exec_step [OF assms(1,2)]
  have sb: "signed_by C r1 v \<longleftrightarrow> signed_by C r v" for v by (simp add: signed_by_def st(1,2))
  have ws: "distinct (map vote_key ws)" "sorted (map vote_round ws)"
    "\<And>v. v \<in> set ws \<Longrightarrow> vote_key v \<notin> ss_voted_phases (sr_state r) \<union> vote_key ` set us \<and> signed_by C r v \<and>
       ss_highest_vote_round (sr_state r1) \<le> vote_round v"
    using assms(3) unfolding votes_from_def st(5) sb by auto
  show ?thesis
  proof (cases us)
    case Nil
    then show ?thesis using ws st(6) unfolding votes_from_def by (auto intro: order_trans)
  next
    case (Cons v us')
    then have "us = [v]" using st(7) [of v] by simp
    moreover have "vote_key v \<notin> ss_voted_phases (sr_state r)" "signed_by C r v" "ss_highest_vote_round (sr_state r) \<le> vote_round v"
      and h: "ss_highest_vote_round (sr_state r1) = vote_round v" using st(7) [of v] Cons by simp_all
    moreover have "ss_highest_vote_round (sr_state r) \<le> vote_round w" if "w \<in> set ws" for w
      using order_trans [OF st(6), of "vote_round w"] ws(3) [OF that] by blast
    ultimately show ?thesis using ws unfolding votes_from_def h by fastforce
  qed
qed

lemma safety_run_votes:
  assumes "safety_run C ops r = (vs, r')" "\<And>e. NewEpoch e \<in> set ops \<Longrightarrow> e \<le> ss_epoch (sr_state r)"
  shows "votes_from C r vs"
  using assms
proof (induction ops arbitrary: r vs)
  case (Cons p ps)
  obtain us r1 where p: "safety_exec C p r = (us, r1)" by fastforce
  obtain ws where ps: "safety_run C ps r1 = (ws, r')" and vs: "vs = us @ ws" using Cons.prems(1) p by (auto split: prod.splits)
  have "ss_epoch (sr_state r1) = ss_epoch (sr_state r)" using safety_exec_step(3) [OF p] Cons.prems(2) by simp
  then have "votes_from C r1 ws" using Cons.prems(2) by (intro Cons.IH [OF ps]) simp
  then show ?case unfolding vs using Cons.prems(2) by (intro votes_from_step [OF p]) simp_all
qed (simp add: votes_from_def)

text \<open>Evidence needs two votes of one round and phase for different blocks.\<close>

lemma evidence_verify_iff:
  "evidence_verify C e \<longleftrightarrow> vt_voter (ev_vote_a e) = ev_validator e \<and> vt_voter (ev_vote_b e) = ev_validator e \<and>
     vote_key (ev_vote_a e) = (ev_round e, ev_phase e) \<and> vote_key (ev_vote_b e) = (ev_round e, ev_phase e) \<and>
     vd_block_hash (vt_data (ev_vote_a e)) \<noteq> vd_block_hash (vt_data (ev_vote_b e)) \<and>
     vote_valid C (ev_vote_a e) (ev_pubkey e) \<and> vote_valid C (ev_vote_b e) (ev_pubkey e)"
  by (auto simp: evidence_verify_def vote_key_def Let_def)

text \<open>C12. Whatever sequence of proposals to vote on, certificates to lock on and (stale) epoch messages a validator
  processes within an epoch, its safety rules sign at most one vote per round and phase, in rounds
  that never decrease, all under its own key, and no two of its votes make up evidence of equivocation.\<close>

theorem safety_rules_no_equivocation:
  assumes "safety_run C ops r = (vs, r')" "\<And>e. NewEpoch e \<in> set ops \<Longrightarrow> e \<le> ss_epoch (sr_state r)"
  shows "distinct (map vote_key vs) \<and> sorted (map vote_round vs) \<and> (\<forall>v\<in>set vs. signed_by C r v) \<and>
    (\<forall>e. ev_vote_a e \<in> set vs \<and> ev_vote_b e \<in> set vs \<longrightarrow> \<not> evidence_verify C e)"
proof -
  have v: "votes_from C r vs" by (rule safety_run_votes [OF assms])
  have "\<not> evidence_verify C e" if m: "ev_vote_a e \<in> set vs" "ev_vote_b e \<in> set vs" for e
  proof
    assume "evidence_verify C e"
    then have k: "vote_key (ev_vote_a e) = vote_key (ev_vote_b e)"
      and h: "vd_block_hash (vt_data (ev_vote_a e)) \<noteq> vd_block_hash (vt_data (ev_vote_b e))"
      by (simp_all add: evidence_verify_iff)
    have "inj_on vote_key (set vs)" using v unfolding votes_from_def distinct_map by blast
    from inj_onD [OF this k m] h show False by simp
  qed
  then show ?thesis using v unfolding votes_from_def by blast
qed

text \<open>A toy signature scheme for concrete runs.\<close>

definition demo_crypto :: crypto where
  "demo_crypto = \<lparr>cr_keccak = id, cr_to_pubkey = id, cr_sign = (\<lambda>k m. k @ m), cr_verify_single = (\<lambda>s pk m. s = pk @ m),
     cr_verify_aggregate = (\<lambda>s pks m. s = concat (map (\<lambda>pk. pk @ m) pks)), cr_aggregate_signatures = (\<lambda>ss. Some (concat ss))\<rparr>"

definition demo_data :: "byte \<Rightarrow> u64 \<Rightarrow> byte \<Rightarrow> u64 \<Rightarrow> vote_data" where
  "demo_data h n p e = \<lparr>vd_block_hash = replicate 32 h, vd_block_number = n, vd_phase = p, vd_epoch = e\<rparr>"

definition demo_qc :: "vote_data \<Rightarrow> quorum_certificate" where
  "demo_qc d = \<lparr>qc_vote_data = d, qc_agg_signature = [], qc_signers = [], qc_signer_pubkeys = []\<rparr>"

theorem safety_rules_no_equivocation_witness:
  "let vs = fst (safety_run demo_crypto [CastVote (demo_data 1 5 0 0) (demo_qc (demo_data 0 4 0 0)), CastVote (demo_data 2 5 0 0) (demo_qc (demo_data 0 4 0 0)),
       CastVote (demo_data 1 5 1 0) (demo_qc (demo_data 1 5 0 0))] (safety_new demo_crypto [7] [9]))
   in length vs = 2 \<and> distinct (map vote_key vs)"
proof -
  let ?ops = "[CastVote (demo_data 1 5 0 0) (demo_qc (demo_data 0 4 0 0)), CastVote (demo_data 2 5 0 0) (demo_qc (demo_data 0 4 0 0)),
       CastVote (demo_data 1 5 1 0) (demo_qc (demo_data 1 5 0 0))]"
  obtain vs r where run: "safety_run demo_crypto ?ops (safety_new demo_crypto [7] [9]) = (vs, r)" by fastforce
  have "distinct (map vote_key vs)" using safety_rules_no_equivocation [OF run] by simp
  moreover have "length (fst (safety_run demo_crypto ?ops (safety_new demo_crypto [7] [9]))) = 2" by code_simp
  ultimately show ?thesis by (simp only: run fst_conv Let_def)
qed

text \<open>C32. An epoch change clears the record of votes but the rounds go on, so the rules let a validator that
  has voted in a round vote again in it for another block once the epoch has advanced; the evidence check
  ignores epochs, accepts the pair, and makes the rule-abiding validator slashable.\<close>

theorem epoch_change_allows_equivocation:
  assumes "signs_correctly C" "g \<noteq> h"
  shows "\<exists>a b. fst (safety_run C [NewEpoch 1,
        CastVote \<lparr>vd_block_hash = g, vd_block_number = 5, vd_phase = 0, vd_epoch = 1\<rparr> (demo_qc (demo_data 0 4 0 1)), NewEpoch 2,
        CastVote \<lparr>vd_block_hash = h, vd_block_number = 5, vd_phase = 0, vd_epoch = 2\<rparr> (demo_qc (demo_data 0 4 0 2))]
        (safety_new C k x)) = [a, b] \<and>
      evidence_verify C \<lparr>ev_validator = x, ev_round = 5, ev_phase = 0, ev_vote_a = a, ev_vote_b = b, ev_pubkey = cr_to_pubkey C k\<rparr>"
  using assms
  by (simp add: evidence_verify_iff vote_key_def vote_valid_def signs_correctly_def safety_vote_def safety_advance_epoch_def
      safety_new_def safety_default_def Let_def qc_block_number_def demo_qc_def demo_data_def)

theorem epoch_change_allows_equivocation_witness:
  "signs_correctly demo_crypto \<and> (\<exists>e. ev_vote_a e \<noteq> ev_vote_b e \<and> evidence_verify demo_crypto e)"
proof -
  have s: "signs_correctly demo_crypto" by (simp add: signs_correctly_def demo_crypto_def)
  from epoch_change_allows_equivocation [OF s, of "[1]" "[2]" "[7]" "[9]"] obtain a b where
    e: "evidence_verify demo_crypto \<lparr>ev_validator = [9], ev_round = 5, ev_phase = 0, ev_vote_a = a, ev_vote_b = b,
      ev_pubkey = cr_to_pubkey demo_crypto [7]\<rparr>" by auto
  then have "a \<noteq> b" by (auto simp: evidence_verify_iff)
  with e s show ?thesis by (metis equivocation_evidence.select_convs(4,5))
qed

end
