(* ===== verification/Hotstuff_Props.thy ===== *)
theory Hotstuff_Props
  imports Hotstuff Vote_Props "HOL-Library.Sublist"
begin

text \<open>
  Accountable safety of the HotStuff driver.  A quorum rule is the interface between validator sets and
  certificates: any two quorums share more than a third of the validators.  Every certificate on which a
  node commits is backed by a quorum of distinct registered validators with valid signatures, so
  two nodes that commit different blocks in one round can convict more than a third of the set.
  The counting of votes has a weak point on the side of liveness, shown at the end.
\<close>

section \<open>Quorums\<close>

locale quorum_rule =
  fixes quorum :: "nat \<Rightarrow> nat"
  assumes two_thirds: "2 * n < 3 * quorum n"
begin

lemma quorums_intersect:
  assumes "finite V" "A \<subseteq> V" "B \<subseteq> V" "quorum (card V) \<le> card A" "quorum (card V) \<le> card B"
  shows "card V < 3 * card (A \<inter> B)"
proof -
  have f: "finite A" "finite B" using assms(1-3) finite_subset by auto
  have "card A + card B = card (A \<union> B) + card (A \<inter> B)" using f by (rule card_Un_Int)
  moreover have "card (A \<union> B) \<le> card V" using assms(1-3) by (intro card_mono) auto
  ultimately show ?thesis using two_thirds [of "card V"] assms(4,5) by linarith
qed

lemma honest_overlap:
  assumes "finite V" "A \<subseteq> V" "B \<subseteq> V" "quorum (card V) \<le> card A" "quorum (card V) \<le> card B"
    and "F \<subseteq> V" "3 * card F \<le> card V"
  shows "\<exists>x\<in>A \<inter> B. x \<notin> F"
proof (rule ccontr)
  assume "\<not> (\<exists>x\<in>A \<inter> B. x \<notin> F)"
  then have "A \<inter> B \<subseteq> F" by blast
  then have "card (A \<inter> B) \<le> card F" using assms(1,6) by (intro card_mono) (auto intro: finite_subset)
  with quorums_intersect [OF assms(1-5)] assms(7) show False by simp
qed

end

interpretation hsq: quorum_rule hotstuff_quorum
  by unfold_locales (simp add: hotstuff_quorum_def)

section \<open>Runs\<close>

datatype 'tx hs_op =
    Proposal "'tx block" quorum_certificate
  | RecvVote vote bytes
  | Register address bytes
  | RoundTimeout
  | PruneVotes u64
  | RotateSeed bytes
  | SetValidators "address list"

definition events_of :: "(consensus_error, 'tx consensus_event list) res \<Rightarrow> 'tx consensus_event list" where
  "events_of r = (case r of Inl _ \<Rightarrow> [] | Inr es \<Rightarrow> es)"

lemma events_of_simps [simp]: "events_of (Inl e) = []" "events_of (Inr es) = es"
  by (simp_all add: events_of_def)

fun hs_exec :: "crypto \<Rightarrow> 'tx hs_op \<Rightarrow> 'tx hotstuff \<Rightarrow> 'tx consensus_event list \<times> 'tx hotstuff" where
  "hs_exec C (Proposal b q) s = (let (r, s') = on_proposal C b q s in (events_of r, s'))"
| "hs_exec C (RecvVote v pk) s = (let (r, s') = on_vote C v pk s in (events_of r, s'))"
| "hs_exec C (Register a pk) s = ([], register_validator_pubkey a pk s)"
| "hs_exec C RoundTimeout s = (let (e, s') = hs_on_timeout s in ([e], s'))"
| "hs_exec C (PruneVotes n) s = ([], prune_seen_votes_below n s)"
| "hs_exec C (RotateSeed h) s = ([], rotate_epoch_seed h s)"
| "hs_exec C (SetValidators vs) s = ([], snd (update_validator_set vs s))"

fun hs_run :: "crypto \<Rightarrow> 'tx hs_op list \<Rightarrow> 'tx hotstuff \<Rightarrow> 'tx consensus_event list \<times> 'tx hotstuff" where
  "hs_run C [] s = ([], s)"
| "hs_run C (p # ps) s = (let (es, s') = hs_exec C p s; (fs, s'') = hs_run C ps s' in (es @ fs, s''))"

section \<open>What the handlers leave alone\<close>

text \<open>Casting votes and handling a certificate touch neither accumulators nor registry nor validator set.\<close>

definition hs_same :: "'tx hotstuff \<Rightarrow> 'tx hotstuff \<Rightarrow> bool" where
  "hs_same s s' \<longleftrightarrow> hs_vote_accumulators s' = hs_vote_accumulators s \<and> hs_validator_pubkeys s' = hs_validator_pubkeys s \<and>
     vs_validators (hs_validator_set s') = vs_validators (hs_validator_set s) \<and> vs_quorum (hs_validator_set s') = vs_quorum (hs_validator_set s)"

lemma hs_vote_same: "hs_same s (snd (hs_vote C d q s))"
  by (simp add: hs_same_def hs_vote_def split: prod.splits)

lemma try_vote_same: "hs_same s (snd (try_vote C d q s))" "Committed b c \<notin> set (events_of (fst (try_vote C d q s)))"
  using hs_vote_same [of s C d q] by (auto simp: try_vote_def hs_same_def split: prod.splits sum.splits)

lemma on_qc_same: "hs_same s (snd (on_qc C qc s))"
  using try_vote_same(1) [of "s\<lparr>hs_safety_rules := update_locked_qc qc (hs_safety_rules s), hs_highest_qc := Some qc\<rparr>" C]
    try_vote_same(1) [of s C]
  by (auto simp: on_qc_def Let_def hs_same_def split: option.splits)

lemma on_qc_commits:
  assumes "Committed b c \<in> set (events_of (fst (on_qc C qc s)))"
  shows "c = qc" "qc_phase qc = 2" "store_get (hs_block_store s) (qc_block_hash qc) = Some b" "hs_committed_height s < block_number b"
  using assms by (auto simp: on_qc_def Let_def try_vote_same(2) split: if_splits option.splits)

lemma on_proposal_same:
  "hs_same s (snd (on_proposal C b q s))" "Committed b' c \<notin> set (events_of (fst (on_proposal C b q s)))"
proof -
  have "hs_same s (snd (on_proposal C b q s)) \<and> Committed b' c \<notin> set (events_of (fst (on_proposal C b q s)))"
    using hs_vote_same
    by (auto simp: on_proposal_def Let_def sbind_def then_st_def sfail_def sget_def smod_def slift_def sret_def hs_same_def hs_vote_def
        split: sum.splits prod.splits)
  then show "hs_same s (snd (on_proposal C b q s))" "Committed b' c \<notin> set (events_of (fst (on_proposal C b q s)))" by blast+
qed

lemma on_proposal_seen: "hs_seen_votes (snd (on_proposal C b q s)) = hs_seen_votes s"
  by (auto simp: on_proposal_def Let_def sbind_def then_st_def sfail_def sget_def smod_def slift_def sret_def hs_vote_def split: sum.splits prod.splits)

section \<open>Counting votes\<close>

text \<open>The accumulator a vote is counted in: the one of its round and phase, new when there is none.\<close>

definition acc_for :: "'tx hotstuff \<Rightarrow> vote \<Rightarrow> vote_accumulator" where
  "acc_for s v = (case hs_vote_accumulators s (vote_key v) of Some a \<Rightarrow> a
     | None \<Rightarrow> accumulator_new (vt_data v) (vs_quorum (hs_validator_set s)))"

definition counted :: "crypto \<Rightarrow> vote \<Rightarrow> bytes \<Rightarrow> 'tx hotstuff \<Rightarrow> 'tx consensus_event list \<Rightarrow> 'tx hotstuff \<Rightarrow> bool" where
  "counted C v pk s es s' \<longleftrightarrow> valset_contains (hs_validator_set s) (vt_voter v) \<and> hs_validator_pubkeys s (vt_voter v) = Some pk \<and> vote_valid C v pk \<and>
     hs_same (s\<lparr>hs_vote_accumulators := (hs_vote_accumulators s)(vote_key v \<mapsto> snd (add_vote C v pk (acc_for s v)))\<rparr>) s' \<and>
     (\<forall>b c. Committed b c \<in> set es \<longrightarrow> fst (add_vote C v pk (acc_for s v)) = Inr (Some c) \<and> qc_phase c = 2)"

lemma count_vote_counted:
  assumes "valset_contains (hs_validator_set s) (vt_voter v)" "hs_validator_pubkeys s (vt_voter v) = Some pk" "vote_valid C v pk"
    and "count_vote C v pk s = (x, s')"
  shows "counted C v pk s (events_of x) s'"
proof -
  obtain r acc where a: "add_vote C v pk (acc_for s v) = (r, acc)" by fastforce
  define s1 where "s1 = s\<lparr>hs_vote_accumulators := (hs_vote_accumulators s)(vote_key v \<mapsto> acc)\<rparr>"
  have e: "(x, s') = (case r of Inl e \<Rightarrow> (Inl e, s1) | Inr None \<Rightarrow> (Inr [], s1) | Inr (Some qc) \<Rightarrow> on_qc C qc s1)"
    using assms(4) a unfolding count_vote_def Let_def vote_key_def acc_for_def s1_def by simp
  have "hs_same s1 s' \<and> (\<forall>b c. Committed b c \<in> set (events_of x) \<longrightarrow> r = Inr (Some c) \<and> qc_phase c = 2)"
  proof (cases "\<exists>q. r = Inr (Some q)")
    case True
    then obtain q where q: "r = Inr (Some q)" by blast
    then have o: "on_qc C q s1 = (x, s')" using e by simp
    show ?thesis using on_qc_same [of s1 C q] on_qc_commits(1,2) [of _ _ C q s1] unfolding q o by auto
  next
    case False
    then show ?thesis using e by (auto simp: hs_same_def split: sum.splits option.splits)
  qed
  then show ?thesis unfolding counted_def a fst_conv snd_conv s1_def using assms(1-3) by blast
qed

lemma on_vote_cases:
  assumes "on_vote C v pk s = (x, s')"
  shows "counted C v pk s (events_of x) s' \<or> hs_same s s' \<and> events_of x = []"
proof (cases "valset_contains (hs_validator_set s) (vt_voter v) \<and> hs_validator_pubkeys s (vt_voter v) = Some pk \<and> vote_valid C v pk")
  case True
  then have g: "valset_contains (hs_validator_set s) (vt_voter v)" "hs_validator_pubkeys s (vt_voter v) = Some pk" "vote_valid C v pk" by auto
  show ?thesis
  proof (cases "hs_seen_votes s (vd_block_number (vt_data v), vd_phase (vt_data v), vt_voter v)")
    case None
    define m where "m = (hs_seen_votes s)((vd_block_number (vt_data v), vd_phase (vt_data v), vt_voter v) \<mapsto> (vd_block_hash (vt_data v), v, pk))"
    have "count_vote C v pk (s\<lparr>hs_seen_votes := m\<rparr>) = (x, s')" using assms g None by (simp add: on_vote_def m_def)
    then have "counted C v pk (s\<lparr>hs_seen_votes := m\<rparr>) (events_of x) s'" using g by (intro count_vote_counted) simp_all
    moreover have "acc_for (s\<lparr>hs_seen_votes := m\<rparr>) v = acc_for s v" by (simp add: acc_for_def cong: option.case_cong)
    ultimately show ?thesis by (simp add: counted_def hs_same_def)
  next
    case (Some p)
    then show ?thesis
      using assms g count_vote_counted [OF g, of x s'] by (cases p) (auto simp: on_vote_def Let_def hs_same_def split: if_splits)
  qed
next
  case False
  then show ?thesis using assms unfolding on_vote_def by (auto simp: hs_same_def split: if_splits)
qed

section \<open>The invariant of the accumulators\<close>

text \<open>Every vote in an accumulator is valid, by a registered validator, for the accumulator's data, and one of the received votes \<open>R\<close>.\<close>

definition acc_ok :: "crypto \<Rightarrow> (vote \<times> bytes) set \<Rightarrow> 'tx hotstuff \<Rightarrow> u64 \<times> byte \<Rightarrow> vote_accumulator \<Rightarrow> bool" where
  "acc_ok C R s k a \<longleftrightarrow> (vd_block_number (va_data a), vd_phase (va_data a)) = k \<and> va_quorum a = vs_quorum (hs_validator_set s) \<and>
     distinct (map fst (va_votes a)) \<and>
     (\<forall>(x, v, pk)\<in>set (va_votes a). vt_voter v = x \<and> vt_data v = va_data a \<and> vote_valid C v pk \<and> (v, pk) \<in> R \<and>
        hs_validator_pubkeys s x = Some pk \<and> x \<in> set (vs_validators (hs_validator_set s)))"

definition hs_ok :: "crypto \<Rightarrow> (vote \<times> bytes) set \<Rightarrow> 'tx hotstuff \<Rightarrow> bool" where
  "hs_ok C R s \<longleftrightarrow> (\<forall>k a. hs_vote_accumulators s k = Some a \<longrightarrow> acc_ok C R s k a)"

text \<open>A certificate is backed by the state when its accumulator holds a quorum of votes for its data.\<close>

definition certified :: "'tx hotstuff \<Rightarrow> quorum_certificate \<Rightarrow> bool" where
  "certified s c \<longleftrightarrow> (\<exists>a. hs_vote_accumulators s (qc_block_number c, qc_phase c) = Some a \<and>
     va_data a = qc_vote_data c \<and> va_quorum a \<le> length (va_votes a))"

text \<open>How states evolve while the validator set stays: keys are never replaced and accumulators only gain votes.\<close>

definition hs_grows :: "'tx hotstuff \<Rightarrow> 'tx hotstuff \<Rightarrow> bool" where
  "hs_grows s s' \<longleftrightarrow> vs_validators (hs_validator_set s') = vs_validators (hs_validator_set s) \<and>
     vs_quorum (hs_validator_set s') = vs_quorum (hs_validator_set s) \<and> hs_validator_pubkeys s \<subseteq>\<^sub>m hs_validator_pubkeys s' \<and>
     (\<forall>k a. hs_vote_accumulators s k = Some a \<longrightarrow>
        (\<exists>a'. hs_vote_accumulators s' k = Some a' \<and> va_data a' = va_data a \<and> va_quorum a' = va_quorum a \<and> prefix (va_votes a) (va_votes a')))"

lemma hs_grows_refl: "hs_grows s s"
  by (simp add: hs_grows_def)

lemma hs_grows_trans:
  assumes g: "hs_grows s s'" and h: "hs_grows s' s''" shows "hs_grows s s''"
proof -
  have "\<exists>a''. hs_vote_accumulators s'' k = Some a'' \<and> va_data a'' = va_data a \<and> va_quorum a'' = va_quorum a \<and> prefix (va_votes a) (va_votes a'')"
    if k: "hs_vote_accumulators s k = Some a" for k a
  proof -
    obtain a' where a': "hs_vote_accumulators s' k = Some a'" "va_data a' = va_data a" "va_quorum a' = va_quorum a" "prefix (va_votes a) (va_votes a')"
      using g k unfolding hs_grows_def by blast
    obtain a'' where "hs_vote_accumulators s'' k = Some a''" "va_data a'' = va_data a'" "va_quorum a'' = va_quorum a'" "prefix (va_votes a') (va_votes a'')"
      using h a'(1) unfolding hs_grows_def by blast
    then show ?thesis using a' prefix_order.trans by auto
  qed
  moreover have "hs_validator_pubkeys s \<subseteq>\<^sub>m hs_validator_pubkeys s''"
    using g h map_le_trans unfolding hs_grows_def by blast
  ultimately show ?thesis using g h unfolding hs_grows_def by simp
qed

lemma certified_grows: "certified s c \<Longrightarrow> hs_grows s s' \<Longrightarrow> certified s' c"
proof -
  assume "certified s c" and g: "hs_grows s s'"
  then obtain a where a: "hs_vote_accumulators s (qc_block_number c, qc_phase c) = Some a" "va_data a = qc_vote_data c" "va_quorum a \<le> length (va_votes a)"
    unfolding certified_def by blast
  obtain a' where a': "hs_vote_accumulators s' (qc_block_number c, qc_phase c) = Some a'" "va_data a' = va_data a" "va_quorum a' = va_quorum a" "prefix (va_votes a) (va_votes a')"
    using g a(1) unfolding hs_grows_def by blast
  from a'(4) have "length (va_votes a) \<le> length (va_votes a')" by (rule prefix_length_le)
  then show "certified s' c" using a a' unfolding certified_def by simp
qed

lemma hs_same_grows: "hs_same s s' \<Longrightarrow> hs_grows s s'" "hs_same s s' \<Longrightarrow> hs_ok C R s' \<longleftrightarrow> hs_ok C R s"
  by (simp_all add: hs_same_def hs_grows_def hs_ok_def acc_ok_def)

lemma acc_ok_grows:
  assumes "acc_ok C R s k a" "hs_grows s s'" shows "acc_ok C R s' k a"
proof -
  have "hs_validator_pubkeys s' x = Some pk" if "hs_validator_pubkeys s x = Some pk" for x pk
    using assms(2) that unfolding hs_grows_def map_le_def by (metis domI)
  moreover have "vs_validators (hs_validator_set s') = vs_validators (hs_validator_set s)" "vs_quorum (hs_validator_set s') = vs_quorum (hs_validator_set s)"
    using assms(2) by (simp_all add: hs_grows_def)
  ultimately show ?thesis using assms(1) by (auto simp: acc_ok_def)
qed

lemma add_vote_cases:
  assumes "add_vote C v pk a = (r, a')"
  shows "va_data a' = va_data a" "va_quorum a' = va_quorum a"
    "a' = a \<or> va_votes a' = va_votes a @ [(vt_voter v, v, pk)] \<and> vt_data v = va_data a \<and> vt_voter v \<notin> fst ` set (va_votes a)"
    "r = Inr (Some c) \<Longrightarrow> qc_vote_data c = va_data a' \<and> va_quorum a' \<le> length (va_votes a')"
  using assms by (auto simp: add_vote_def Let_def form_qc_def res_simps split: if_splits option.splits)

lemma counted_grows:
  assumes "counted C v pk s es s'"
  shows "hs_grows s s'"
proof -
  obtain r a' where a: "add_vote C v pk (acc_for s v) = (r, a')" by fastforce
  have s': "hs_same (s\<lparr>hs_vote_accumulators := (hs_vote_accumulators s)(vote_key v \<mapsto> a')\<rparr>) s'"
    using assms by (simp add: counted_def a)
  have "prefix (va_votes (acc_for s v)) (va_votes a')" using add_vote_cases(3) [OF a] by auto
  then have "hs_grows s (s\<lparr>hs_vote_accumulators := (hs_vote_accumulators s)(vote_key v \<mapsto> a')\<rparr>)"
    using add_vote_cases(1,2) [OF a] by (auto simp: hs_grows_def acc_for_def)
  then show ?thesis by (rule hs_grows_trans) (rule hs_same_grows(1) [OF s'])
qed

lemma counted_ok:
  assumes "counted C v pk s es s'" "hs_ok C R s" "(v, pk) \<in> R"
  shows "hs_ok C R s'" "Committed b c \<in> set es \<Longrightarrow> certified s' c \<and> qc_phase c = 2"
proof -
  obtain r a' where a: "add_vote C v pk (acc_for s v) = (r, a')" by fastforce
  let ?s = "s\<lparr>hs_vote_accumulators := (hs_vote_accumulators s)(vote_key v \<mapsto> a')\<rparr>"
  have s': "hs_same ?s s'" using assms(1) by (simp add: counted_def a)
  have g: "vt_voter v \<in> set (vs_validators (hs_validator_set s))" "hs_validator_pubkeys s (vt_voter v) = Some pk" "vote_valid C v pk"
    using assms(1) by (simp_all add: counted_def valset_contains_def)
  have "acc_ok C R s (vote_key v) (acc_for s v)"
    using assms(2) by (auto simp: hs_ok_def acc_for_def acc_ok_def accumulator_new_def vote_key_def split: option.splits)
  then have ok: "acc_ok C R s (vote_key v) a'"
    using add_vote_cases(1-3) [OF a] g assms(3) by (auto simp: acc_ok_def)
  have "acc_ok C R ?s k x = acc_ok C R s k x" for k x by (simp add: acc_ok_def)
  then have "hs_ok C R ?s" using assms(2) ok by (auto simp: hs_ok_def)
  then show "hs_ok C R s'" using hs_same_grows(2) [OF s'] by blast
  show "certified s' c \<and> qc_phase c = 2" if "Committed b c \<in> set es"
  proof -
    have r: "r = Inr (Some c)" "qc_phase c = 2" using assms(1) that by (simp_all add: counted_def a)
    have "vote_key v = (qc_block_number c, qc_phase c)"
      using ok add_vote_cases(4) [OF a r(1)] by (auto simp: acc_ok_def qc_block_number_def qc_phase_def)
    then show ?thesis using s' add_vote_cases(4) [OF a r(1)] r(2) by (auto simp: certified_def hs_same_def)
  qed
qed

lemma hs_exec_step:
  assumes "hs_exec C p s = (es, s')" "\<forall>vs. p \<noteq> SetValidators vs" "\<forall>v pk. p = RecvVote v pk \<longrightarrow> (v, pk) \<in> R"
  shows "hs_grows s s'" "hs_ok C R s \<Longrightarrow> hs_ok C R s'" "hs_ok C R s \<Longrightarrow> Committed b c \<in> set es \<Longrightarrow> certified s' c \<and> qc_phase c = 2"
proof -
  have "hs_grows s s' \<and> (hs_ok C R s \<longrightarrow> hs_ok C R s' \<and> (Committed b c \<in> set es \<longrightarrow> certified s' c \<and> qc_phase c = 2))"
  proof (cases p)
    case (Proposal x q)
    then have "hs_same s s'" "Committed b c \<notin> set es"
      using assms(1) on_proposal_same(1) [of s C x q] on_proposal_same(2) [of b c C x q s] by (auto split: prod.splits)
    then show ?thesis using hs_same_grows(1) [of s s'] hs_same_grows(2) [of s s' C R] by simp
  next
    case (RecvVote v pk)
    then obtain x where x: "on_vote C v pk s = (x, s')" "es = events_of x" using assms(1) by (auto split: prod.splits)
    from on_vote_cases [OF x(1)] show ?thesis
      using counted_grows [of C v pk s es s'] counted_ok [of C v pk s es s' R] hs_same_grows(1) [of s s'] hs_same_grows(2) [of s s' C R] x(2) assms(3) RecvVote by auto
  next
    case (Register x pk)
    then have s': "s' = register_validator_pubkey x pk s" "es = []" using assms(1) by simp_all
    then have "hs_grows s s'" by (auto simp: register_validator_pubkey_def hs_grows_def map_le_def split: option.splits)
    moreover have "hs_vote_accumulators s' = hs_vote_accumulators s" by (auto simp: s' register_validator_pubkey_def split: option.splits)
    ultimately show ?thesis using s'(2) acc_ok_grows [of C R s _ _ s'] unfolding hs_ok_def by auto
  next
    case RoundTimeout
    then have "hs_same s s'" "Committed b c \<notin> set es" using assms(1) by (auto simp: hs_on_timeout_def hs_same_def split: prod.splits)
    then show ?thesis using hs_same_grows(1) [of s s'] hs_same_grows(2) [of s s' C R] by simp
  next
    case (PruneVotes n)
    then have "hs_same s s'" "es = []" using assms(1) by (auto simp: prune_seen_votes_below_def hs_same_def)
    then show ?thesis using hs_same_grows(1) [of s s'] hs_same_grows(2) [of s s' C R] by simp
  next
    case (RotateSeed h)
    then have "hs_same s s'" "es = []" using assms(1) by (auto simp: rotate_epoch_seed_def hs_same_def)
    then show ?thesis using hs_same_grows(1) [of s s'] hs_same_grows(2) [of s s' C R] by simp
  qed (use assms(2) in blast)
  then show "hs_grows s s'" "hs_ok C R s \<Longrightarrow> hs_ok C R s'" "hs_ok C R s \<Longrightarrow> Committed b c \<in> set es \<Longrightarrow> certified s' c \<and> qc_phase c = 2"
    by blast+
qed

lemma hs_run_ok:
  assumes "hs_run C ops s = (es, s')" "\<forall>vs. SetValidators vs \<notin> set ops" "\<forall>v pk. RecvVote v pk \<in> set ops \<longrightarrow> (v, pk) \<in> R" "hs_ok C R s"
  shows "hs_grows s s' \<and> hs_ok C R s' \<and> (\<forall>b c. Committed b c \<in> set es \<longrightarrow> certified s' c \<and> qc_phase c = 2)"
  using assms
proof (induction ops arbitrary: s es)
  case (Cons p ps)
  obtain fs s1 where p: "hs_exec C p s = (fs, s1)" by (cases "hs_exec C p s")
  obtain gs where ps: "hs_run C ps s1 = (gs, s')" and es: "es = fs @ gs" using Cons.prems(1) p by (auto split: prod.splits)
  have n: "\<forall>vs. p \<noteq> SetValidators vs" "\<forall>v pk. p = RecvVote v pk \<longrightarrow> (v, pk) \<in> R" "\<forall>vs. SetValidators vs \<notin> set ps" "\<forall>v pk. RecvVote v pk \<in> set ps \<longrightarrow> (v, pk) \<in> R"
    using Cons.prems(2,3) by auto
  note st = hs_exec_step [OF p n(1,2)]
  from Cons.IH [OF ps n(3,4) st(2) [OF Cons.prems(4)]]
  have ih: "hs_grows s1 s'" "hs_ok C R s'" "\<And>b c. Committed b c \<in> set gs \<Longrightarrow> certified s' c \<and> qc_phase c = 2" by blast+
  have "certified s' c \<and> qc_phase c = 2" if "Committed b c \<in> set es" for b c
    using that st(3) [OF Cons.prems(4), of b c] ih(3) [of b c] certified_grows [OF _ ih(1), of c] unfolding es by auto
  then show ?case using hs_grows_trans [OF st(1) ih(1)] ih(2) by blast
qed (auto simp: hs_grows_refl)

lemma hotstuff_new_ok: "hs_ok C R (hotstuff_new x r v)"
  by (simp add: hs_ok_def hotstuff_new_def)

section \<open>The block store\<close>

text \<open>Stored blocks are found under their hash, so a certificate commits the block it names.\<close>

definition store_ok :: "crypto \<Rightarrow> 'tx hotstuff \<Rightarrow> bool" where
  "store_ok C s \<longleftrightarrow> (\<forall>h b. store_get (hs_block_store s) h = Some b \<longrightarrow> block_hash (cr_keccak C) b = h)"

lemma map_of_filter_key: "map_of (filter (\<lambda>(k, _). k \<noteq> z) xs) h = (if h = z then None else map_of xs h)"
  by (induction xs) auto

lemma store_add_get:
  "store_get (store_add C b s) h = Some x \<Longrightarrow> store_get s h = Some x \<or> x = b \<and> h = block_hash (cr_keccak C) b"
  by (auto simp: store_get_def store_add_def Let_def map_of_filter_key split: if_splits list.splits)

lemma try_vote_store: "hs_block_store (snd (try_vote C d q s)) = hs_block_store s"
  by (auto simp: try_vote_def hs_vote_def split: sum.splits prod.splits)

lemma on_qc_store: "hs_block_store (snd (on_qc C qc s)) = hs_block_store s"
  by (simp add: on_qc_def try_vote_store Let_def split: option.splits)

lemma on_vote_store:
  assumes "on_vote C v pk s = (x, s')"
  shows "hs_block_store s' = hs_block_store s" "Committed b c \<in> set (events_of x) \<Longrightarrow> store_get (hs_block_store s) (qc_block_hash c) = Some b"
proof -
  have c: "hs_block_store s' = hs_block_store s \<and> (Committed b c \<in> set (events_of x) \<longrightarrow> store_get (hs_block_store s) (qc_block_hash c) = Some b)"
    if cv: "count_vote C v pk t = (x, s')" and t: "hs_block_store t = hs_block_store s" for t
  proof -
    obtain r acc where a: "add_vote C v pk (case hs_vote_accumulators t (vd_block_number (vt_data v), vd_phase (vt_data v)) of Some a \<Rightarrow> a
        | None \<Rightarrow> accumulator_new (vt_data v) (vs_quorum (hs_validator_set t))) = (r, acc)" by fastforce
    define t1 where "t1 = t\<lparr>hs_vote_accumulators := (hs_vote_accumulators t)((vd_block_number (vt_data v), vd_phase (vt_data v)) \<mapsto> acc)\<rparr>"
    have t1: "hs_block_store t1 = hs_block_store s" by (simp add: t1_def t)
    have e: "(x, s') = (case r of Inl e \<Rightarrow> (Inl e, t1) | Inr None \<Rightarrow> (Inr [], t1) | Inr (Some qc) \<Rightarrow> on_qc C qc t1)"
      using cv a unfolding count_vote_def Let_def t1_def by simp
    show ?thesis
    proof (cases "\<exists>qc. r = Inr (Some qc)")
      case True
      then obtain qc where qc: "on_qc C qc t1 = (x, s')" using e by auto
      show ?thesis using on_qc_store [of C qc t1] on_qc_commits(1,3) [of b c C qc t1] t1 unfolding qc by auto
    next
      case False
      then show ?thesis using e t1 by (auto split: sum.splits option.splits)
    qed
  qed
  have "hs_block_store s' = hs_block_store s \<and> (Committed b c \<in> set (events_of x) \<longrightarrow> store_get (hs_block_store s) (qc_block_hash c) = Some b)"
    using assms c unfolding on_vote_def Let_def by (auto split: if_splits option.splits prod.splits)
  then show "hs_block_store s' = hs_block_store s" "Committed b c \<in> set (events_of x) \<Longrightarrow> store_get (hs_block_store s) (qc_block_hash c) = Some b" by blast+
qed

lemma on_proposal_store: "store_ok C s \<Longrightarrow> store_ok C (snd (on_proposal C b q s))"
  by (auto simp: store_ok_def on_proposal_def Let_def sbind_def then_st_def sfail_def sget_def smod_def slift_def sret_def hs_vote_def
      dest!: store_add_get split: sum.splits prod.splits)

lemma hs_run_store:
  assumes "hs_run C ops s = (es, s')" "store_ok C s"
  shows "store_ok C s' \<and> (\<forall>b c. Committed b c \<in> set es \<longrightarrow> block_hash (cr_keccak C) b = qc_block_hash c)"
  using assms
proof (induction ops arbitrary: s es)
  case (Cons p ps)
  obtain fs s1 where p: "hs_exec C p s = (fs, s1)" by (cases "hs_exec C p s")
  obtain gs where ps: "hs_run C ps s1 = (gs, s')" and es: "es = fs @ gs" using Cons.prems(1) p by (auto split: prod.splits)
  have "store_ok C s1 \<and> (\<forall>b c. Committed b c \<in> set fs \<longrightarrow> block_hash (cr_keccak C) b = qc_block_hash c)"
  proof (cases p)
    case (Proposal x q)
    then obtain y where "on_proposal C x q s = (y, s1)" "fs = events_of y" using p by (auto split: prod.splits)
    then show ?thesis using on_proposal_store [OF Cons.prems(2), of x q] on_proposal_same(2) [of _ _ C x q s] by auto
  next
    case (RecvVote v pk)
    then obtain y where y: "on_vote C v pk s = (y, s1)" "fs = events_of y" using p by (auto split: prod.splits)
    show ?thesis using on_vote_store [OF y(1)] Cons.prems(2) unfolding store_ok_def y(2) by auto
  next
    case (Register x pk)
    then show ?thesis using p Cons.prems(2) by (auto simp: register_validator_pubkey_def store_ok_def split: option.splits if_splits)
  next
    case (SetValidators vs)
    then show ?thesis using p Cons.prems(2) by (auto simp: update_validator_set_def store_ok_def split: sum.splits)
  qed (use p Cons.prems(2) in \<open>auto simp: hs_on_timeout_def prune_seen_votes_below_def rotate_epoch_seed_def store_ok_def split: prod.splits\<close>)
  then show ?case using Cons.IH [OF ps] by (auto simp: es)
qed simp

lemma hotstuff_new_store: "store_ok C (hotstuff_new x r v)"
  by (simp add: store_ok_def hotstuff_new_def store_get_def store_new_def)

section \<open>Accountable safety\<close>

text \<open>The validators that back a certificate.\<close>

definition backers :: "'tx hotstuff \<Rightarrow> quorum_certificate \<Rightarrow> address set" where
  "backers s c = (case hs_vote_accumulators s (qc_block_number c, qc_phase c) of None \<Rightarrow> {} | Some a \<Rightarrow> fst ` set (va_votes a))"

lemma backers_quorum:
  assumes "hs_ok C R s" "certified s c"
  shows "backers s c \<subseteq> set (vs_validators (hs_validator_set s))" "vs_quorum (hs_validator_set s) \<le> card (backers s c)"
    "x \<in> backers s c \<Longrightarrow> \<exists>v pk. vt_voter v = x \<and> vt_data v = qc_vote_data c \<and> vote_valid C v pk \<and> (v, pk) \<in> R \<and> hs_validator_pubkeys s x = Some pk"
proof -
  obtain a where a: "hs_vote_accumulators s (qc_block_number c, qc_phase c) = Some a" "va_data a = qc_vote_data c"
    "va_quorum a \<le> length (va_votes a)" using assms(2) by (auto simp: certified_def)
  have ok: "acc_ok C R s (qc_block_number c, qc_phase c) a" using assms(1) a(1) by (simp add: hs_ok_def)
  have b: "backers s c = set (map fst (va_votes a))" by (simp add: backers_def a(1))
  show "backers s c \<subseteq> set (vs_validators (hs_validator_set s))" using ok unfolding b by (auto simp: acc_ok_def)
  have "card (backers s c) = length (va_votes a)"
    using ok distinct_card [of "map fst (va_votes a)"] unfolding b by (simp add: acc_ok_def)
  then show "vs_quorum (hs_validator_set s) \<le> card (backers s c)" using ok a(3) by (simp add: acc_ok_def)
  show "x \<in> backers s c \<Longrightarrow> \<exists>v pk. vt_voter v = x \<and> vt_data v = qc_vote_data c \<and> vote_valid C v pk \<and> (v, pk) \<in> R \<and> hs_validator_pubkeys s x = Some pk"
    using ok a(2) unfolding b by (fastforce simp: acc_ok_def)
qed

text \<open>Two received votes that convict a validator under its registered key.\<close>

definition convicts :: "crypto \<Rightarrow> 'tx hs_op list \<Rightarrow> 'tx hs_op list \<Rightarrow> u64 \<Rightarrow> address \<Rightarrow> bytes option \<Rightarrow> bool" where
  "convicts C ops ops' n x key \<longleftrightarrow> (\<exists>v w pk. RecvVote v pk \<in> set ops \<and> RecvVote w pk \<in> set ops' \<and> key = Some pk \<and>
     evidence_verify C \<lparr>ev_validator = x, ev_round = n, ev_phase = 2, ev_vote_a = v, ev_vote_b = w, ev_pubkey = pk\<rparr>)"

lemma two_votes_convict:
  assumes "hs_ok C {(v, pk). RecvVote v pk \<in> set ops} s" "certified s c" "hs_ok C {(v, pk). RecvVote v pk \<in> set ops'} t" "certified t d" "x \<in> backers s c" "x \<in> backers t d"
    and "hs_validator_pubkeys s x = hs_validator_pubkeys t x"
    and "qc_block_number c = qc_block_number d" "qc_phase c = 2" "qc_phase d = 2" "qc_block_hash c \<noteq> qc_block_hash d"
  shows "convicts C ops ops' (qc_block_number c) x (hs_validator_pubkeys s x)"
proof -
  obtain v pk where v: "vt_voter v = x" "vt_data v = qc_vote_data c" "vote_valid C v pk" "RecvVote v pk \<in> set ops" "hs_validator_pubkeys s x = Some pk"
    using backers_quorum(3) [OF assms(1,2,5)] by blast
  obtain w qk where w: "vt_voter w = x" "vt_data w = qc_vote_data d" "vote_valid C w qk" "RecvVote w qk \<in> set ops'" "hs_validator_pubkeys t x = Some qk"
    using backers_quorum(3) [OF assms(3,4,6)] by blast
  have k: "qk = pk" using v(5) w(5) assms(7) by simp
  have "evidence_verify C \<lparr>ev_validator = x, ev_round = qc_block_number c, ev_phase = 2, ev_vote_a = v, ev_vote_b = w, ev_pubkey = pk\<rparr>"
    using v w k assms(7-11) by (simp add: evidence_verify_iff vote_key_def qc_block_number_def qc_phase_def qc_block_hash_def)
  then show ?thesis using v(4,5) w(4) k unfolding convicts_def by blast
qed

lemma conflict_convicts:
  assumes "valset_new V = Inr vs" "distinct V"
    and "hs_run C ops (hotstuff_new x rules vs) = (es, s)" "\<forall>a. SetValidators a \<notin> set ops"
    and "hs_run C ops' (hotstuff_new x' rules' vs) = (es', s')" "\<forall>a. SetValidators a \<notin> set ops'"
    and "\<forall>a\<in>set V. hs_validator_pubkeys s a = hs_validator_pubkeys s' a"
    and "Committed b c \<in> set es" "Committed b' c' \<in> set es'"
    and "qc_block_number c = qc_block_number c'" "qc_block_hash c \<noteq> qc_block_hash c'"
  shows "\<exists>E\<subseteq>set V. length V < 3 * card E \<and> (\<forall>a\<in>E. convicts C ops ops' (qc_block_number c) a (hs_validator_pubkeys s a))"
proof -
  have vs: "vs_validators vs = V" "vs_quorum vs = hotstuff_quorum (length V)"
    using assms(1) by (auto simp: valset_new_def split: if_splits)
  have n: "card (set V) = length V" using assms(2) by (rule distinct_card)
  let ?R = "\<lambda>ops. {(v, pk). RecvVote v pk \<in> set ops}"
  have 1: "hs_grows (hotstuff_new x rules vs) s" "hs_ok C (?R ops) s" "certified s c" "qc_phase c = 2"
    using hs_run_ok [OF assms(3,4) _ hotstuff_new_ok, of "?R ops"] assms(8) by blast+
  have 2: "hs_grows (hotstuff_new x' rules' vs) s'" "hs_ok C (?R ops') s'" "certified s' c'" "qc_phase c' = 2"
    using hs_run_ok [OF assms(5,6) _ hotstuff_new_ok, of "?R ops'"] assms(9) by blast+
  have set1: "vs_validators (hs_validator_set s) = V" "vs_quorum (hs_validator_set s) = hotstuff_quorum (length V)"
    and set2: "vs_validators (hs_validator_set s') = V" "vs_quorum (hs_validator_set s') = hotstuff_quorum (length V)"
    using 1(1) 2(1) vs by (simp_all add: hs_grows_def hotstuff_new_def)
  note q1 = backers_quorum(1,2) [OF 1(2,3), unfolded set1] and q2 = backers_quorum(1,2) [OF 2(2,3), unfolded set2]
  have l: "length V < 3 * card (backers s c \<inter> backers s' c')"
    using hsq.quorums_intersect [OF _ q1(1) q2(1)] q1(2) q2(2) by (simp add: n)
  have m: "backers s c \<inter> backers s' c' \<subseteq> set V" using q1(1) by blast
  have e: "convicts C ops ops' (qc_block_number c) a (hs_validator_pubkeys s a)" if "a \<in> backers s c \<inter> backers s' c'" for a
    using that q1(1) assms(7,10,11) 1(4) 2(4) by (intro two_votes_convict [OF 1(2,3) 2(2,3)]) auto
  show ?thesis by (rule exI [of _ "backers s c \<inter> backers s' c'"]) (intro conjI ballI l m e)
qed

text \<open>C3. Accountable safety: if two nodes with the same validator set and the same registered keys, whatever
  messages reached each of them and in whatever order, commit on certificates of one round for different blocks,
  then more than a third of the validators have signed two conflicting votes: for each of them one vote
  received by the one node and one received by the other make up evidence of equivocation that verifies under its registered key.\<close>

theorem accountable_safety:
  assumes "valset_new V = Inr vs" "distinct V"
    and "hs_run C ops (hotstuff_new x rules vs) = (es, s)" "\<forall>a. SetValidators a \<notin> set ops"
    and "hs_run C ops' (hotstuff_new x' rules' vs) = (es', s')" "\<forall>a. SetValidators a \<notin> set ops'"
    and "\<forall>a\<in>set V. hs_validator_pubkeys s a = hs_validator_pubkeys s' a"
    and "Committed b c \<in> set es" "Committed b' c' \<in> set es'"
    and "qc_block_number c = qc_block_number c'" "qc_block_hash c \<noteq> qc_block_hash c'"
  shows "\<exists>E\<subseteq>set V. length V < 3 * card E \<and> (\<forall>a\<in>E. convicts C ops ops' (qc_block_number c) a (hs_validator_pubkeys s a))"
  using conflict_convicts [OF assms] .

text \<open>A node with the single validator \<open>demo_val\<close> commits the block that the validator's vote of phase 2 names.\<close>

definition demo_val :: address where
  "demo_val = replicate 20 9"

definition demo_block :: "byte \<Rightarrow> bytes \<Rightarrow> unit block" where
  "demo_block h g = \<lparr>bl_header = (bl_header (block_genesis zero_hash 0 :: unit block))\<lparr>bh_parent_hash := replicate 32 h, bh_number := 5, bh_coinbase := demo_val,
       bh_committee_signature := g\<rparr>,
     bl_transactions = [], bl_uncles = []\<rparr>"

definition demo_bh :: "byte \<Rightarrow> bytes" where
  "demo_bh h = block_hash id (demo_block h [])"

definition demo_vote :: "byte \<Rightarrow> vote" where
  "demo_vote h = (let d = \<lparr>vd_block_hash = demo_bh h, vd_block_number = 5, vd_phase = 2, vd_epoch = 0\<rparr>
     in \<lparr>vt_data = d, vt_voter = demo_val, vt_signature = 7 # signing_bytes d\<rparr>)"

definition demo_cert :: "byte \<Rightarrow> quorum_certificate" where
  "demo_cert h = \<lparr>qc_vote_data = vt_data (demo_vote h), qc_agg_signature = vt_signature (demo_vote h), qc_signers = [demo_val], qc_signer_pubkeys = [[7]]\<rparr>"

definition demo_ops :: "byte \<Rightarrow> bytes \<Rightarrow> unit hs_op list" where
  "demo_ops h g = [Register demo_val [7], Proposal (demo_block h g) (demo_qc (demo_data 0 4 2 0)), RecvVote (demo_vote h) [7]]"

definition demo_set :: validator_set where
  "demo_set = \<lparr>vs_validators = [demo_val], vs_quorum = 1, vs_epoch_seed = zero_hash\<rparr>"

definition demo_node :: "unit hotstuff" where
  "demo_node = hotstuff_new [8] (safety_new demo_crypto [6] [8]) demo_set"

lemma demo_set_new: "valset_new [demo_val] = Inr demo_set"
  by (simp add: valset_new_def hotstuff_quorum_def demo_set_def)

lemma demo_block_simps: "block_number (demo_block h g) = 5" "block_coinbase (demo_block h g) = demo_val" "bh_epoch (bl_header (demo_block h g)) = 0"
  "block_hash id (demo_block h g) = demo_bh h"
  by (simp_all add: demo_block_def block_number_def block_coinbase_def block_genesis_def demo_bh_def block_hash_def header_hash_def canonical_encode_def)

lemma demo_hashes: "demo_bh 1 \<noteq> demo_bh 2"
proof -
  have "hd (demo_bh h) = h" for h
    by (simp add: demo_bh_def block_hash_def header_hash_def canonical_encode_def demo_block_def hd_append)
  from this [of 1] this [of 2] show ?thesis by auto
qed

lemma demo_commits:
  obtains es s where "hs_run demo_crypto (demo_ops h g) demo_node = (es, s)" "Committed (demo_block h g) (demo_cert h) \<in> set es"
    "hs_validator_pubkeys s = [demo_val \<mapsto> [7]]"
proof -
  have c: "cr_keccak demo_crypto = id" "cr_verify_single demo_crypto sg pk m \<longleftrightarrow> sg = pk @ m"
    "cr_aggregate_signatures demo_crypto ss = Some (concat ss)" for sg pk m ss by (simp_all add: demo_crypto_def)
  have "\<exists>es s. hs_run demo_crypto (demo_ops h g) demo_node = (es, s) \<and> Committed (demo_block h g) (demo_cert h) \<in> set es \<and>
    hs_validator_pubkeys s = [demo_val \<mapsto> [7]]"
    by (simp add: demo_ops_def demo_node_def hotstuff_new_def demo_set_def register_validator_pubkey_def on_proposal_def qc_verify_def demo_qc_def
      demo_data_def demo_block_simps proposer_for_round_def index_chk_def valset_contains_def sbind_def then_st_def sget_def smod_def slift_def
      sret_def sfail_def store_add_def store_new_def hs_vote_def safety_vote_def safety_new_def safety_default_def qc_block_number_def c Let_def
      on_vote_def count_vote_def demo_vote_def demo_cert_def vote_valid_def accumulator_new_def add_vote_def form_qc_def on_qc_def qc_phase_def
      qc_block_hash_def store_get_def res_simps)
  then show thesis using that by blast
qed

theorem accountable_safety_witness:
  "\<exists>E\<subseteq>{demo_val}. 1 < 3 * card E \<and> (\<forall>a\<in>E. convicts demo_crypto (demo_ops 1 []) (demo_ops 2 []) 5 a (Some [7]))"
proof -
  obtain es s where r: "hs_run demo_crypto (demo_ops 1 []) demo_node = (es, s)" "Committed (demo_block 1 []) (demo_cert 1) \<in> set es"
    "hs_validator_pubkeys s = [demo_val \<mapsto> [7]]" by (rule demo_commits)
  obtain fs t where r': "hs_run demo_crypto (demo_ops 2 []) demo_node = (fs, t)" "Committed (demo_block 2 []) (demo_cert 2) \<in> set fs"
    "hs_validator_pubkeys t = [demo_val \<mapsto> [7]]" by (rule demo_commits)
  have n: "\<forall>a. SetValidators a \<notin> set (demo_ops h [])" for h by (simp add: demo_ops_def)
  have q: "qc_block_number (demo_cert h) = 5" "qc_block_hash (demo_cert h) = demo_bh h" for h
    by (simp_all add: qc_block_number_def qc_block_hash_def demo_cert_def demo_vote_def Let_def)
  have "\<exists>E\<subseteq>set [demo_val]. length [demo_val :: address] < 3 * card E \<and> (\<forall>a\<in>E. convicts demo_crypto (demo_ops 1 []) (demo_ops 2 []) (qc_block_number (demo_cert 1)) a (hs_validator_pubkeys s a))"
    using accountable_safety [OF demo_set_new _ r(1) [unfolded demo_node_def] n r'(1) [unfolded demo_node_def] n _ r(2) r'(2)]
      demo_hashes r(3) r'(3) q by simp
  then show ?thesis unfolding q(1) r(3) by fastforce
qed

section \<open>The first vote decides the round\<close>

lemma on_vote_opens:
  assumes "on_vote C v pk s = (x, s')" "hs_vote_accumulators s (vote_key v) = None" "hs_seen_votes s (vd_block_number (vt_data v), vd_phase (vt_data v), vt_voter v) = None"
    and "valset_contains (hs_validator_set s) (vt_voter v)" "hs_validator_pubkeys s (vt_voter v) = Some pk" "vote_valid C v pk"
  obtains a where "hs_vote_accumulators s' (vote_key v) = Some a" "va_data a = vt_data v"
proof -
  define m where "m = (hs_seen_votes s)((vd_block_number (vt_data v), vd_phase (vt_data v), vt_voter v) \<mapsto> (vd_block_hash (vt_data v), v, pk))"
  have "count_vote C v pk (s\<lparr>hs_seen_votes := m\<rparr>) = (x, s')" using assms by (simp add: on_vote_def m_def)
  then have c: "counted C v pk (s\<lparr>hs_seen_votes := m\<rparr>) (events_of x) s'" using assms(4-6) by (intro count_vote_counted) simp_all
  obtain r a where a: "add_vote C v pk (acc_for (s\<lparr>hs_seen_votes := m\<rparr>) v) = (r, a)" by fastforce
  have "va_data (acc_for (s\<lparr>hs_seen_votes := m\<rparr>) v) = vt_data v" using assms(2) by (simp add: acc_for_def accumulator_new_def)
  then have "va_data a = vt_data v" using add_vote_cases(1) [OF a] by simp
  moreover have "hs_vote_accumulators s' (vote_key v) = Some a" using c by (simp add: counted_def hs_same_def a)
  ultimately show thesis using that by blast
qed

text \<open>C31. The first vote of a round decides it: once a valid vote of phase 2 by any one registered validator
  is the first to be counted for its round, no later sequence of messages, however many honest
  votes for another block it holds, makes the node commit another block, or even the same block in
  another epoch, on a certificate of that round.  One faulty validator that votes first can so keep a round from committing.\<close>

theorem first_vote_decides_round:
  assumes "hs_run C ops (hotstuff_new x rules vs) = (es, s)" "\<forall>a. SetValidators a \<notin> set ops"
    and "hs_vote_accumulators s (vote_key v) = None" "hs_seen_votes s (vd_block_number (vt_data v), vd_phase (vt_data v), vt_voter v) = None"
    and "valset_contains (hs_validator_set s) (vt_voter v)" "hs_validator_pubkeys s (vt_voter v) = Some pk" "vote_valid C v pk"
    and "hs_run C (RecvVote v pk # ops') s = (es', s')" "\<forall>a. SetValidators a \<notin> set ops'"
    and "Committed b c \<in> set es'" "qc_block_number c = vd_block_number (vt_data v)" "vd_phase (vt_data v) = 2"
  shows "qc_vote_data c = vt_data v"
proof -
  have ok: "hs_ok C UNIV s" using hs_run_ok [OF assms(1,2) _ hotstuff_new_ok, of UNIV] by blast
  obtain y s1 where y: "on_vote C v pk s = (y, s1)" by fastforce
  obtain fs where f: "hs_run C ops' s1 = (fs, s')" using assms(8) y by (auto split: prod.splits)
  have e: "hs_exec C (RecvVote v pk) s = (events_of y, s1)" by (simp add: y)
  have "hs_ok C UNIV s1" using hs_exec_step(2) [OF e _ _ ok] by simp
  from hs_run_ok [OF f assms(9) _ this] have g: "hs_grows s1 s'" by blast
  obtain a where a: "hs_vote_accumulators s1 (vote_key v) = Some a" "va_data a = vt_data v"
    using on_vote_opens [OF y assms(3-7)] .
  obtain a' where a': "hs_vote_accumulators s' (vote_key v) = Some a'" "va_data a' = vt_data v"
    using g a(1) unfolding hs_grows_def a(2) [symmetric] by blast
  have "certified s' c" "qc_phase c = 2" using hs_run_ok [OF assms(8) _ _ ok] assms(9,10) by auto
  then show ?thesis using a' assms(11,12) by (simp add: certified_def vote_key_def)
qed

theorem first_vote_decides_round_witness:
  "\<exists>es' s'. hs_run demo_crypto (demo_ops 1 []) demo_node = (es', s') \<and> Committed (demo_block 1 []) (demo_cert 1) \<in> set es' \<and>
     qc_vote_data (demo_cert 1) = vt_data (demo_vote 1)"
proof -
  have c: "cr_keccak demo_crypto = id" "cr_verify_single demo_crypto sg pk m \<longleftrightarrow> sg = pk @ m" for sg pk m by (simp_all add: demo_crypto_def)
  let ?ops = "[Register demo_val [7], Proposal (demo_block 1 []) (demo_qc (demo_data 0 4 2 0))]"
  obtain es s where s: "hs_run demo_crypto ?ops demo_node = (es, s)" by fastforce
  obtain fs t where f: "hs_run demo_crypto [RecvVote (demo_vote 1) [7]] s = (fs, t)" by fastforce
  have "hs_run demo_crypto (demo_ops 1 []) demo_node = (es @ fs, t)"
    using s f by (auto simp: demo_ops_def split: prod.splits)
  moreover obtain y where y: "on_proposal demo_crypto (demo_block 1 []) (demo_qc (demo_data 0 4 2 0)) (register_validator_pubkey demo_val [7] demo_node) = (y, s)"
    "es = events_of y" using s by (auto split: prod.splits)
  note p = on_proposal_same(1) [of "register_validator_pubkey demo_val [7] demo_node" demo_crypto "demo_block 1 []" "demo_qc (demo_data 0 4 2 0)", unfolded y(1)]
    on_proposal_same(2) [of "demo_block 1 []" "demo_cert 1" demo_crypto "demo_block 1 []" "demo_qc (demo_data 0 4 2 0)" "register_validator_pubkey demo_val [7] demo_node", unfolded y(1)]
    on_proposal_seen [of demo_crypto "demo_block 1 []" "demo_qc (demo_data 0 4 2 0)" "register_validator_pubkey demo_val [7] demo_node", unfolded y(1)]
  ultimately have fs: "Committed (demo_block 1 []) (demo_cert 1) \<in> set fs" using y(2) demo_commits [of 1 "[]"] by auto
  have st: "hs_same (register_validator_pubkey demo_val [7] demo_node) s" "hs_seen_votes s = Map.empty"
    using p(1,3) by (simp_all add: demo_node_def hotstuff_new_def register_validator_pubkey_def)
  have "qc_vote_data (demo_cert 1) = vt_data (demo_vote 1)"
    using first_vote_decides_round [OF s [unfolded demo_node_def] _ _ _ _ _ _ f _ fs] st
    by (simp add: hs_same_def demo_node_def hotstuff_new_def register_validator_pubkey_def demo_set_def valset_contains_def
      demo_vote_def demo_cert_def Let_def vote_valid_def c qc_block_number_def)
  then show ?thesis using demo_commits [of 1 "[]"] by metis
qed

end
