(* ===== verification/Amm.thy ===== *)
theory Amm
  imports Machine
begin

text \<open>
  The constant-product pair of the exchange (zbx-pool: \<^verbatim>\<open>error.rs\<close>, \<^verbatim>\<open>fee.rs\<close>, \<^verbatim>\<open>security.rs\<close>,
  \<^verbatim>\<open>pair.rs\<close>).  Amounts are words of 128 bits; the arithmetic wraps where the code uses the plain
  operators and is checked or saturating where the code says so.  An operation on a pair returns its
  result together with the pair it leaves behind, also when it fails.
\<close>

section \<open>Errors\<close>

datatype amm_error =
    Reentrancy
  | PoolPaused string
  | PriceImpactTooHigh u32 u32
  | SlippageExceeded u128 u128
  | DeadlineExpired u64 u64
  | ReserveDrainExceeded u32 u32
  | OraclePriceDeviation u32 u32
  | AmmOverflow
  | DivisionByZero
  | InvariantOverflow
  | PoolAlreadyExists
  | IdenticalTokens
  | InsufficientCreationFee u128 u128
  | EmptyReserve
  | InsufficientLiquidityBurned
  | InsufficientLpBalance
  | BelowMinLiquidity
  | ZeroAmount
  | ZeroOutput
  | InvariantViolation
  | ZeroAddressTransfer
  | PairNotFound

section \<open>Fees\<close>

datatype fee_tier = Lowest | Standard | High

fun fee_bps :: "fee_tier \<Rightarrow> u32" where
  "fee_bps Lowest = 5"
| "fee_bps Standard = 30"
| "fee_bps High = 100"

definition protocol_bps :: "fee_tier \<Rightarrow> u32" where
  "protocol_bps tier = fee_bps tier div 5"

definition lp_bps :: "fee_tier \<Rightarrow> u32" where
  "lp_bps tier = fee_bps tier - protocol_bps tier"

definition split_fee :: "u128 \<Rightarrow> fee_tier \<Rightarrow> u128 \<times> u128" where
  "split_fee amount_in tier =
     (let total_fee = amount_in * ucast (fee_bps tier) div 10000;
          protocol = amount_in * ucast (protocol_bps tier) div 10000
      in (sat_sub128 total_fee protocol, protocol))"

section \<open>Guards\<close>

definition MIN_LIQUIDITY :: u128 where
  "MIN_LIQUIDITY = 1000"

definition MAX_PRICE_IMPACT_BPS :: u32 where
  "MAX_PRICE_IMPACT_BPS = 3000"

definition MAX_ORACLE_DEVIATION_BPS :: u32 where
  "MAX_ORACLE_DEVIATION_BPS = 1500"

definition MAX_RESERVE_DRAIN_BPS :: u32 where
  "MAX_RESERVE_DRAIN_BPS = 3000"

definition check_price_impact :: "u128 \<Rightarrow> u128 \<Rightarrow> (amm_error, unit) res" where
  "check_price_impact amount_in reserve_in =
     (if reserve_in = 0 then Inl (Err EmptyReserve)
      else
        let denom = sat_add128 reserve_in amount_in;
            impact_bps = sat_mul128 amount_in 10000 div denom
        in if MAX_PRICE_IMPACT_BPS < ucast impact_bps
           then Inl (Err (PriceImpactTooHigh (ucast impact_bps) MAX_PRICE_IMPACT_BPS)) else Inr ())"

definition check_slippage :: "u128 \<Rightarrow> u128 \<Rightarrow> (amm_error, unit) res" where
  "check_slippage amount_out min_amount_out =
     (if amount_out < min_amount_out then Inl (Err (SlippageExceeded amount_out min_amount_out)) else Inr ())"

definition check_deadline :: "u64 \<Rightarrow> u64 \<Rightarrow> (amm_error, unit) res" where
  "check_deadline block_timestamp deadline =
     (if deadline < block_timestamp then Inl (Err (DeadlineExpired block_timestamp deadline)) else Inr ())"

definition check_reserve_drain :: "u128 \<Rightarrow> u128 \<Rightarrow> (amm_error, unit) res" where
  "check_reserve_drain amount_out reserve_out =
     (if reserve_out = 0 then Inl (Err EmptyReserve)
      else
        let drain_bps = sat_mul128 amount_out 10000 div reserve_out
        in if MAX_RESERVE_DRAIN_BPS < ucast drain_bps
           then Inl (Err (ReserveDrainExceeded (ucast drain_bps) MAX_RESERVE_DRAIN_BPS)) else Inr ())"

definition check_oracle_deviation :: "u128 \<Rightarrow> u128 \<Rightarrow> (amm_error, unit) res" where
  "check_oracle_deviation pool_spot oracle_price =
     (if oracle_price = 0 then Inr ()
      else if pool_spot = 0 then Inl (Err (OraclePriceDeviation 10000 MAX_ORACLE_DEVIATION_BPS))
      else
        let diff = (if oracle_price < pool_spot then pool_spot - oracle_price else oracle_price - pool_spot);
            deviation_bps = sat_mul128 diff 10000 div oracle_price
        in if MAX_ORACLE_DEVIATION_BPS < ucast deviation_bps
           then Inl (Err (OraclePriceDeviation (ucast deviation_bps) MAX_ORACLE_DEVIATION_BPS)) else Inr ())"

definition safe_mul_div :: "u128 \<Rightarrow> u128 \<Rightarrow> u128 \<Rightarrow> (amm_error, u128) res" where
  "safe_mul_div a b c =
     (if c = 0 then Inl (Err DivisionByZero)
      else rbind (ok_or AmmOverflow (checked_mul128 a b)) (\<lambda>num. Inr (num div c)))"

record circuit_breaker =
  cb_paused :: bool
  cb_reason :: "string option"
  cb_since_block :: u64

definition circuit_new :: circuit_breaker where
  "circuit_new = \<lparr>cb_paused = False, cb_reason = None, cb_since_block = 0\<rparr>"

definition circuit_trip :: "string \<Rightarrow> u64 \<Rightarrow> circuit_breaker \<Rightarrow> circuit_breaker" where
  "circuit_trip reason block c = c\<lparr>cb_paused := True, cb_reason := Some reason, cb_since_block := block\<rparr>"

definition circuit_clear :: "circuit_breaker \<Rightarrow> circuit_breaker" where
  "circuit_clear c = c\<lparr>cb_paused := False, cb_reason := None, cb_since_block := 0\<rparr>"

definition circuit_check :: "circuit_breaker \<Rightarrow> (amm_error, unit) res" where
  "circuit_check c =
     (if cb_paused c then Inl (Err (PoolPaused (case cb_reason c of None \<Rightarrow> '''' | Some r \<Rightarrow> r))) else Inr ())"

section \<open>Pairs\<close>

record pair_id =
  token_a :: address
  token_b :: address

definition pair_id_new :: "address \<Rightarrow> address \<Rightarrow> pair_id" where
  "pair_id_new a b = (if bytes_less a b then \<lparr>token_a = a, token_b = b\<rparr> else \<lparr>token_a = b, token_b = a\<rparr>)"

record swap_params =
  sp_a_to_b :: bool
  sp_amount_in :: u128
  sp_min_amount_out :: u128
  sp_deadline :: u64
  sp_oracle_twap :: u128
  sp_block_timestamp :: u64

record add_liquidity_params =
  ap_amount_a :: u128
  ap_amount_b :: u128
  ap_min_lp_out :: u128
  ap_deadline :: u64
  ap_block_timestamp :: u64

record remove_liquidity_params =
  rp_lp_amount :: u128
  rp_min_a_out :: u128
  rp_min_b_out :: u128
  rp_deadline :: u64
  rp_block_timestamp :: u64

record swap_result =
  sw_amount_out :: u128
  sw_lp_fee :: u128
  sw_protocol_fee :: u128
  sw_new_reserve_a :: u128
  sw_new_reserve_b :: u128

record add_liquidity_result =
  al_lp_minted :: u128
  al_used_a :: u128
  al_used_b :: u128

record remove_liquidity_result =
  rl_amount_a :: u128
  rl_amount_b :: u128

text \<open>The reentrancy guard is its flag.\<close>

record pair =
  pr_id :: pair_id
  pr_reserve_a :: u128
  pr_reserve_b :: u128
  pr_total_lp :: u128
  pr_fee_a :: u128
  pr_fee_b :: u128
  pr_fee_tier :: fee_tier
  pr_locked :: bool
  pr_circuit :: circuit_breaker

type_synonym 'a amm = "(pair, amm_error, 'a) st"

definition pair_new :: "pair_id \<Rightarrow> fee_tier \<Rightarrow> pair" where
  "pair_new i tier = \<lparr>pr_id = i, pr_reserve_a = 0, pr_reserve_b = 0, pr_total_lp = 0, pr_fee_a = 0, pr_fee_b = 0,
     pr_fee_tier = tier, pr_locked = False, pr_circuit = circuit_new\<rparr>"

definition guard_acquire :: "unit amm" where
  "guard_acquire p = (if pr_locked p then (Inl (Err Reentrancy), p) else (Inr (), p\<lparr>pr_locked := True\<rparr>))"

definition guard_release :: "pair \<Rightarrow> pair" where
  "guard_release p = p\<lparr>pr_locked := False\<rparr>"

text \<open>The frame that \<^verbatim>\<open>swap\<close>, \<^verbatim>\<open>add_liquidity\<close> and \<^verbatim>\<open>remove_liquidity\<close> share: circuit breaker, lock, body,
  release.\<close>

definition guarded :: "'a amm \<Rightarrow> 'a amm" where
  "guarded body p =
     (case circuit_check (pr_circuit p) of
        Inl e \<Rightarrow> (Inl e, p)
      | Inr _ \<Rightarrow>
          (case guard_acquire p of
             (Inl e, p1) \<Rightarrow> (Inl e, p1)
           | (Inr _, p1) \<Rightarrow> let (r, p2) = body p1 in (r, guard_release p2)))"

definition spot_price_a_in_b :: "pair \<Rightarrow> u128" where
  "spot_price_a_in_b p =
     (if pr_reserve_a p = 0 then 0
      else case checked_mul128 (pr_reserve_b p) 1000000000000000000 of
        Some v \<Rightarrow> v div pr_reserve_a p
      | None \<Rightarrow>
          let scaled = sat_mul128 (pr_reserve_b p div 1000000) 1000000000000
          in sat_mul128 (scaled div pr_reserve_a p) 1000000)"

text \<open>The formula of \<^verbatim>\<open>swap_inner\<close>, which \<^verbatim>\<open>get_amount_out\<close> repeats.\<close>

definition amount_out_of :: "fee_tier \<Rightarrow> u128 \<Rightarrow> u128 \<Rightarrow> u128 \<Rightarrow> u128 option" where
  "amount_out_of tier r_in r_out amount_in =
     Option.bind (checked_mul128 amount_in (10000 - ucast (fee_bps tier))) (\<lambda>dx_fee.
     Option.bind (checked_mul128 dx_fee r_out) (\<lambda>numerator.
     Option.bind (checked_mul128 r_in 10000) (\<lambda>x.
     Option.bind (checked_add128 x dx_fee) (\<lambda>denom. Some (numerator div denom)))))"

definition reserves_for :: "bool \<Rightarrow> pair \<Rightarrow> u128 \<times> u128" where
  "reserves_for a_to_b p = (if a_to_b then (pr_reserve_a p, pr_reserve_b p) else (pr_reserve_b p, pr_reserve_a p))"

text \<open>The checks of \<^verbatim>\<open>swap_inner\<close> up to the slippage check read the pair only; they give the amount out.\<close>

definition swap_checks :: "swap_params \<Rightarrow> pair \<Rightarrow> (amm_error, u128) res" where
  "swap_checks p self =
     rbind (check_deadline (sp_block_timestamp p) (sp_deadline p)) (\<lambda>_.
     if sp_amount_in p = 0 then Inl (Err ZeroAmount)
     else
       let (r_in, r_out) = reserves_for (sp_a_to_b p) self in
       if r_in = 0 \<or> r_out = 0 then Inl (Err EmptyReserve)
       else
         rbind (check_oracle_deviation (spot_price_a_in_b self) (sp_oracle_twap p)) (\<lambda>_.
         rbind (check_price_impact (sp_amount_in p) r_in) (\<lambda>_.
         rbind (ok_or AmmOverflow (amount_out_of (pr_fee_tier self) r_in r_out (sp_amount_in p))) (\<lambda>amount_out.
         if amount_out = 0 then Inl (Err ZeroOutput)
         else
           rbind (check_reserve_drain amount_out r_out) (\<lambda>_.
           rbind (check_slippage amount_out (sp_min_amount_out p)) (\<lambda>_. Inr amount_out))))))"

text \<open>The rest of \<^verbatim>\<open>swap_inner\<close>: the protocol's fee is booked before the product of the new reserves is checked.\<close>

definition swap_settle :: "swap_params \<Rightarrow> u128 \<Rightarrow> swap_result amm" where
  "swap_settle p amount_out self =
     (let (lp_fee, protocol_fee) = split_fee (sp_amount_in p) (pr_fee_tier self) in
      case checked_mul128 (pr_reserve_a self) (pr_reserve_b self) of
        None \<Rightarrow> (Inl (Err InvariantOverflow), self)
      | Some old_k \<Rightarrow>
          (case (if sp_a_to_b p then checked_add128 (pr_reserve_a self) (sp_amount_in p)
                 else checked_add128 (pr_reserve_b self) (sp_amount_in p)) of
             None \<Rightarrow> (Inl (Err AmmOverflow), self)
           | Some r_in \<Rightarrow>
               (case (if sp_a_to_b p then checked_sub128 (pr_reserve_b self) amount_out
                      else checked_sub128 (pr_reserve_a self) amount_out) of
                  None \<Rightarrow> (Inl (Err InsufficientLiquidityBurned), self)
                | Some r_out \<Rightarrow>
                    let self = (if sp_a_to_b p then self\<lparr>pr_fee_a := pr_fee_a self + protocol_fee\<rparr>
                                else self\<lparr>pr_fee_b := pr_fee_b self + protocol_fee\<rparr>);
                        (new_ra, new_rb) = (if sp_a_to_b p then (r_in, r_out) else (r_out, r_in))
                    in (case checked_mul128 new_ra new_rb of
                          None \<Rightarrow> (Inl (Err InvariantOverflow), self)
                        | Some new_k \<Rightarrow>
                            if new_k < old_k then (Inl (Err InvariantViolation), self)
                            else
                              let self = self\<lparr>pr_reserve_a := new_ra, pr_reserve_b := new_rb\<rparr>
                              in (Inr \<lparr>sw_amount_out = amount_out, sw_lp_fee = lp_fee, sw_protocol_fee = protocol_fee,
                                    sw_new_reserve_a = new_ra, sw_new_reserve_b = new_rb\<rparr>, self)))))"

definition swap_inner :: "swap_params \<Rightarrow> swap_result amm" where
  "swap_inner p self = (case swap_checks p self of Inl e \<Rightarrow> (Inl e, self) | Inr amount_out \<Rightarrow> swap_settle p amount_out self)"

definition swap :: "swap_params \<Rightarrow> swap_result amm" where
  "swap p = guarded (swap_inner p)"

text \<open>The Babylonian loop: the estimate decreases in every round, so it ends; a zero estimate is a division by zero.\<close>

function sqrt_loop :: "u128 \<Rightarrow> u128 \<Rightarrow> u128 \<Rightarrow> (amm_error, u128) res" where
  "sqrt_loop n x y =
     (if y < x then if y = 0 then Inl Panic else sqrt_loop n y ((y + n div y) div 2) else Inr x)"
  by auto
termination by (relation "measure (\<lambda>(n, x, y). unat x)") (auto simp: word_less_nat_alt)

declare sqrt_loop.simps [simp del]

definition integer_sqrt :: "u128 \<Rightarrow> (amm_error, u128) res" where
  "integer_sqrt n = (if n = 0 then Inr 0 else sqrt_loop n n ((n + 1) div 2))"

text \<open>The shares and the amounts used for a deposit, of which \<^verbatim>\<open>add_liquidity_inner\<close> reads the pair only.\<close>

definition liquidity_shares :: "add_liquidity_params \<Rightarrow> pair \<Rightarrow> (amm_error, u128 \<times> u128 \<times> u128) res" where
  "liquidity_shares p self =
     (if pr_total_lp self = 0 then
        rbind (ok_or AmmOverflow (checked_mul128 (ap_amount_a p) (ap_amount_b p))) (\<lambda>product.
        rbind (integer_sqrt product) (\<lambda>s.
        if s \<le> MIN_LIQUIDITY then Inl (Err BelowMinLiquidity)
        else Inr (s - MIN_LIQUIDITY, ap_amount_a p, ap_amount_b p)))
      else
        rbind (safe_mul_div (ap_amount_a p) (pr_total_lp self) (pr_reserve_a self)) (\<lambda>lp_a.
        rbind (safe_mul_div (ap_amount_b p) (pr_total_lp self) (pr_reserve_b self)) (\<lambda>lp_b.
        let lp = min lp_a lp_b in
        rbind (safe_mul_div lp (pr_reserve_a self) (pr_total_lp self)) (\<lambda>ua.
        rbind (safe_mul_div lp (pr_reserve_b self) (pr_total_lp self)) (\<lambda>ub. Inr (lp, ua, ub))))))"

definition add_liquidity_inner :: "add_liquidity_params \<Rightarrow> add_liquidity_result amm" where
  "add_liquidity_inner p self =
     (case rbind (check_deadline (ap_block_timestamp p) (ap_deadline p)) (\<lambda>_.
             if ap_amount_a p = 0 \<or> ap_amount_b p = 0 then Inl (Err ZeroAmount)
             else
               rbind (liquidity_shares p self) (\<lambda>(lp_minted, used_a, used_b).
               if lp_minted < ap_min_lp_out p then Inl (Err (SlippageExceeded lp_minted (ap_min_lp_out p)))
               else Inr (lp_minted, used_a, used_b))) of
        Inl e \<Rightarrow> (Inl e, self)
      | Inr (lp_minted, used_a, used_b) \<Rightarrow>
          (case checked_add128 (pr_reserve_a self) used_a of
             None \<Rightarrow> (Inl (Err AmmOverflow), self)
           | Some ra \<Rightarrow>
               let self = self\<lparr>pr_reserve_a := ra\<rparr> in
               (case checked_add128 (pr_reserve_b self) used_b of
                  None \<Rightarrow> (Inl (Err AmmOverflow), self)
                | Some rb \<Rightarrow>
                    let self = self\<lparr>pr_reserve_b := rb\<rparr> in
                    (case checked_add128 (pr_total_lp self) lp_minted of
                       None \<Rightarrow> (Inl (Err AmmOverflow), self)
                     | Some lp \<Rightarrow> (Inr \<lparr>al_lp_minted = lp_minted, al_used_a = used_a, al_used_b = used_b\<rparr>,
                                   self\<lparr>pr_total_lp := lp\<rparr>)))))"

definition add_liquidity :: "add_liquidity_params \<Rightarrow> add_liquidity_result amm" where
  "add_liquidity p = guarded (add_liquidity_inner p)"

definition remove_liquidity_inner :: "remove_liquidity_params \<Rightarrow> remove_liquidity_result amm" where
  "remove_liquidity_inner p self =
     (case rbind (check_deadline (rp_block_timestamp p) (rp_deadline p)) (\<lambda>_.
             if rp_lp_amount p = 0 then Inl (Err ZeroAmount)
             else if pr_total_lp self < rp_lp_amount p then Inl (Err InsufficientLpBalance)
             else
               rbind (safe_mul_div (rp_lp_amount p) (pr_reserve_a self) (pr_total_lp self)) (\<lambda>amount_a.
               rbind (safe_mul_div (rp_lp_amount p) (pr_reserve_b self) (pr_total_lp self)) (\<lambda>amount_b.
               if amount_a = 0 \<or> amount_b = 0 then Inl (Err InsufficientLiquidityBurned)
               else
                 rbind (check_slippage amount_a (rp_min_a_out p)) (\<lambda>_.
                 rbind (check_slippage amount_b (rp_min_b_out p)) (\<lambda>_. Inr (amount_a, amount_b)))))) of
        Inl e \<Rightarrow> (Inl e, self)
      | Inr (amount_a, amount_b) \<Rightarrow>
          (case checked_sub128 (pr_reserve_a self) amount_a of
             None \<Rightarrow> (Inl (Err InsufficientLiquidityBurned), self)
           | Some ra \<Rightarrow>
               let self = self\<lparr>pr_reserve_a := ra\<rparr> in
               (case checked_sub128 (pr_reserve_b self) amount_b of
                  None \<Rightarrow> (Inl (Err InsufficientLiquidityBurned), self)
                | Some rb \<Rightarrow>
                    let self = self\<lparr>pr_reserve_b := rb\<rparr> in
                    (case checked_sub128 (pr_total_lp self) (rp_lp_amount p) of
                       None \<Rightarrow> (Inl (Err InsufficientLpBalance), self)
                     | Some lp \<Rightarrow> (Inr \<lparr>rl_amount_a = amount_a, rl_amount_b = amount_b\<rparr>, self\<lparr>pr_total_lp := lp\<rparr>)))))"

definition remove_liquidity :: "remove_liquidity_params \<Rightarrow> remove_liquidity_result amm" where
  "remove_liquidity p = guarded (remove_liquidity_inner p)"

definition get_amount_out :: "pair \<Rightarrow> u128 \<Rightarrow> bool \<Rightarrow> u128" where
  "get_amount_out self amount_in a_to_b =
     (let (r_in, r_out) = reserves_for a_to_b self in
      if r_in = 0 \<or> r_out = 0 \<or> amount_in = 0 then 0
      else case amount_out_of (pr_fee_tier self) r_in r_out amount_in of None \<Rightarrow> 0 | Some v \<Rightarrow> v)"

definition pair_k :: "pair \<Rightarrow> u128 option" where
  "pair_k p = checked_mul128 (pr_reserve_a p) (pr_reserve_b p)"

end
