(* ===== verification/Dex.thy ===== *)
theory Dex
  imports Amm
begin

text \<open>
  The exchange around the pairs (zbx-pool: \<^verbatim>\<open>lp_token.rs\<close>, \<^verbatim>\<open>approval.rs\<close>, \<^verbatim>\<open>registry.rs\<close>, \<^verbatim>\<open>canonical_pairs.rs\<close>,
  \<^verbatim>\<open>factory.rs\<close>, \<^verbatim>\<open>router.rs\<close>, \<^verbatim>\<open>dex.rs\<close>): balances of liquidity tokens, token balances with allowances,
  the fee registry, the pool factory, routing over one or two pools and the engine that ties them together.
  Hash maps are maps; none of them is iterated.  SHA3-256, used to name pools, is a parameter.
  Token creation, which only delegates to the token factory, is not part of the engine here.
\<close>

section \<open>Liquidity tokens\<close>

datatype lp_error = LpInsufficientBalance u128 u128 | LpZeroAddressTransfer

record lp_registry =
  lr_balances :: "pair_id \<times> address \<rightharpoonup> u128"
  lr_total_supply :: "pair_id \<rightharpoonup> u128"

definition get0 :: "('k \<rightharpoonup> u128) \<Rightarrow> 'k \<Rightarrow> u128" where
  "get0 m k = (case m k of Some v \<Rightarrow> v | None \<Rightarrow> 0)"

definition no_address :: address where
  "no_address = replicate 20 0"

definition lp_new :: lp_registry where
  "lp_new = \<lparr>lr_balances = Map.empty, lr_total_supply = Map.empty\<rparr>"

definition lp_balance :: "lp_registry \<Rightarrow> pair_id \<Rightarrow> address \<Rightarrow> u128" where
  "lp_balance r pid owner = get0 (lr_balances r) (pid, owner)"

definition lp_total_supply :: "lp_registry \<Rightarrow> pair_id \<Rightarrow> u128" where
  "lp_total_supply r pid = get0 (lr_total_supply r) pid"

definition lp_mint :: "pair_id \<Rightarrow> address \<Rightarrow> u128 \<Rightarrow> lp_registry \<Rightarrow> lp_registry" where
  "lp_mint pid dst amount r =
     (if amount = 0 then r
      else r\<lparr>lr_balances := (lr_balances r)((pid, dst) \<mapsto> lp_balance r pid dst + amount),
             lr_total_supply := (lr_total_supply r)(pid \<mapsto> lp_total_supply r pid + amount)\<rparr>)"

definition lp_burn :: "pair_id \<Rightarrow> address \<Rightarrow> u128 \<Rightarrow> (lp_registry, lp_error, unit) st" where
  "lp_burn pid src amount r =
     (let bal = lp_balance r pid src;
          r = r\<lparr>lr_balances := (lr_balances r)((pid, src) \<mapsto> bal)\<rparr>
      in if bal < amount then (Inl (Err (LpInsufficientBalance bal amount)), r)
         else
           let r = r\<lparr>lr_balances := (lr_balances r)((pid, src) \<mapsto> bal - amount)\<rparr> in
           (case lr_total_supply r pid of
              None \<Rightarrow> (Inl Panic, r)
            | Some t \<Rightarrow> (Inr (), r\<lparr>lr_total_supply := (lr_total_supply r)(pid \<mapsto> sat_sub128 t amount)\<rparr>)))"

definition lp_transfer :: "pair_id \<Rightarrow> address \<Rightarrow> address \<Rightarrow> u128 \<Rightarrow> (lp_registry, lp_error, unit) st" where
  "lp_transfer pid src dst amount =
     (if dst = no_address then sfail (Err LpZeroAddressTransfer)
      else then_st (lp_burn pid src amount) (smod (lp_mint pid dst amount)))"

section \<open>Balances and allowances\<close>

record approval =
  av_amount :: u128
  av_expire_at_block :: u64

datatype approval_error =
    SelfApproval
  | ZeroAddressSpender
  | ZeroAddressRecipient
  | AllowanceUnderflow
  | InsufficientAllowance u128 u128
  | ApprovalExpired u64 u64
  | ApprovalInsufficientBalance u128 u128

record allowance_registry =
  ag_allowances :: "address \<times> address \<times> address \<rightharpoonup> approval"
  ag_balances :: "address \<times> address \<rightharpoonup> u128"

type_synonym 'a approvals = "(allowance_registry, approval_error, 'a) st"

definition registry_new :: allowance_registry where
  "registry_new = \<lparr>ag_allowances = Map.empty, ag_balances = Map.empty\<rparr>"

definition token_balance :: "allowance_registry \<Rightarrow> address \<Rightarrow> address \<Rightarrow> u128" where
  "token_balance g token owner = get0 (ag_balances g) (token, owner)"

definition set_token_balance :: "address \<Rightarrow> address \<Rightarrow> u128 \<Rightarrow> allowance_registry \<Rightarrow> allowance_registry" where
  "set_token_balance token owner v g = g\<lparr>ag_balances := (ag_balances g)((token, owner) \<mapsto> v)\<rparr>"

definition add_balance :: "address \<Rightarrow> address \<Rightarrow> u128 \<Rightarrow> allowance_registry \<Rightarrow> allowance_registry" where
  "add_balance token owner amount g = set_token_balance token owner (sat_add128 (token_balance g token owner) amount) g"

definition sub_balance :: "address \<Rightarrow> address \<Rightarrow> u128 \<Rightarrow> unit approvals" where
  "sub_balance token owner amount g =
     (let b = token_balance g token owner in
      if b < amount then (Inl (Err (ApprovalInsufficientBalance b amount)), set_token_balance token owner b g)
      else (Inr (), set_token_balance token owner (b - amount) g))"

definition dex_approve :: "address \<Rightarrow> address \<Rightarrow> address \<Rightarrow> u128 \<Rightarrow> u64 \<Rightarrow> unit approvals" where
  "dex_approve token owner spender amount expire_at_block g =
     (if owner = spender then (Inl (Err SelfApproval), g)
      else if spender = no_address then (Inl (Err ZeroAddressSpender), g)
      else (Inr (), g\<lparr>ag_allowances := (ag_allowances g)((token, owner, spender) \<mapsto> \<lparr>av_amount = amount, av_expire_at_block = expire_at_block\<rparr>)\<rparr>))"

definition approval_entry :: "allowance_registry \<Rightarrow> address \<times> address \<times> address \<Rightarrow> approval" where
  "approval_entry g k = (case ag_allowances g k of Some a \<Rightarrow> a | None \<Rightarrow> \<lparr>av_amount = 0, av_expire_at_block = 0\<rparr>)"

definition increase_allowance :: "address \<Rightarrow> address \<Rightarrow> address \<Rightarrow> u128 \<Rightarrow> unit approvals" where
  "increase_allowance token owner spender delta g =
     (let k = (token, owner, spender); e = approval_entry g k
      in (Inr (), g\<lparr>ag_allowances := (ag_allowances g)(k \<mapsto> e\<lparr>av_amount := sat_add128 (av_amount e) delta\<rparr>)\<rparr>))"

definition decrease_allowance :: "address \<Rightarrow> address \<Rightarrow> address \<Rightarrow> u128 \<Rightarrow> unit approvals" where
  "decrease_allowance token owner spender delta g =
     (let k = (token, owner, spender); e = approval_entry g k; g = g\<lparr>ag_allowances := (ag_allowances g)(k \<mapsto> e)\<rparr>
      in if av_amount e < delta then (Inl (Err AllowanceUnderflow), g)
         else (Inr (), g\<lparr>ag_allowances := (ag_allowances g)(k \<mapsto> e\<lparr>av_amount := av_amount e - delta\<rparr>)\<rparr>))"

definition dex_allowance :: "allowance_registry \<Rightarrow> address \<Rightarrow> address \<Rightarrow> address \<Rightarrow> u64 \<Rightarrow> u128" where
  "dex_allowance g token owner spender current_block =
     (case ag_allowances g (token, owner, spender) of
        None \<Rightarrow> 0
      | Some a \<Rightarrow> if av_expire_at_block a \<noteq> 0 \<and> av_expire_at_block a < current_block then 0 else av_amount a)"

definition dex_spend_allowance :: "address \<Rightarrow> address \<Rightarrow> address \<Rightarrow> u128 \<Rightarrow> u64 \<Rightarrow> unit approvals" where
  "dex_spend_allowance token owner spender amount current_block g =
     (case ag_allowances g (token, owner, spender) of
        None \<Rightarrow> (Inl (Err (InsufficientAllowance 0 amount)), g)
      | Some e \<Rightarrow>
          if av_expire_at_block e \<noteq> 0 \<and> av_expire_at_block e < current_block
          then (Inl (Err (ApprovalExpired (av_expire_at_block e) current_block)), g)
          else if av_amount e < amount then (Inl (Err (InsufficientAllowance (av_amount e) amount)), g)
          else if av_amount e \<noteq> - 1
          then (Inr (), g\<lparr>ag_allowances := (ag_allowances g)((token, owner, spender) \<mapsto> e\<lparr>av_amount := av_amount e - amount\<rparr>)\<rparr>)
          else (Inr (), g))"

definition dex_transfer :: "address \<Rightarrow> address \<Rightarrow> address \<Rightarrow> u128 \<Rightarrow> unit approvals" where
  "dex_transfer token owner dst amount =
     (if dst = no_address then sfail (Err ZeroAddressRecipient)
      else if amount = 0 then sret ()
      else then_st (sub_balance token owner amount) (smod (add_balance token dst amount)))"

definition dex_transfer_from :: "address \<Rightarrow> address \<Rightarrow> address \<Rightarrow> address \<Rightarrow> u128 \<Rightarrow> u64 \<Rightarrow> unit approvals" where
  "dex_transfer_from token owner dst spender amount current_block =
     (if dst = no_address then sfail (Err ZeroAddressRecipient)
      else if amount = 0 then sret ()
      else then_st (dex_spend_allowance token owner spender amount current_block)
        (then_st (sub_balance token owner amount) (smod (add_balance token dst amount))))"

definition revoke_all :: "address \<Rightarrow> address \<Rightarrow> allowance_registry \<Rightarrow> allowance_registry" where
  "revoke_all token owner g =
     g\<lparr>ag_allowances := (\<lambda>(t, w, s). if t = token \<and> w = owner then None else ag_allowances g (t, w, s))\<rparr>"

definition revoke :: "address \<Rightarrow> address \<Rightarrow> address \<Rightarrow> allowance_registry \<Rightarrow> allowance_registry" where
  "revoke token owner spender g = g\<lparr>ag_allowances := (ag_allowances g)((token, owner, spender) := None)\<rparr>"

section \<open>Fee registry\<close>

datatype dex_operation =
    SwapDirect
  | SwapTwoHop
  | AddLiquidityOp
  | RemoveLiquidityOp
  | CreatePool
  | CreateToken
  | MintTokens
  | PauseToken
  | RegisterMetadata
  | ApproveOp
  | TransferFromOp
  | BridgeTransfer
  | RegisterName
  | ClaimRewards

fun estimated_gas :: "dex_operation \<Rightarrow> u64" where
  "estimated_gas SwapDirect = 120000"
| "estimated_gas SwapTwoHop = 200000"
| "estimated_gas AddLiquidityOp = 150000"
| "estimated_gas RemoveLiquidityOp = 130000"
| "estimated_gas CreatePool = 300000"
| "estimated_gas CreateToken = 500000"
| "estimated_gas MintTokens = 80000"
| "estimated_gas PauseToken = 50000"
| "estimated_gas RegisterMetadata = 60000"
| "estimated_gas ApproveOp = 45000"
| "estimated_gas TransferFromOp = 65000"
| "estimated_gas BridgeTransfer = 250000"
| "estimated_gas RegisterName = 100000"
| "estimated_gas ClaimRewards = 90000"

definition gas_cost_wei :: "dex_operation \<Rightarrow> u64 \<Rightarrow> u128" where
  "gas_cost_wei op gas_price_gwei = ucast (estimated_gas op) * (ucast gas_price_gwei * 1000000000)"

record fee_registry =
  fr_pool_creation_fee :: u128
  fr_token_creation_fee :: u128
  fr_token_mint_fee :: u128
  fr_token_pause_fee :: u128
  fr_metadata_fee :: u128
  fr_bridge_fee_bps :: u32
  fr_name_registration_fee :: u128
  fr_swap_gas_surcharge :: u128
  fr_governance :: bytes
  fr_treasury :: bytes

definition fee_registry_default :: fee_registry where
  "fee_registry_default =
     \<lparr>fr_pool_creation_fee = 500 * 10 ^ 18, fr_token_creation_fee = 100 * 10 ^ 18, fr_token_mint_fee = 10 ^ 18, fr_token_pause_fee = 5 * 10 ^ 18,
      fr_metadata_fee = 10 * 10 ^ 18, fr_bridge_fee_bps = 5, fr_name_registration_fee = 50 * 10 ^ 18, fr_swap_gas_surcharge = 0,
      fr_governance = replicate 20 0, fr_treasury = replicate 20 0\<rparr>"

definition fee_registry_new :: "bytes \<Rightarrow> bytes \<Rightarrow> fee_registry" where
  "fee_registry_new governance treasury = fee_registry_default\<lparr>fr_governance := governance, fr_treasury := treasury\<rparr>"

definition bridge_fee :: "fee_registry \<Rightarrow> u128 \<Rightarrow> u128" where
  "bridge_fee f amount = amount * ucast (fr_bridge_fee_bps f) div 10000"

fun platform_fee_for :: "fee_registry \<Rightarrow> dex_operation \<Rightarrow> u128 \<Rightarrow> u128" where
  "platform_fee_for f CreatePool amount = fr_pool_creation_fee f"
| "platform_fee_for f CreateToken amount = fr_token_creation_fee f"
| "platform_fee_for f MintTokens amount = fr_token_mint_fee f"
| "platform_fee_for f PauseToken amount = fr_token_pause_fee f"
| "platform_fee_for f RegisterMetadata amount = fr_metadata_fee f"
| "platform_fee_for f RegisterName amount = fr_name_registration_fee f"
| "platform_fee_for f BridgeTransfer amount = bridge_fee f amount"
| "platform_fee_for f SwapDirect amount = fr_swap_gas_surcharge f"
| "platform_fee_for f SwapTwoHop amount = fr_swap_gas_surcharge f"
| "platform_fee_for f _ amount = 0"

record cost_estimate =
  ce_operation :: dex_operation
  ce_platform_fee :: u128
  ce_gas_cost_wei :: u128
  ce_total_wei :: u128

definition estimate_total_cost :: "fee_registry \<Rightarrow> dex_operation \<Rightarrow> u64 \<Rightarrow> u128 \<Rightarrow> cost_estimate" where
  "estimate_total_cost f op gas_price_gwei amount =
     (let platform_fee = platform_fee_for f op amount; gas_cost = gas_cost_wei op gas_price_gwei
      in \<lparr>ce_operation = op, ce_platform_fee = platform_fee, ce_gas_cost_wei = gas_cost, ce_total_wei = sat_add128 platform_fee gas_cost\<rparr>)"

definition only_governance :: "fee_registry \<Rightarrow> bytes \<Rightarrow> (string, unit) res" where
  "only_governance f caller = (if caller \<noteq> fr_governance f then Inl (Err ''caller is not governance'') else Inr ())"

definition update_pool_creation_fee :: "bytes \<Rightarrow> u128 \<Rightarrow> (fee_registry, string, unit) st" where
  "update_pool_creation_fee caller new_fee f =
     (case only_governance f caller of Inl e \<Rightarrow> (Inl e, f) | Inr _ \<Rightarrow> (Inr (), f\<lparr>fr_pool_creation_fee := new_fee\<rparr>))"

definition update_token_creation_fee :: "bytes \<Rightarrow> u128 \<Rightarrow> (fee_registry, string, unit) st" where
  "update_token_creation_fee caller new_fee f =
     (case only_governance f caller of Inl e \<Rightarrow> (Inl e, f) | Inr _ \<Rightarrow> (Inr (), f\<lparr>fr_token_creation_fee := new_fee\<rparr>))"

definition update_bridge_fee_bps :: "bytes \<Rightarrow> u32 \<Rightarrow> (fee_registry, string, unit) st" where
  "update_bridge_fee_bps caller new_bps f =
     (case only_governance f caller of
        Inl e \<Rightarrow> (Inl e, f)
      | Inr _ \<Rightarrow>
          if 1000 < new_bps then (Inl (Err ''bridge fee cannot exceed 10%''), f) else (Inr (), f\<lparr>fr_bridge_fee_bps := new_bps\<rparr>))"

section \<open>Pool factory\<close>

record pool_record =
  po_pair_id :: pair_id
  po_fee_tier :: fee_tier
  po_pool_address :: address
  po_creator :: address
  po_created_at :: u64
  po_total_volume :: u128

record pool_created_event =
  pe_pair_id :: pair_id
  pe_fee_tier :: fee_tier
  pe_pool_address :: address
  pe_creator :: address
  pe_creation_fee :: u128
  pe_block_number :: u64

record pool_factory =
  pf_pairs :: "pair_id \<rightharpoonup> pair"
  pf_pool_records :: "pair_id \<rightharpoonup> pool_record"
  pf_events :: "pool_created_event list"
  pf_treasury_balance :: u128
  pf_fee_registry :: fee_registry

definition factory_new :: pool_factory where
  "factory_new = \<lparr>pf_pairs = Map.empty, pf_pool_records = Map.empty, pf_events = [], pf_treasury_balance = 0, pf_fee_registry = fee_registry_default\<rparr>"

definition derive_pool_address :: "(bytes \<Rightarrow> bytes) \<Rightarrow> pair_id \<Rightarrow> fee_tier \<Rightarrow> address" where
  "derive_pool_address sha3 pid tier = take 20 (sha3 (token_a pid @ token_b pid @ [ucast (fee_bps tier)]))"

definition factory_create_pool ::
    "(bytes \<Rightarrow> bytes) \<Rightarrow> address \<Rightarrow> address \<Rightarrow> fee_tier \<Rightarrow> address \<Rightarrow> u128 \<Rightarrow> u64 \<Rightarrow> (pool_factory, amm_error, address \<times> u128) st" where
  "factory_create_pool sha3 a b tier creator creator_zbx_balance block_number f =
     (if a = b then (Inl (Err IdenticalTokens), f)
      else
        let pid = pair_id_new a b in
        if pf_pairs f pid \<noteq> None then (Inl (Err PoolAlreadyExists), f)
        else
          let creation_fee = fr_pool_creation_fee (pf_fee_registry f) in
          if creator_zbx_balance < creation_fee then (Inl (Err (InsufficientCreationFee creator_zbx_balance creation_fee)), f)
          else
            let pool_address = derive_pool_address sha3 pid tier in
            (Inr (pool_address, creation_fee),
             f\<lparr>pf_treasury_balance := sat_add128 (pf_treasury_balance f) creation_fee,
               pf_pairs := (pf_pairs f)(pid \<mapsto> pair_new pid tier),
               pf_pool_records := (pf_pool_records f)(pid \<mapsto> \<lparr>po_pair_id = pid, po_fee_tier = tier, po_pool_address = pool_address,
                 po_creator = creator, po_created_at = block_number, po_total_volume = 0\<rparr>),
               pf_events := pf_events f @ [\<lparr>pe_pair_id = pid, pe_fee_tier = tier, pe_pool_address = pool_address, pe_creator = creator,
                 pe_creation_fee = creation_fee, pe_block_number = block_number\<rparr>]\<rparr>))"

definition record_volume :: "pair_id \<Rightarrow> u128 \<Rightarrow> pool_factory \<Rightarrow> pool_factory" where
  "record_volume pid volume_wei f =
     (case pf_pool_records f pid of
        None \<Rightarrow> f
      | Some r \<Rightarrow> f\<lparr>pf_pool_records := (pf_pool_records f)(pid \<mapsto> r\<lparr>po_total_volume := sat_add128 (po_total_volume r) volume_wei\<rparr>)\<rparr>)"

section \<open>Routing\<close>

definition WZBX_ADDR :: address where
  "WZBX_ADDR = replicate 19 0 @ [1]"

definition ZUSD_ADDR :: address where
  "ZUSD_ADDR = replicate 16 0 @ [0x23, 0x1D, 0, 1]"

record swap_step =
  st_pair_id :: pair_id
  st_a_to_b :: bool

record swap_route =
  rt_steps :: "swap_step list"
  rt_amount_in :: u128

type_synonym pairs = "pair_id \<rightharpoonup> pair"

fun simulate_steps :: "pairs \<Rightarrow> swap_step list \<Rightarrow> u128 \<Rightarrow> u128" where
  "simulate_steps ps [] amount = amount"
| "simulate_steps ps (step # rest) amount =
     (case ps (st_pair_id step) of
        None \<Rightarrow> 0
      | Some p \<Rightarrow> let amount = get_amount_out p amount (st_a_to_b step) in if amount = 0 then 0 else simulate_steps ps rest amount)"

definition simulate :: "pairs \<Rightarrow> swap_route \<Rightarrow> u128" where
  "simulate ps r = simulate_steps ps (rt_steps r) (rt_amount_in r)"

definition build_direct :: "address \<Rightarrow> address \<Rightarrow> u128 \<Rightarrow> pairs \<Rightarrow> swap_route option" where
  "build_direct src dst amount_in ps =
     (let pid = pair_id_new src dst in
      if ps pid \<noteq> None then Some \<lparr>rt_steps = [\<lparr>st_pair_id = pid, st_a_to_b = (token_a pid = src)\<rparr>], rt_amount_in = amount_in\<rparr> else None)"

definition build_two_hop :: "address \<Rightarrow> address \<Rightarrow> address \<Rightarrow> u128 \<Rightarrow> pairs \<Rightarrow> swap_route option" where
  "build_two_hop src mid dst amount_in ps =
     (let pid1 = pair_id_new src mid; pid2 = pair_id_new mid dst in
      if ps pid1 = None \<or> ps pid2 = None then None
      else Some \<lparr>rt_steps = [\<lparr>st_pair_id = pid1, st_a_to_b = (token_a pid1 = src)\<rparr>, \<lparr>st_pair_id = pid2, st_a_to_b = (token_a pid2 = mid)\<rparr>],
                 rt_amount_in = amount_in\<rparr>)"

text \<open>\<^verbatim>\<open>max_by_key\<close> returns the last of the best.\<close>

fun best_route :: "pairs \<Rightarrow> swap_route list \<Rightarrow> swap_route option" where
  "best_route ps [] = None"
| "best_route ps (r # rs) = Some (foldl (\<lambda>b c. if simulate ps b \<le> simulate ps c then c else b) r rs)"

definition opt_list :: "'a option \<Rightarrow> 'a list" where
  "opt_list x = (case x of None \<Rightarrow> [] | Some a \<Rightarrow> [a])"

definition find_best_route :: "address \<Rightarrow> address \<Rightarrow> u128 \<Rightarrow> pairs \<Rightarrow> swap_route option" where
  "find_best_route src dst amount_in ps =
     (if src = dst \<or> amount_in = 0 then None
      else best_route ps
        (opt_list (build_direct src dst amount_in ps) @
         (if src \<noteq> WZBX_ADDR \<and> dst \<noteq> WZBX_ADDR then opt_list (build_two_hop src WZBX_ADDR dst amount_in ps) else []) @
         (if src \<noteq> ZUSD_ADDR \<and> dst \<noteq> ZUSD_ADDR then opt_list (build_two_hop src ZUSD_ADDR dst amount_in ps) else [])))"

text \<open>The loop of \<^verbatim>\<open>execute_route\<close>: the pools stay changed up to the step that fails.\<close>

fun route_loop :: "u128 \<Rightarrow> u64 \<Rightarrow> u64 \<Rightarrow> swap_step list \<Rightarrow> u128 \<Rightarrow> u128 \<Rightarrow> pairs \<Rightarrow> (amm_error, u128 \<times> u128) res \<times> pairs" where
  "route_loop min_amount_out deadline now [] amount total_protocol_fee ps = (Inr (amount, total_protocol_fee), ps)"
| "route_loop min_amount_out deadline now (step # rest) amount total_protocol_fee ps =
     (case ps (st_pair_id step) of
        None \<Rightarrow> (Inl (Err EmptyReserve), ps)
      | Some p \<Rightarrow>
          let min_out = (if rest = [] then min_amount_out else 0);
              (r, p') = swap \<lparr>sp_a_to_b = st_a_to_b step, sp_amount_in = amount, sp_min_amount_out = min_out, sp_deadline = deadline,
                sp_oracle_twap = 0, sp_block_timestamp = now\<rparr> p;
              ps' = ps(st_pair_id step \<mapsto> p')
          in (case r of
                Inl e \<Rightarrow> (Inl e, ps')
              | Inr w \<Rightarrow> route_loop min_amount_out deadline now rest (sw_amount_out w) (sat_add128 total_protocol_fee (sw_protocol_fee w)) ps'))"

definition execute_route :: "swap_route \<Rightarrow> u128 \<Rightarrow> u64 \<Rightarrow> u64 \<Rightarrow> pairs \<Rightarrow> (amm_error, u128 \<times> u128) res \<times> pairs" where
  "execute_route r min_amount_out deadline block_timestamp = route_loop min_amount_out deadline block_timestamp (rt_steps r) (rt_amount_in r) 0"

section \<open>The engine\<close>

datatype dex_error =
    AmmFailed amm_error
  | ApprovalFailed approval_error
  | NoRoute
  | InsufficientInputBalance u128 u128
  | LpTransferFailed lp_error

record swap_event =
  se_trader :: address
  se_token_in :: address
  se_token_out :: address
  se_amount_in :: u128
  se_amount_out :: u128
  se_hops :: nat
  se_protocol_fee_collected :: u128
  se_block_number :: u64

record liquidity_event =
  le_provider :: address
  le_pair_id :: pair_id
  le_lp_minted :: u128
  le_used_a :: u128
  le_used_b :: u128
  le_block_number :: u64

record quote_result =
  qr_amount_in :: u128
  qr_amount_out :: u128
  qr_hops :: nat
  qr_price_impact_bps :: u32

record dex_engine =
  dx_pool_factory :: pool_factory
  dx_allowances :: allowance_registry
  dx_lp_registry :: lp_registry
  dx_swap_events :: "swap_event list"
  dx_pool_events :: "pool_created_event list"
  dx_protocol_fees :: "address \<rightharpoonup> u128"

type_synonym 'a dex = "(dex_engine, dex_error, 'a) st"

definition dex_new :: dex_engine where
  "dex_new = \<lparr>dx_pool_factory = factory_new, dx_allowances = registry_new, dx_lp_registry = lp_new, dx_swap_events = [],
     dx_pool_events = [], dx_protocol_fees = Map.empty\<rparr>"

text \<open>A call on the registry of balances, on the registry of liquidity tokens, and on a pair of the factory.\<close>

definition on_balances :: "'a approvals \<Rightarrow> 'a dex" where
  "on_balances f d = (let (r, g) = f (dx_allowances d) in (map_err ApprovalFailed r, d\<lparr>dx_allowances := g\<rparr>))"

definition on_lp :: "(lp_registry, lp_error, 'a) st \<Rightarrow> 'a dex" where
  "on_lp f d = (let (r, l) = f (dx_lp_registry d) in (map_err LpTransferFailed r, d\<lparr>dx_lp_registry := l\<rparr>))"

definition dex_pairs :: "dex_engine \<Rightarrow> pairs" where
  "dex_pairs d = pf_pairs (dx_pool_factory d)"

definition set_pairs :: "pairs \<Rightarrow> dex_engine \<Rightarrow> dex_engine" where
  "set_pairs ps d = d\<lparr>dx_pool_factory := (dx_pool_factory d)\<lparr>pf_pairs := ps\<rparr>\<rparr>"

definition on_pair :: "pair_id \<Rightarrow> 'a amm \<Rightarrow> 'a dex" where
  "on_pair pid f d =
     (case dex_pairs d pid of
        None \<Rightarrow> (Inl (Err (AmmFailed PairNotFound)), d)
      | Some p \<Rightarrow> let (r, p') = f p in (map_err AmmFailed r, set_pairs ((dex_pairs d)(pid \<mapsto> p')) d))"

definition dex_create_pool :: "(bytes \<Rightarrow> bytes) \<Rightarrow> address \<Rightarrow> address \<Rightarrow> fee_tier \<Rightarrow> address \<Rightarrow> u128 \<Rightarrow> u64 \<Rightarrow> address dex" where
  "dex_create_pool sha3 a b tier creator creator_zbx_balance block_number d =
     (case factory_create_pool sha3 a b tier creator creator_zbx_balance block_number (dx_pool_factory d) of
        (Inl e, f) \<Rightarrow> (map_err AmmFailed (Inl e), d\<lparr>dx_pool_factory := f\<rparr>)
      | (Inr (pool_addr, _), f) \<Rightarrow>
          (Inr pool_addr, d\<lparr>dx_pool_factory := f,
             dx_pool_events := dx_pool_events d @ (if pf_events f = [] then [] else [last (pf_events f)])\<rparr>))"

definition dex_buy :: "address \<Rightarrow> address \<Rightarrow> address \<Rightarrow> u128 \<Rightarrow> u128 \<Rightarrow> u64 \<Rightarrow> u64 \<Rightarrow> u64 \<Rightarrow> swap_event dex" where
  "dex_buy trader token_in token_out amount_in min_amount_out deadline block_timestamp block_number d =
     (let balance = token_balance (dx_allowances d) token_in trader in
      if balance < amount_in then (Inl (Err (InsufficientInputBalance balance amount_in)), d)
      else case find_best_route token_in token_out amount_in (dex_pairs d) of
        None \<Rightarrow> (Inl (Err NoRoute), d)
      | Some route \<Rightarrow>
          let (r, ps) = execute_route route min_amount_out deadline block_timestamp (dex_pairs d); d = set_pairs ps d in
          (case r of
             Inl e \<Rightarrow> (map_err AmmFailed (Inl e), d)
           | Inr (amount_out, total_protocol_fee) \<Rightarrow>
               then_st (on_balances (sub_balance token_in trader amount_in))
               (then_st (smod (\<lambda>d. d\<lparr>dx_allowances := add_balance token_out trader amount_out (dx_allowances d),
                   dx_protocol_fees := (dx_protocol_fees d)(token_in \<mapsto> get0 (dx_protocol_fees d) token_in + total_protocol_fee),
                   dx_pool_factory := fold (\<lambda>step. record_volume (st_pair_id step) amount_in) (rt_steps route) (dx_pool_factory d)\<rparr>))
               (let event = \<lparr>se_trader = trader, se_token_in = token_in, se_token_out = token_out, se_amount_in = amount_in,
                      se_amount_out = amount_out, se_hops = length (rt_steps route), se_protocol_fee_collected = total_protocol_fee,
                      se_block_number = block_number\<rparr>
                in then_st (smod (\<lambda>d. d\<lparr>dx_swap_events := dx_swap_events d @ [event]\<rparr>)) (sret event))) d))"

definition dex_add_liquidity ::
    "address \<Rightarrow> address \<Rightarrow> address \<Rightarrow> u128 \<Rightarrow> u128 \<Rightarrow> u128 \<Rightarrow> u64 \<Rightarrow> u64 \<Rightarrow> u64 \<Rightarrow> (add_liquidity_result \<times> liquidity_event) dex" where
  "dex_add_liquidity provider a b amount_a amount_b min_lp_out deadline block_timestamp block_number d =
     (let pid = pair_id_new a b;
          bal_a = token_balance (dx_allowances d) (token_a pid) provider;
          bal_b = token_balance (dx_allowances d) (token_b pid) provider
      in if bal_a < amount_a then (Inl (Err (InsufficientInputBalance bal_a amount_a)), d)
         else if bal_b < amount_b then (Inl (Err (InsufficientInputBalance bal_b amount_b)), d)
         else
           sbind (on_pair pid (add_liquidity \<lparr>ap_amount_a = amount_a, ap_amount_b = amount_b, ap_min_lp_out = min_lp_out,
                    ap_deadline = deadline, ap_block_timestamp = block_timestamp\<rparr>)) (\<lambda>result.
           then_st (on_balances (sub_balance (token_a pid) provider (al_used_a result)))
           (then_st (on_balances (sub_balance (token_b pid) provider (al_used_b result)))
           (then_st (smod (\<lambda>d. d\<lparr>dx_lp_registry := lp_mint pid provider (al_lp_minted result) (dx_lp_registry d)\<rparr>))
           (sret (result, \<lparr>le_provider = provider, le_pair_id = pid, le_lp_minted = al_lp_minted result, le_used_a = al_used_a result,
              le_used_b = al_used_b result, le_block_number = block_number\<rparr>))))) d)"

definition dex_remove_liquidity ::
    "address \<Rightarrow> address \<Rightarrow> address \<Rightarrow> u128 \<Rightarrow> u128 \<Rightarrow> u128 \<Rightarrow> u64 \<Rightarrow> u64 \<Rightarrow> remove_liquidity_result dex" where
  "dex_remove_liquidity provider a b lp_amount min_a_out min_b_out deadline block_timestamp d =
     (let pid = pair_id_new a b in
      if lp_balance (dx_lp_registry d) pid provider < lp_amount then (Inl (Err (AmmFailed InsufficientLpBalance)), d)
      else
        sbind (on_pair pid (remove_liquidity \<lparr>rp_lp_amount = lp_amount, rp_min_a_out = min_a_out, rp_min_b_out = min_b_out,
                 rp_deadline = deadline, rp_block_timestamp = block_timestamp\<rparr>)) (\<lambda>result.
        then_st (on_lp (lp_burn pid provider lp_amount))
        (then_st (smod (\<lambda>d. d\<lparr>dx_allowances := add_balance (token_b pid) provider (rl_amount_b result)
                    (add_balance (token_a pid) provider (rl_amount_a result) (dx_allowances d))\<rparr>))
        (sret result))) d)"

fun impact_loop :: "pairs \<Rightarrow> swap_step list \<Rightarrow> u128 \<Rightarrow> u128 \<Rightarrow> u128" where
  "impact_loop ps [] sim_amount cumulative_remaining = cumulative_remaining"
| "impact_loop ps (step # rest) sim_amount cumulative_remaining =
     (case ps (st_pair_id step) of
        None \<Rightarrow> impact_loop ps rest sim_amount cumulative_remaining
      | Some p \<Rightarrow>
          let r_in = fst (reserves_for (st_a_to_b step) p);
              denom = max (sat_add128 r_in sim_amount) 1;
              remaining_bps = sat_mul128 r_in 10000 div denom;
              cumulative_remaining = sat_mul128 cumulative_remaining remaining_bps div 10000;
              sim_amount = get_amount_out p sim_amount (st_a_to_b step)
          in if sim_amount = 0 then cumulative_remaining else impact_loop ps rest sim_amount cumulative_remaining)"

definition sat_sub32 :: "u32 \<Rightarrow> u32 \<Rightarrow> u32" where
  "sat_sub32 a b = (if b \<le> a then a - b else 0)"

definition dex_quote :: "dex_engine \<Rightarrow> address \<Rightarrow> address \<Rightarrow> u128 \<Rightarrow> quote_result option" where
  "dex_quote d token_in token_out amount_in =
     (case find_best_route token_in token_out amount_in (dex_pairs d) of
        None \<Rightarrow> None
      | Some route \<Rightarrow>
          let amount_out = simulate (dex_pairs d) route in
          if amount_out = 0 then None
          else Some \<lparr>qr_amount_in = amount_in, qr_amount_out = amount_out, qr_hops = length (rt_steps route),
                 qr_price_impact_bps = sat_sub32 10000 (ucast (impact_loop (dex_pairs d) (rt_steps route) (rt_amount_in route) 10000))\<rparr>)"

end
