(* ===== verification/Amm_Props.thy ===== *)
theory Amm_Props
  imports Amm
begin

text \<open>
  Correctness of the pair: the square root of the first deposit, what a swap does to the reserves, that the
  final check of the product cannot fail, and how swaps, withdrawals and deposits change what a share of the
  pool is worth.
\<close>

section \<open>The integer square root\<close>

lemma newton_above:
  fixes n x :: nat
  assumes "0 < x" "y = (x + n div x) div 2"
  shows "n < (y + 1)\<^sup>2"
proof -
  define q where "q = n div x + 1"
  have n: "n < x * q" using assms(1) by (simp add: q_def) (metis add.commute dividend_less_times_div mult.commute mult_Suc_right)
  have "x + q \<le> 2 * (y + 1)" using assms(2) by (simp add: q_def)
  then have "(x + q)\<^sup>2 \<le> (2 * (y + 1))\<^sup>2" by (rule power_mono) simp
  moreover have "4 * (x * q) \<le> (x + q)\<^sup>2"
  proof -
    have "4 * (int x * int q) \<le> (int x + int q)\<^sup>2" using zero_le_power2 [of "int x - int q"] by (simp add: power2_eq_square algebra_simps)
    then have "int (4 * (x * q)) \<le> int ((x + q)\<^sup>2)" by simp
    then show ?thesis by (simp only: of_nat_le_iff)
  qed
  ultimately have "4 * n < (2 * (y + 1))\<^sup>2" using n by linarith
  then show ?thesis unfolding power_mult_distrib by simp
qed

lemma newton_fits: "0 < x \<Longrightarrow> x \<le> n \<Longrightarrow> x + n div x \<le> n + (1 :: nat)"
proof -
  assume x: "0 < x" "x \<le> n"
  have "(x - 1) * (n div x - 1) + x + n div x = x * (n div x) + 1"
  proof -
    have d: "0 < n div x" using x div_greater_zero_iff by blast
    obtain a b where "x = Suc a" "n div x = Suc b" using x(1) d by (metis gr0_implies_Suc)
    then show ?thesis by simp
  qed
  moreover have "x * (n div x) \<le> n" by simp
  ultimately show ?thesis by linarith
qed

lemma sqrt_loop_correct:
  assumes "0 < x" "x \<le> n" "unat n < 2 ^ 128 - 1" "unat y = (unat x + unat n div unat x) div 2" "unat n < (unat x + 1)\<^sup>2"
  shows "\<exists>r. sqrt_loop n x y = Inr r \<and> (unat r)\<^sup>2 \<le> unat n \<and> unat n < (unat r + 1)\<^sup>2"
  using assms
proof (induction n x y rule: sqrt_loop.induct)
  case (1 n x y)
  have x: "0 < unat x" "unat x \<le> unat n" using 1(2,3) by (simp_all add: word_less_nat_alt word_le_nat_alt)
  have above: "unat n < (unat y + 1)\<^sup>2" using newton_above [OF x(1) 1(5)] .
  show ?case
  proof (cases "y < x")
    case True
    have y: "0 < unat y" using x 1(5) div_greater_zero_iff [of "unat n" "unat x"] by linarith
    then have y0: "y \<noteq> 0" by auto
    have yn: "y \<le> n" using True 1(3) by auto
    have "unat y + unat (n div y) < 2 ^ 128"
      using newton_fits [OF y, of "unat n"] yn 1(4) by (simp add: word_le_nat_alt unat_div)
    then have "unat ((y + n div y) div 2) = (unat y + unat n div unat y) div 2"
      by (simp add: unat_div unat_add128)
    then have "\<exists>r. sqrt_loop n y ((y + n div y) div 2) = Inr r \<and> (unat r)\<^sup>2 \<le> unat n \<and> unat n < (unat r + 1)\<^sup>2"
      using 1(1) [OF True y0] y0 yn 1(4) above by (simp add: word_neq_0_conv)
    then show ?thesis using True y0 by (simp add: sqrt_loop.simps [of n x y])
  next
    case False
    then have "unat x \<le> unat n div unat x" using 1(5) by (simp add: word_less_nat_alt)
    then have "(unat x)\<^sup>2 \<le> unat n" using x(1) by (simp add: less_eq_div_iff_mult_less_eq power2_eq_square)
    then show ?thesis using False 1(6) by (simp add: sqrt_loop.simps [of n x y])
  qed
qed

lemma integer_sqrt_correct:
  assumes "unat n < 2 ^ 128 - 1"
  shows "\<exists>r. integer_sqrt n = Inr r \<and> (unat r)\<^sup>2 \<le> unat n \<and> unat n < (unat r + 1)\<^sup>2"
proof (cases "n = 0")
  case True
  then show ?thesis by (simp add: integer_sqrt_def)
next
  case False
  then have n: "0 < unat n" by (simp add: unat_gt_0)
  have "unat ((n + 1) div 2) = (unat n + unat n div unat n) div 2"
    using assms n by (simp add: unat_div unat_add128)
  then have "\<exists>r. sqrt_loop n n ((n + 1) div 2) = Inr r \<and> (unat r)\<^sup>2 \<le> unat n \<and> unat n < (unat r + 1)\<^sup>2"
    using False assms by (intro sqrt_loop_correct) (auto simp: word_neq_0_conv power2_eq_square)
  then show ?thesis using False by (simp add: integer_sqrt_def)
qed

lemma integer_sqrt_max: "integer_sqrt (- 1) = Inl Panic"
proof -
  have "(0 :: u128) < - 1" by (simp add: word_less_nat_alt unsigned_minus_1_eq_mask mask_eq_exp_minus_1)
  then show ?thesis by (simp add: integer_sqrt_def sqrt_loop.simps [of "- 1" "- 1"])
qed

section \<open>The swap formula\<close>

definition fee_mult :: "fee_tier \<Rightarrow> nat" where
  "fee_mult tier = 10000 - unat (fee_bps tier)"

lemma fee_mult_bounds: "9900 \<le> fee_mult tier" "fee_mult tier \<le> 10000"
  by (cases tier; simp add: fee_mult_def)+

lemma fee_mult_word: "unat (10000 - ucast (fee_bps tier) :: u128) = fee_mult tier"
  by (cases tier) (simp_all add: fee_mult_def)

lemma swap_product:
  fixes ri ro dx m :: nat
  assumes "dy = dx * m * ro div (ri * 10000 + dx * m)" "0 < m" "m \<le> 10000"
  shows "dy * (ri + dx) \<le> dx * ro"
proof -
  have "dy * (ri + dx) * m \<le> dy * (ri * 10000 + dx * m)"
    using assms(3) by (simp add: algebra_simps mult_le_mono)
  also have "\<dots> \<le> dx * m * ro" unfolding assms(1) by (rule div_times_less_eq_dividend)
  finally have "dy * (ri + dx) * m \<le> (dx * ro) * m" by (simp add: ac_simps)
  then show ?thesis using assms(2) by simp
qed

lemma swap_keeps_k:
  fixes ri ro dx dy :: nat
  assumes "dy * (ri + dx) \<le> dx * ro" "0 < ri"
  shows "dy \<le> ro" "ri * ro \<le> (ri + dx) * (ro - dy)"
proof -
  have "dy * (ri + dx) \<le> ro * (ri + dx)" using assms(1) by (simp add: algebra_simps)
  then show d: "dy \<le> ro" using assms(2) by simp
  have "dy * (ri + dx) + ri * ro \<le> (ri + dx) * ro" using assms(1) by (simp add: algebra_simps)
  moreover have "(ri + dx) * (ro - dy) = (ri + dx) * ro - dy * (ri + dx)" by (metis diff_mult_distrib2 mult.commute)
  ultimately show "ri * ro \<le> (ri + dx) * (ro - dy)" by linarith
qed

lemma amount_out_of_val:
  assumes "amount_out_of tier ri ro dx = Some dy"
  shows "unat dy = unat dx * fee_mult tier * unat ro div (unat ri * 10000 + unat dx * fee_mult tier)"
    "unat dx * fee_mult tier * unat ro < 2 ^ 128"
proof -
  have m: "unat (10000 - ucast (fee_bps tier) :: u128) = fee_mult tier" by (rule fee_mult_word)
  obtain a b c d where "checked_mul128 dx (10000 - ucast (fee_bps tier)) = Some a" "checked_mul128 a ro = Some b"
    "checked_mul128 ri 10000 = Some c" "checked_add128 c a = Some d" "dy = b div d"
    using assms by (auto simp: amount_out_of_def Option.bind_eq_Some_conv)
  then show "unat dy = unat dx * fee_mult tier * unat ro div (unat ri * 10000 + unat dx * fee_mult tier)"
    "unat dx * fee_mult tier * unat ro < 2 ^ 128"
    unfolding checked128 m by (simp_all add: unat_div unat_mul128 unat_add128 m)
qed

lemma drain_bound:
  assumes "check_reserve_drain dy ro = Inr ()" "unat dy \<le> unat ro" "unat dy * 10000 < 2 ^ 128"
  shows "unat dy * 10000 < 3001 * unat ro"
proof -
  have r: "ro \<noteq> 0" using assms(1) by (auto simp: check_reserve_drain_def)
  then have r': "0 < unat ro" by (simp add: unat_gt_0)
  let ?d = "unat dy * 10000 div unat ro"
  have s: "unat (sat_mul128 dy 10000 div ro) = ?d"
    using assms(3) by (simp add: sat_mul128_def unat_div unat_mul128)
  have "unat dy * 10000 \<le> 10000 * unat ro" using assms(2) by simp
  then have "?d \<le> 10000" using r' by (metis div_le_mono nonzero_mult_div_cancel_right not_less0)
  then have "unat (ucast (sat_mul128 dy 10000 div ro) :: u32) = ?d"
    by (simp add: s unsigned_ucast_eq take_bit_eq_mod)
  then have "?d \<le> 3000"
    using assms(1) r by (auto simp: check_reserve_drain_def Let_def MAX_RESERVE_DRAIN_BPS_def word_less_nat_alt split: if_splits)
  then have "unat dy * 10000 < (3000 + 1) * unat ro" using r' by (metis div_less_iff_less_mult le_imp_less_Suc Suc_eq_plus1)
  then show ?thesis by simp
qed

section \<open>Swaps\<close>

lemma guarded_cases:
  assumes "guarded body p = (r, p')"
  shows "p' = p \<and> (\<exists>e. r = Inl e \<and> e \<noteq> Err InvariantViolation \<and> e \<noteq> Panic \<and> e \<noteq> OutOfFuel) \<or>
    (\<exists>q. \<not> pr_locked p \<and> body (p\<lparr>pr_locked := True\<rparr>) = (r, q) \<and> p' = q\<lparr>pr_locked := False\<rparr>)"
  using assms
  by (auto simp: guarded_def circuit_check_def guard_acquire_def guard_release_def split: if_splits prod.splits)

lemma swap_checks_ok:
  assumes "swap_checks p s = Inr dy"
  obtains ri ro where "reserves_for (sp_a_to_b p) s = (ri, ro)" "0 < unat ri" "amount_out_of (pr_fee_tier s) ri ro (sp_amount_in p) = Some dy"
    "dy \<noteq> 0" "sp_min_amount_out p \<le> dy" "sp_block_timestamp p \<le> sp_deadline p" "check_reserve_drain dy ro = Inr ()"
    "get_amount_out s (sp_amount_in p) (sp_a_to_b p) = dy"
proof -
  obtain ri ro where r: "reserves_for (sp_a_to_b p) s = (ri, ro)" by fastforce
  have *: "ri \<noteq> 0" "ro \<noteq> 0" "sp_amount_in p \<noteq> 0" "amount_out_of (pr_fee_tier s) ri ro (sp_amount_in p) = Some dy" "dy \<noteq> 0"
    "\<not> dy < sp_min_amount_out p" "\<not> sp_deadline p < sp_block_timestamp p" "check_reserve_drain dy ro = Inr ()"
    using assms by (auto simp: swap_checks_def r res_simps ok_or_def check_slippage_def check_deadline_def split: if_splits option.splits)
  show thesis using * by (intro that [OF r]) (auto simp: unat_gt_0 get_amount_out_def r)
qed

lemma swap_checks_errors: "swap_checks p s = Inl e \<Longrightarrow> e \<noteq> Err InvariantViolation \<and> e \<noteq> Panic \<and> e \<noteq> OutOfFuel"
  by (auto simp: swap_checks_def res_simps ok_or_def check_slippage_def check_deadline_def check_oracle_deviation_def check_price_impact_def
      check_reserve_drain_def Let_def split: if_splits option.splits prod.splits)

definition pair_value :: "pair \<Rightarrow> nat \<times> nat \<times> nat" where
  "pair_value s = (unat (pr_reserve_a s), unat (pr_reserve_b s), unat (pr_total_lp s))"

lemma swap_settle_fails:
  assumes "swap_settle p dy s = (Inl e, s')" "reserves_for (sp_a_to_b p) s = (ri, ro)" "0 < unat ri"
    and "unat dy * (unat ri + unat (sp_amount_in p)) \<le> unat (sp_amount_in p) * unat ro"
  shows "pair_value s' = pair_value s" "e \<noteq> Err InvariantViolation \<and> e \<noteq> Panic \<and> e \<noteq> OutOfFuel"
proof -
  note k = swap_keeps_k [OF assms(4,3)]
  show "pair_value s' = pair_value s"
    using assms(1) by (auto simp: swap_settle_def pair_value_def Let_def split: if_splits option.splits prod.splits)
  show "e \<noteq> Err InvariantViolation \<and> e \<noteq> Panic \<and> e \<noteq> OutOfFuel"
    using assms(1,2) k
    by (auto simp: swap_settle_def reserves_for_def Let_def checked128 word_less_nat_alt unat_mul128 unat_add128 unat_sub128 mult.commute
        split: if_splits option.splits prod.splits)
qed

lemma swap_settle_ok:
  assumes "swap_settle p dy s = (Inr r, s')" "reserves_for (sp_a_to_b p) s = (ri, ro)"
  shows "sw_amount_out r = dy" "reserves_for (sp_a_to_b p) s' = (ri + sp_amount_in p, ro - dy)"
    "unat ri + unat (sp_amount_in p) < 2 ^ 128" "dy \<le> ro" "pr_total_lp s' = pr_total_lp s"
    "(sw_lp_fee r, sw_protocol_fee r) = split_fee (sp_amount_in p) (pr_fee_tier s)" "sw_new_reserve_a r = pr_reserve_a s'" "sw_new_reserve_b r = pr_reserve_b s'"
  using assms
  by (auto simp: swap_settle_def reserves_for_def Let_def checked128 split: if_splits option.splits prod.splits)

lemma swap_laws:
  "case swap p s of
     (Inr r, s') \<Rightarrow>
       (let (ri, ro) = reserves_for (sp_a_to_b p) s; (ri', ro') = reserves_for (sp_a_to_b p) s';
            dx = unat (sp_amount_in p); dy = unat (sw_amount_out r); m = fee_mult (pr_fee_tier s) in
        dy = dx * m * unat ro div (unat ri * 10000 + dx * m) \<and> sw_amount_out r = get_amount_out s (sp_amount_in p) (sp_a_to_b p) \<and>
        unat ri' = unat ri + dx \<and> unat ro' + dy = unat ro \<and> 0 < dy \<and> sp_min_amount_out p \<le> sw_amount_out r \<and>
        dy * 10000 < 3001 * unat ro \<and> unat ri * unat ro \<le> unat ri' * unat ro' \<and> pr_total_lp s' = pr_total_lp s \<and>
        sp_block_timestamp p \<le> sp_deadline p \<and> \<not> pr_locked s')
   | (Inl e, s') \<Rightarrow> pair_value s' = pair_value s \<and> e \<noteq> Err InvariantViolation \<and> e \<noteq> Panic \<and> e \<noteq> OutOfFuel \<and> pr_locked s' = pr_locked s"
proof -
  obtain r s' where sw: "swap p s = (r, s')" by fastforce
  have g: "guarded (swap_inner p) s = (r, s')" using sw by (simp add: swap_def)
  let ?s = "s\<lparr>pr_locked := True\<rparr>"
  have eq: "swap_checks p ?s = swap_checks p s" "reserves_for b ?s = reserves_for b s" "get_amount_out ?s x b = get_amount_out s x b" "pair_value ?s = pair_value s"
    "pair_value (q\<lparr>pr_locked := False\<rparr>) = pair_value q" "reserves_for b (q\<lparr>pr_locked := False\<rparr>) = reserves_for b q" for q b x
    by (simp_all add: swap_checks_def reserves_for_def get_amount_out_def spot_price_a_in_b_def pair_value_def cong: option.case_cong)
  consider "s' = s" "\<exists>e. r = Inl e \<and> e \<noteq> Err InvariantViolation \<and> e \<noteq> Panic \<and> e \<noteq> OutOfFuel"
    | q where "\<not> pr_locked s" "swap_inner p ?s = (r, q)" "s' = q\<lparr>pr_locked := False\<rparr>"
    using guarded_cases [OF g] by blast
  then show ?thesis
  proof cases
    case 1
    then show ?thesis by (auto simp: sw)
  next
    case 2
    show ?thesis
    proof (cases "swap_checks p s")
      case (Inl e)
      then show ?thesis using 2 swap_checks_errors [OF Inl] by (auto simp: sw swap_inner_def eq pair_value_def)
    next
      case (Inr dy)
      then obtain ri ro where c: "reserves_for (sp_a_to_b p) s = (ri, ro)" "0 < unat ri" "amount_out_of (pr_fee_tier s) ri ro (sp_amount_in p) = Some dy"
        "dy \<noteq> 0" "sp_min_amount_out p \<le> dy" "sp_block_timestamp p \<le> sp_deadline p" "check_reserve_drain dy ro = Inr ()"
        "get_amount_out s (sp_amount_in p) (sp_a_to_b p) = dy" by (rule swap_checks_ok)
      note v = amount_out_of_val [OF c(3)]
      have f: "unat dy * (unat ri + unat (sp_amount_in p)) \<le> unat (sp_amount_in p) * unat ro"
        using fee_mult_bounds [of "pr_fee_tier s"] by (intro swap_product [OF v(1)]) simp_all
      note k = swap_keeps_k [OF f c(2)]
      have st: "swap_settle p dy ?s = (r, q)" using 2(2) Inr by (simp add: swap_inner_def eq)
      show ?thesis
      proof (cases r)
        case (Inl e)
        then show ?thesis using swap_settle_fails [OF st [unfolded Inl], of ri ro] c(1,2) f 2(1,3) by (auto simp: sw eq)
      next
        case (Inr w)
        note ok = swap_settle_ok [OF st [unfolded Inr], of ri ro, unfolded eq, OF c(1)]
        have "unat dy * (unat ri * 10000 + unat (sp_amount_in p) * fee_mult (pr_fee_tier s)) \<le> unat (sp_amount_in p) * fee_mult (pr_fee_tier s) * unat ro"
          unfolding v(1) by (rule div_times_less_eq_dividend)
        then have "unat dy * (unat ri * 10000) < 2 ^ 128" using v(2) by (simp only: add_mult_distrib2)
        moreover have "unat dy * 10000 \<le> unat dy * (unat ri * 10000)" using c(2) by simp
        ultimately have d: "unat dy * 10000 < 3001 * unat ro" using drain_bound [OF c(7) k(1)] by linarith
        have n: "unat (ri + sp_amount_in p) = unat ri + unat (sp_amount_in p)" "unat (ro - dy) = unat ro - unat dy"
          using ok(3,4) by (simp_all add: unat_add128 unat_sub128)
        have "0 < unat dy" using c(4) by (simp add: unat_gt_0)
        then show ?thesis using ok c(1,5,6,8) v(1) d k n 2(3) by (simp add: sw Inr eq)
      qed
    qed
  qed
qed

lemma oracle_guard_wraps: "check_oracle_deviation (2 ^ 28 + 1) 1 = Inr ()"
  by (simp add: check_oracle_deviation_def sat_mul128_def MAX_ORACLE_DEVIATION_BPS_def)

text \<open>C11. A swap that succeeds, in time and at no less than the trader's minimum, moves exactly the quoted amount: the
  input joins one reserve, the output - the product formula after the fee, rounded down, less than 30.01% of the
  reserve - leaves the other, the product of the reserves does not decrease and no share is created.
  A swap that fails changes neither reserves nor shares; the final check of the product can never be
  what fails, and the code neither panics nor stays locked.  The guard against prices off the oracle is
  sound for deviations below \<open>2 ^ 32\<close> basis points only, where the cut to 32 bits loses nothing: a spot price
  \<open>2 ^ 28\<close> times the oracle's passes it.\<close>

theorem amm_swap_correct:
  "(case swap p s of
     (Inr r, s') \<Rightarrow>
       (let (ri, ro) = reserves_for (sp_a_to_b p) s; (ri', ro') = reserves_for (sp_a_to_b p) s';
            dx = unat (sp_amount_in p); dy = unat (sw_amount_out r); m = fee_mult (pr_fee_tier s) in
        dy = dx * m * unat ro div (unat ri * 10000 + dx * m) \<and> sw_amount_out r = get_amount_out s (sp_amount_in p) (sp_a_to_b p) \<and>
        unat ri' = unat ri + dx \<and> unat ro' + dy = unat ro \<and> 0 < dy \<and> sp_min_amount_out p \<le> sw_amount_out r \<and>
        dy * 10000 < 3001 * unat ro \<and> unat ri * unat ro \<le> unat ri' * unat ro' \<and> pr_total_lp s' = pr_total_lp s \<and>
        sp_block_timestamp p \<le> sp_deadline p \<and> \<not> pr_locked s')
   | (Inl e, s') \<Rightarrow> pair_value s' = pair_value s \<and> e \<noteq> Err InvariantViolation \<and> e \<noteq> Panic \<and> e \<noteq> OutOfFuel \<and> pr_locked s' = pr_locked s) \<and>
   check_oracle_deviation (2 ^ 28 + 1) 1 = Inr ()"
  using swap_laws [of s p] oracle_guard_wraps by blast

section \<open>What a share is worth\<close>

lemma safe_mul_div_ok:
  "safe_mul_div a b c = Inr d \<longleftrightarrow> c \<noteq> 0 \<and> unat a * unat b < 2 ^ 128 \<and> d = a * b div c"
  by (auto simp: safe_mul_div_def res_simps ok_or_def checked128 split: if_splits option.splits) (auto simp: checked_mul128_def)

lemma safe_mul_div_val: "safe_mul_div a b c = Inr d \<Longrightarrow> unat d = unat a * unat b div unat c"
  by (auto simp: safe_mul_div_ok unat_div unat_mul128)

lemma remove_inner_ok:
  assumes "remove_liquidity_inner p s = (Inr r, s')"
  shows "unat (rl_amount_a r) = unat (rp_lp_amount p) * unat (pr_reserve_a s) div unat (pr_total_lp s)"
    "unat (rl_amount_b r) = unat (rp_lp_amount p) * unat (pr_reserve_b s) div unat (pr_total_lp s)"
    "rp_lp_amount p \<le> pr_total_lp s" "rl_amount_a r \<le> pr_reserve_a s" "rl_amount_b r \<le> pr_reserve_b s" "rp_lp_amount p \<noteq> 0"
    "pair_value s' = (unat (pr_reserve_a s) - unat (rl_amount_a r), unat (pr_reserve_b s) - unat (rl_amount_b r), unat (pr_total_lp s) - unat (rp_lp_amount p))"
  using assms
  by (auto simp: remove_liquidity_inner_def res_simps checked128 Let_def pair_value_def unat_sub128 dest!: safe_mul_div_val
      split: sum.splits option.splits if_splits)

lemma remove_inner_fails:
  assumes "remove_liquidity_inner p s = (Inl e, s')"
  shows "pair_value s' = pair_value s"
proof -
  have d: "x \<le> y" if "safe_mul_div lp y t = Inr x" "lp \<le> t" for lp x y t :: u128
  proof -
    have "unat x = unat lp * unat y div unat t" using that(1) by (rule safe_mul_div_val)
    also have "\<dots> \<le> unat t * unat y div unat t" using that(2) by (intro div_le_mono mult_le_mono1) (simp add: word_le_nat_alt)
    also have "\<dots> \<le> unat y" by (cases "unat t = 0") simp_all
    finally show ?thesis by (simp add: word_le_nat_alt)
  qed
  show ?thesis using assms
    by (auto simp: remove_liquidity_inner_def res_simps Let_def checked_sub128_def pair_value_def dest: d split: sum.splits option.splits if_splits)
qed

lemma remove_share:
  fixes r lp t x :: nat
  assumes "x = lp * r div t" "lp \<le> t"
  shows "r * (t - lp) \<le> (r - x) * t"
proof -
  have "x * t \<le> lp * r" unfolding assms(1) by (rule div_times_less_eq_dividend)
  moreover have "(r - x) * t = r * t - x * t" "r * (t - lp) = r * t - lp * r" by (simp_all add: diff_mult_distrib diff_mult_distrib2 mult.commute)
  ultimately show ?thesis by linarith
qed

text \<open>The product of the reserves per square of a share.\<close>

definition share_kept :: "pair \<Rightarrow> pair \<Rightarrow> bool" where
  "share_kept s s' \<longleftrightarrow> unat (pr_reserve_a s) * unat (pr_reserve_b s) * (unat (pr_total_lp s'))\<^sup>2 \<le>
     unat (pr_reserve_a s') * unat (pr_reserve_b s') * (unat (pr_total_lp s))\<^sup>2 \<and> pr_total_lp s' \<le> pr_total_lp s"

lemma share_kept_same: "pair_value s' = pair_value s \<Longrightarrow> share_kept s s'"
  by (simp add: share_kept_def pair_value_def word_le_nat_alt)

lemma share_kept_trans:
  assumes "share_kept s s'" "share_kept s' s''"
  shows "share_kept s s''"
proof -
  let ?k = "\<lambda>s. unat (pr_reserve_a s) * unat (pr_reserve_b s)" and ?t = "\<lambda>s. (unat (pr_total_lp s))\<^sup>2"
  have l: "pr_total_lp s'' \<le> pr_total_lp s'" "pr_total_lp s' \<le> pr_total_lp s" using assms by (auto simp: share_kept_def)
  have "?k s * ?t s'' \<le> ?k s'' * ?t s"
  proof (cases "pr_total_lp s' = 0")
    case True
    then have "pr_total_lp s'' = 0" using l(1) by simp
    then show ?thesis by simp
  next
    case False
    then have p: "0 < ?t s'" by (simp add: unat_gt_0)
    have "?k s * ?t s' * ?t s'' \<le> ?k s' * ?t s * ?t s''" using assms(1) by (intro mult_le_mono1) (simp add: share_kept_def)
    also have "\<dots> = ?k s' * ?t s'' * ?t s" by simp
    also have "\<dots> \<le> ?k s'' * ?t s' * ?t s" using assms(2) by (intro mult_le_mono1) (simp add: share_kept_def)
    finally have "(?k s * ?t s'') * ?t s' \<le> (?k s'' * ?t s) * ?t s'" by (simp only: ac_simps)
    then show ?thesis using p by (simp only: mult_le_cancel2)
  qed
  then show ?thesis using l by (auto simp: share_kept_def)
qed

lemma swap_share: "share_kept s (snd (swap p s))"
proof -
  obtain r s' where sw: "swap p s = (r, s')" by fastforce
  show ?thesis
  proof (cases r)
    case (Inl e)
    then show ?thesis using swap_laws [of s p] share_kept_same [of s' s] by (simp add: sw)
  next
    case (Inr w)
    then have "unat (pr_reserve_a s) * unat (pr_reserve_b s) \<le> unat (pr_reserve_a s') * unat (pr_reserve_b s')" "pr_total_lp s' = pr_total_lp s"
      using swap_laws [of s p] by (auto simp: sw reserves_for_def Let_def mult.commute split: if_splits prod.splits)
    then show ?thesis by (simp add: sw share_kept_def)
  qed
qed

lemma remove_share_kept: "share_kept s (snd (remove_liquidity p s))"
proof -
  obtain r s' where g: "guarded (remove_liquidity_inner p) s = (r, s')" by fastforce
  let ?s = "s\<lparr>pr_locked := True\<rparr>"
  have "share_kept s s'"
  proof (cases "s' = s")
    case False
    then obtain q where q: "remove_liquidity_inner p ?s = (r, q)" "s' = q\<lparr>pr_locked := False\<rparr>" using guarded_cases [OF g] by blast
    have v: "pair_value s' = pair_value q" "pair_value ?s = pair_value s" by (simp_all add: q(2) pair_value_def)
    show ?thesis
    proof (cases r)
      case (Inl e)
      then show ?thesis using remove_inner_fails [of p ?s e q] q v by (intro share_kept_same) simp
    next
      case (Inr w)
      note ok = remove_inner_ok [OF q(1) [unfolded Inr], simplified]
      have "unat (pr_reserve_a s') = unat (pr_reserve_a s) - unat (rl_amount_a w)" "unat (pr_reserve_b s') = unat (pr_reserve_b s) - unat (rl_amount_b w)"
        "unat (pr_total_lp s') = unat (pr_total_lp s) - unat (rp_lp_amount p)" using ok(7) v by (simp_all add: pair_value_def)
      moreover have l: "unat (rp_lp_amount p) \<le> unat (pr_total_lp s)" using ok(3) by (simp add: word_le_nat_alt)
      moreover note mult_le_mono [OF remove_share [OF ok(1) l] remove_share [OF ok(2) l]]
      ultimately show ?thesis by (simp add: share_kept_def power2_eq_square word_le_nat_alt ac_simps)
    qed
  qed (simp add: share_kept_same)
  then show ?thesis by (simp add: remove_liquidity_def g)
qed

lemma add_inner_ok:
  assumes "add_liquidity_inner p s = (Inr r, s')" "pr_total_lp s \<noteq> 0"
  shows "unat (al_used_a r) = unat (al_lp_minted r) * unat (pr_reserve_a s) div unat (pr_total_lp s)"
    "unat (al_used_b r) = unat (al_lp_minted r) * unat (pr_reserve_b s) div unat (pr_total_lp s)"
    "pair_value s' = (unat (pr_reserve_a s) + unat (al_used_a r), unat (pr_reserve_b s) + unat (al_used_b r), unat (pr_total_lp s) + unat (al_lp_minted r))"
  using assms
  by (auto simp: add_liquidity_inner_def liquidity_shares_def res_simps checked128 Let_def pair_value_def unat_add128 dest!: safe_mul_div_val
      split: sum.splits option.splits if_splits)

lemma add_share:
  fixes r lp t x :: nat
  assumes "x = lp * r div t" "0 < t"
  shows "(r + x) * t \<le> r * (t + lp)" "r * (t + lp) < (r + x + 1) * t"
proof -
  have "x * t \<le> lp * r" unfolding assms(1) by (rule div_times_less_eq_dividend)
  moreover have "lp * r < (x + 1) * t" unfolding assms(1) using assms(2) by (metis Suc_eq_plus1 dividend_less_div_times mult_Suc)
  ultimately show "(r + x) * t \<le> r * (t + lp)" "r * (t + lp) < (r + x + 1) * t" by (simp_all add: algebra_simps)
qed

datatype amm_op = SwapOp swap_params | RemoveOp remove_liquidity_params

fun amm_exec :: "amm_op \<Rightarrow> pair \<Rightarrow> pair" where
  "amm_exec (SwapOp p) s = snd (swap p s)"
| "amm_exec (RemoveOp p) s = snd (remove_liquidity p s)"

lemma run_share_kept: "share_kept s (fold amm_exec ops s)"
proof (induction ops arbitrary: s)
  case (Cons p ops)
  have "share_kept s (amm_exec p s)" by (cases p) (simp_all add: swap_share remove_share_kept)
  then show ?case using Cons.IH share_kept_trans by simp
qed (simp add: share_kept_same)

lemma add_liquidity_dilutes:
  assumes "add_liquidity p s = (Inr r, s')" "pr_total_lp s \<noteq> 0"
  shows "unat (pr_reserve_a s') * unat (pr_total_lp s) \<le> unat (pr_reserve_a s) * unat (pr_total_lp s')"
    "unat (pr_reserve_a s) * unat (pr_total_lp s') < (unat (pr_reserve_a s') + 1) * unat (pr_total_lp s)"
    "unat (pr_reserve_b s') * unat (pr_total_lp s) \<le> unat (pr_reserve_b s) * unat (pr_total_lp s')"
    "unat (pr_reserve_b s) * unat (pr_total_lp s') < (unat (pr_reserve_b s') + 1) * unat (pr_total_lp s)"
proof -
  let ?s = "s\<lparr>pr_locked := True\<rparr>"
  obtain q where q: "add_liquidity_inner p ?s = (Inr r, q)" "s' = q\<lparr>pr_locked := False\<rparr>"
    using guarded_cases [OF assms(1) [unfolded add_liquidity_def]] by auto
  note ok = add_inner_ok [OF q(1), simplified, OF assms(2)]
  have v: "unat (pr_reserve_a s') = unat (pr_reserve_a s) + unat (al_used_a r)" "unat (pr_reserve_b s') = unat (pr_reserve_b s) + unat (al_used_b r)"
    "unat (pr_total_lp s') = unat (pr_total_lp s) + unat (al_lp_minted r)" using ok(3) by (simp_all add: q(2) pair_value_def)
  have t: "0 < unat (pr_total_lp s)" using assms(2) by (simp add: unat_gt_0)
  show "unat (pr_reserve_a s') * unat (pr_total_lp s) \<le> unat (pr_reserve_a s) * unat (pr_total_lp s')"
    "unat (pr_reserve_a s) * unat (pr_total_lp s') < (unat (pr_reserve_a s') + 1) * unat (pr_total_lp s)"
    "unat (pr_reserve_b s') * unat (pr_total_lp s) \<le> unat (pr_reserve_b s) * unat (pr_total_lp s')"
    "unat (pr_reserve_b s) * unat (pr_total_lp s') < (unat (pr_reserve_b s') + 1) * unat (pr_total_lp s)"
    unfolding v using add_share [OF ok(1) t] add_share [OF ok(2) t] by simp_all
qed

definition demo_pair :: pair where
  "demo_pair = (pair_new \<lparr>token_a = [1], token_b = [2]\<rparr> Standard)\<lparr>pr_reserve_a := 10, pr_reserve_b := 1000000000, pr_total_lp := 100000\<rparr>"

text \<open>C38. Swaps and withdrawals never dilute the liquidity providers: along every sequence of them, failed ones
  included, the product of the reserves per square of a share does not decrease.  Deposits round the
  other way: a deposit into a pool with shares never raises the reserves per share and lowers
  them by less than one base unit of each token, so shares can be minted for nothing of a token with a small reserve.\<close>

theorem amm_share_value:
  "share_kept s (fold amm_exec ops s) \<and>
   (\<forall>p r s'. add_liquidity p s = (Inr r, s') \<and> pr_total_lp s \<noteq> 0 \<longrightarrow>
      unat (pr_reserve_a s') * unat (pr_total_lp s) \<le> unat (pr_reserve_a s) * unat (pr_total_lp s') \<and>
      unat (pr_reserve_a s) * unat (pr_total_lp s') < (unat (pr_reserve_a s') + 1) * unat (pr_total_lp s) \<and>
      unat (pr_reserve_b s') * unat (pr_total_lp s) \<le> unat (pr_reserve_b s) * unat (pr_total_lp s') \<and>
      unat (pr_reserve_b s) * unat (pr_total_lp s') < (unat (pr_reserve_b s') + 1) * unat (pr_total_lp s))"
  using run_share_kept add_liquidity_dilutes by blast

lemma demo_deposit:
  "add_liquidity \<lparr>ap_amount_a = 1, ap_amount_b = 99990000, ap_min_lp_out = 0, ap_deadline = 1, ap_block_timestamp = 0\<rparr> demo_pair =
   (Inr \<lparr>al_lp_minted = 9999, al_used_a = 0, al_used_b = 99990000\<rparr>, demo_pair\<lparr>pr_reserve_b := 1099990000, pr_total_lp := 109999\<rparr>)"
  by (simp add: add_liquidity_def guarded_def demo_pair_def pair_new_def circuit_check_def circuit_new_def guard_acquire_def guard_release_def
      add_liquidity_inner_def liquidity_shares_def check_deadline_def safe_mul_div_def checked_mul128_def checked_add128_def Let_def min_def)

theorem amm_share_value_witness:
  "let (r, s') = add_liquidity \<lparr>ap_amount_a = 1, ap_amount_b = 99990000, ap_min_lp_out = 0, ap_deadline = 1, ap_block_timestamp = 0\<rparr> demo_pair in
    r = Inr \<lparr>al_lp_minted = 9999, al_used_a = 0, al_used_b = 99990000\<rparr> \<and>
    unat (pr_reserve_a s') * unat (pr_total_lp demo_pair) \<le> unat (pr_reserve_a demo_pair) * unat (pr_total_lp s')"
proof -
  have "pr_total_lp demo_pair \<noteq> 0" by (simp add: demo_pair_def)
  from amm_share_value [THEN conjunct2, rule_format, OF conjI [OF demo_deposit this]] show ?thesis by (simp add: demo_deposit)
qed

section \<open>The first deposit\<close>

lemma safe_mul_div_all:
  "c \<noteq> 0 \<Longrightarrow> safe_mul_div c x c = (if unat c * unat x < 2 ^ 128 then Inr x else Inl (Err AmmOverflow))"
proof -
  assume c: "c \<noteq> 0"
  show ?thesis
  proof (cases "unat c * unat x < 2 ^ 128")
    case True
    then have "unat (c * x div c) = unat x" using c by (simp add: unat_div unat_mul128 unat_gt_0)
    then show ?thesis using True c by (simp add: safe_mul_div_ok word_unat_eq_iff)
  qed (use c in \<open>simp add: safe_mul_div_def checked_mul128_def\<close>)
qed

lemma remove_all:
  assumes "pr_total_lp s \<noteq> 0" "pr_reserve_a s \<noteq> 0" "pr_reserve_b s \<noteq> 0" "\<not> cb_paused (pr_circuit s)" "\<not> pr_locked s"
    and "rp_lp_amount p = pr_total_lp s" "rp_min_a_out p = 0" "rp_min_b_out p = 0" "rp_block_timestamp p \<le> rp_deadline p"
  shows "remove_liquidity p s =
    (if unat (pr_total_lp s) * unat (pr_reserve_a s) < 2 ^ 128 \<and> unat (pr_total_lp s) * unat (pr_reserve_b s) < 2 ^ 128
     then (Inr \<lparr>rl_amount_a = pr_reserve_a s, rl_amount_b = pr_reserve_b s\<rparr>, s\<lparr>pr_reserve_a := 0, pr_reserve_b := 0, pr_total_lp := 0\<rparr>)
     else (Inl (Err AmmOverflow), s))"
  using assms by (simp add: remove_liquidity_def guarded_def circuit_check_def guard_acquire_def guard_release_def remove_liquidity_inner_def
      check_deadline_def check_slippage_def checked_sub128_def safe_mul_div_all Let_def)

lemma first_deposit:
  assumes "ap_amount_a q \<noteq> 0" "ap_amount_b q \<noteq> 0" "ap_block_timestamp q \<le> ap_deadline q" "ap_min_lp_out q = 0"
  shows "add_liquidity q (pair_new i tier) = (case liquidity_shares q (pair_new i tier) of Inl e \<Rightarrow> (Inl e, pair_new i tier)
    | Inr (lp, ua, ub) \<Rightarrow> (Inr \<lparr>al_lp_minted = lp, al_used_a = ua, al_used_b = ub\<rparr>, (pair_new i tier)\<lparr>pr_reserve_a := ua, pr_reserve_b := ub, pr_total_lp := lp\<rparr>))"
  using assms unat_u128_less
  by (auto simp: add_liquidity_def guarded_def circuit_check_def circuit_new_def guard_acquire_def guard_release_def add_liquidity_inner_def pair_new_def
    check_deadline_def checked_add128_def liquidity_shares_def Let_def split: sum.splits)

lemma first_shares_edge:
  assumes "pr_total_lp s = 0"
  shows "2 ^ 128 \<le> unat (ap_amount_a q) * unat (ap_amount_b q) \<Longrightarrow> liquidity_shares q s = Inl (Err AmmOverflow)"
    "unat (ap_amount_a q) * unat (ap_amount_b q) = 2 ^ 128 - 1 \<Longrightarrow> liquidity_shares q s = Inl Panic"
proof -
  show "liquidity_shares q s = Inl Panic" if m: "unat (ap_amount_a q) * unat (ap_amount_b q) = 2 ^ 128 - 1"
  proof -
    have "unat (ap_amount_a q * ap_amount_b q) = 2 ^ 128 - 1" using m by (simp add: unat_mul128)
    then have "ap_amount_a q * ap_amount_b q = - 1" by (simp add: word_unat_eq_iff unsigned_minus_1_eq_mask mask_eq_exp_minus_1)
    then show ?thesis using assms m by (simp add: liquidity_shares_def checked_mul128_def integer_sqrt_max)
  qed
qed (simp add: assms liquidity_shares_def checked_mul128_def)

text \<open>C39. The first deposit into a new pool, of two positive amounts and without a minimum: when their product
  exceeds 128 bits it is refused as an overflow; when the product is the largest word, whatever its factors, the
  square root divides by zero and the deposit panics; otherwise it mints the integer square root of the
  product, which the loop computes exactly, less the minimum of 1000, or is refused when the root is at most 1000.
  The thousand shares are subtracted but not locked: the depositor holds all shares.  Handing them all in
  takes the whole pool out again when the shares times each amount fit 128 bits; otherwise the withdrawal is
  refused as an overflow and the pool stays as it is.\<close>

theorem amm_first_deposit:
  fixes a b :: u128
  assumes "0 < unat a" "0 < unat b" "ap_block_timestamp p \<le> ap_deadline p" "ap_amount_a p = a" "ap_amount_b p = b" "ap_min_lp_out p = 0"
  shows "(2 ^ 128 \<le> unat a * unat b \<longrightarrow> add_liquidity p (pair_new i tier) = (Inl (Err AmmOverflow), pair_new i tier)) \<and>
    (unat a * unat b = 2 ^ 128 - 1 \<longrightarrow> fst (add_liquidity p (pair_new i tier)) = Inl Panic) \<and>
    (unat a * unat b < 2 ^ 128 - 1 \<longrightarrow> (\<exists>root. (unat root)\<^sup>2 \<le> unat a * unat b \<and> unat a * unat b < (unat root + 1)\<^sup>2 \<and>
      (let s = (pair_new i tier)\<lparr>pr_reserve_a := a, pr_reserve_b := b, pr_total_lp := root - 1000\<rparr> in
       add_liquidity p (pair_new i tier) =
         (if unat root \<le> 1000 then (Inl (Err BelowMinLiquidity), pair_new i tier)
          else (Inr \<lparr>al_lp_minted = root - 1000, al_used_a = a, al_used_b = b\<rparr>, s)) \<and>
       (1000 < unat root \<longrightarrow>
          remove_liquidity \<lparr>rp_lp_amount = root - 1000, rp_min_a_out = 0, rp_min_b_out = 0, rp_deadline = 0, rp_block_timestamp = 0\<rparr> s =
            (if unat (root - 1000) * unat a < 2 ^ 128 \<and> unat (root - 1000) * unat b < 2 ^ 128
             then (Inr \<lparr>rl_amount_a = a, rl_amount_b = b\<rparr>, pair_new i tier) else (Inl (Err AmmOverflow), s))))))"
proof (intro conjI impI)
  have nz: "a \<noteq> 0" "b \<noteq> 0" using assms(1,2) by auto
  have lp0: "pr_total_lp (pair_new i tier) = 0" by (simp add: pair_new_def)
  have add: "add_liquidity p (pair_new i tier) = (case liquidity_shares p (pair_new i tier) of Inl e \<Rightarrow> (Inl e, pair_new i tier)
    | Inr (lp, ua, ub) \<Rightarrow> (Inr \<lparr>al_lp_minted = lp, al_used_a = ua, al_used_b = ub\<rparr>, (pair_new i tier)\<lparr>pr_reserve_a := ua, pr_reserve_b := ub, pr_total_lp := lp\<rparr>))"
    by (rule first_deposit) (use nz assms in auto)
  show "add_liquidity p (pair_new i tier) = (Inl (Err AmmOverflow), pair_new i tier)" if "2 ^ 128 \<le> unat a * unat b"
    using first_shares_edge(1) [OF lp0, of p] that assms(4,5) by (simp add: add)
  show "fst (add_liquidity p (pair_new i tier)) = Inl Panic" if "unat a * unat b = 2 ^ 128 - 1"
    using first_shares_edge(2) [OF lp0, of p] that assms(4,5) by (simp add: add)
  assume less: "unat a * unat b < 2 ^ 128 - 1"
  have ab: "unat (a * b) = unat a * unat b" using less by (simp add: unat_mul128)
  obtain root where r: "integer_sqrt (a * b) = Inr root" "(unat root)\<^sup>2 \<le> unat a * unat b" "unat a * unat b < (unat root + 1)\<^sup>2"
    using integer_sqrt_correct [of "a * b"] less unfolding ab by blast
  have m: "MIN_LIQUIDITY = 1000" "(root \<le> 1000) = (unat root \<le> 1000)" by (simp_all add: MIN_LIQUIDITY_def word_le_nat_alt)
  have "liquidity_shares p (pair_new i tier) = (if unat root \<le> 1000 then Inl (Err BelowMinLiquidity) else Inr (root - 1000, a, b))"
    using less assms(4,5) r(1) by (simp add: liquidity_shares_def pair_new_def checked_mul128_def m)
  then have A: "add_liquidity p (pair_new i tier) =
       (if unat root \<le> 1000 then (Inl (Err BelowMinLiquidity), pair_new i tier)
        else (Inr \<lparr>al_lp_minted = root - 1000, al_used_a = a, al_used_b = b\<rparr>, (pair_new i tier)\<lparr>pr_reserve_a := a, pr_reserve_b := b, pr_total_lp := root - 1000\<rparr>))"
    by (simp add: add)
  have "remove_liquidity \<lparr>rp_lp_amount = root - 1000, rp_min_a_out = 0, rp_min_b_out = 0, rp_deadline = 0, rp_block_timestamp = 0\<rparr>
      ((pair_new i tier)\<lparr>pr_reserve_a := a, pr_reserve_b := b, pr_total_lp := root - 1000\<rparr>) =
      (if unat (root - 1000) * unat a < 2 ^ 128 \<and> unat (root - 1000) * unat b < 2 ^ 128
       then (Inr \<lparr>rl_amount_a = a, rl_amount_b = b\<rparr>, pair_new i tier)
       else (Inl (Err AmmOverflow), (pair_new i tier)\<lparr>pr_reserve_a := a, pr_reserve_b := b, pr_total_lp := root - 1000\<rparr>))" if "1000 < unat root"
  proof -
    have "root - 1000 \<noteq> 0" using that by auto
    then show ?thesis using nz by (subst remove_all) (simp_all add: pair_new_def circuit_new_def)
  qed
  with A r(2,3) show "\<exists>root. (unat root)\<^sup>2 \<le> unat a * unat b \<and> unat a * unat b < (unat root + 1)\<^sup>2 \<and>
      (let s = (pair_new i tier)\<lparr>pr_reserve_a := a, pr_reserve_b := b, pr_total_lp := root - 1000\<rparr> in
       add_liquidity p (pair_new i tier) =
         (if unat root \<le> 1000 then (Inl (Err BelowMinLiquidity), pair_new i tier)
          else (Inr \<lparr>al_lp_minted = root - 1000, al_used_a = a, al_used_b = b\<rparr>, s)) \<and>
       (1000 < unat root \<longrightarrow>
          remove_liquidity \<lparr>rp_lp_amount = root - 1000, rp_min_a_out = 0, rp_min_b_out = 0, rp_deadline = 0, rp_block_timestamp = 0\<rparr> s =
            (if unat (root - 1000) * unat a < 2 ^ 128 \<and> unat (root - 1000) * unat b < 2 ^ 128
             then (Inr \<lparr>rl_amount_a = a, rl_amount_b = b\<rparr>, pair_new i tier) else (Inl (Err AmmOverflow), s))))"
    unfolding Let_def by blast
qed

theorem amm_first_deposit_witness:
  "\<exists>lp. 0 < unat lp \<and> fst (add_liquidity \<lparr>ap_amount_a = 2000, ap_amount_b = 2000, ap_min_lp_out = 0, ap_deadline = 0, ap_block_timestamp = 0\<rparr>
      (pair_new \<lparr>token_a = [1], token_b = [2]\<rparr> Standard)) = Inr \<lparr>al_lp_minted = lp, al_used_a = 2000, al_used_b = 2000\<rparr> \<and>
    fst (add_liquidity \<lparr>ap_amount_a = 2 ^ 64 - 1, ap_amount_b = 2 ^ 64 + 1, ap_min_lp_out = 0, ap_deadline = 0, ap_block_timestamp = 0\<rparr>
      (pair_new \<lparr>token_a = [1], token_b = [2]\<rparr> Standard)) = Inl Panic"
proof -
  let ?p = "\<lparr>ap_amount_a = 2000, ap_amount_b = 2000, ap_min_lp_out = 0, ap_deadline = 0, ap_block_timestamp = 0\<rparr>"
  obtain root where r: "unat (2000 :: u128) * unat (2000 :: u128) < (unat root + 1)\<^sup>2"
    "add_liquidity ?p (pair_new \<lparr>token_a = [1], token_b = [2]\<rparr> Standard) =
       (if unat root \<le> 1000 then (Inl (Err BelowMinLiquidity), pair_new \<lparr>token_a = [1], token_b = [2]\<rparr> Standard)
        else (Inr \<lparr>al_lp_minted = root - 1000, al_used_a = 2000, al_used_b = 2000\<rparr>,
          (pair_new \<lparr>token_a = [1], token_b = [2]\<rparr> Standard)\<lparr>pr_reserve_a := 2000, pr_reserve_b := 2000, pr_total_lp := root - 1000\<rparr>))"
    using amm_first_deposit [of 2000 2000 ?p "\<lparr>token_a = [1], token_b = [2]\<rparr>" Standard] unfolding Let_def by auto
  have g: "1000 < unat root"
  proof (rule ccontr)
    assume "\<not> 1000 < unat root"
    then have "(unat root + 1)\<^sup>2 \<le> 1001\<^sup>2" by (intro power_mono) simp_all
    with r(1) show False by simp
  qed
  then have "0 < unat (root - 1000)" by (subst unat_sub128) (simp_all add: word_le_nat_alt)
  moreover have "fst (add_liquidity \<lparr>ap_amount_a = 2 ^ 64 - 1, ap_amount_b = 2 ^ 64 + 1, ap_min_lp_out = 0, ap_deadline = 0, ap_block_timestamp = 0\<rparr>
      (pair_new \<lparr>token_a = [1], token_b = [2]\<rparr> Standard)) = Inl Panic"
    using amm_first_deposit [of "2 ^ 64 - 1" "2 ^ 64 + 1"
        "\<lparr>ap_amount_a = 2 ^ 64 - 1, ap_amount_b = 2 ^ 64 + 1, ap_min_lp_out = 0, ap_deadline = 0, ap_block_timestamp = 0\<rparr>"
        "\<lparr>token_a = [1], token_b = [2]\<rparr>" Standard] by simp
  ultimately show ?thesis using g r(2) by auto
qed

end
