(* ===== verification/Dex_Props.thy ===== *)
theory Dex_Props
  imports Dex Amm_Props
begin

text \<open>
  Conservation of tokens in the exchange: what accounts hold and what pools hold of a token add up to the same
  amount after every operation that succeeds, and how a purchase over two pools that fails breaks this.
\<close>

section \<open>Sums over maps\<close>

definition map_sum :: "('k \<Rightarrow> 'v \<Rightarrow> nat) \<Rightarrow> ('k \<rightharpoonup> 'v) \<Rightarrow> nat" where
  "map_sum f m = (\<Sum>k\<in>dom m. f k (the (m k)))"

lemma map_sum_upd:
  assumes "finite (dom m)"
  shows "map_sum f (m(k \<mapsto> v)) + (case m k of None \<Rightarrow> 0 | Some w \<Rightarrow> f k w) = map_sum f m + f k v"
proof -
  have d: "dom (m(k \<mapsto> v)) = insert k (dom m - {k})" by auto
  have s: "(\<Sum>x\<in>dom m - {k}. f x (the ((m(k \<mapsto> v)) x))) = (\<Sum>x\<in>dom m - {k}. f x (the (m x)))" by (rule sum.cong) auto
  have "map_sum f (m(k \<mapsto> v)) = f k (the ((m(k \<mapsto> v)) k)) + (\<Sum>x\<in>dom m - {k}. f x (the ((m(k \<mapsto> v)) x)))"
    unfolding map_sum_def d using assms by (intro sum.insert) auto
  then have "map_sum f (m(k \<mapsto> v)) = f k v + (\<Sum>x\<in>dom m - {k}. f x (the (m x)))" by (simp only: s fun_upd_same option.sel)
  moreover have "map_sum f m = (case m k of None \<Rightarrow> 0 | Some w \<Rightarrow> f k w) + (\<Sum>x\<in>dom m - {k}. f x (the (m x)))"
  proof (cases "m k")
    case None
    then have "dom m - {k} = dom m" by auto
    then show ?thesis using None by (simp add: map_sum_def)
  next
    case (Some w)
    then have "k \<in> dom m" by auto
    from sum.remove [OF assms this, of "\<lambda>k. f k (the (m k))"] show ?thesis using Some by (simp add: map_sum_def)
  qed
  ultimately show ?thesis by simp
qed

lemma map_sum_member: "finite (dom m) \<Longrightarrow> m k = Some v \<Longrightarrow> f k v \<le> map_sum f m"
  using member_le_sum [of k "dom m" "\<lambda>k. f k (the (m k))"] by (auto simp: map_sum_def)

section \<open>What accounts and pools hold\<close>

definition part :: "bool \<Rightarrow> nat \<Rightarrow> nat" where
  "part b n = (if b then n else 0)"

definition held :: "allowance_registry \<Rightarrow> address \<Rightarrow> nat" where
  "held g t = map_sum (\<lambda>k v. part (fst k = t) (unat v)) (ag_balances g)"

definition pool_holds :: "pair_id \<Rightarrow> pair \<Rightarrow> address \<Rightarrow> nat" where
  "pool_holds pid p t = part (token_a pid = t) (unat (pr_reserve_a p)) + part (token_b pid = t) (unat (pr_reserve_b p))"

definition pooled :: "pairs \<Rightarrow> address \<Rightarrow> nat" where
  "pooled ps t = map_sum (\<lambda>pid p. pool_holds pid p t) ps"

definition dex_total :: "dex_engine \<Rightarrow> address \<Rightarrow> nat" where
  "dex_total d t = held (dx_allowances d) t + pooled (dex_pairs d) t"

definition dex_finite :: "dex_engine \<Rightarrow> bool" where
  "dex_finite d \<longleftrightarrow> finite (dom (ag_balances (dx_allowances d))) \<and> finite (dom (dex_pairs d))"

lemma held_set:
  assumes "finite (dom (ag_balances g))"
  shows "held (set_token_balance token w v g) t + part (token = t) (unat (token_balance g token w)) = held g t + part (token = t) (unat v)"
  using map_sum_upd [OF assms, of "\<lambda>k v. part (fst k = t) (unat v)" "(token, w)" v]
  by (auto simp: held_def set_token_balance_def token_balance_def get0_def part_def split: option.splits if_splits)

lemma held_member: "finite (dom (ag_balances g)) \<Longrightarrow> unat (token_balance g token w) \<le> held g token"
  using map_sum_member [of "ag_balances g" "(token, w)" _ "\<lambda>k v. part (fst k = token) (unat v)"]
  by (auto simp: held_def token_balance_def get0_def part_def split: option.splits)

lemma set_balance_finite [simp]: "finite (dom (ag_balances (set_token_balance token w v g))) = finite (dom (ag_balances g))"
  by (simp add: set_token_balance_def)

lemma sub_balance_held:
  assumes "sub_balance token w amount g = (Inr u, g')" "finite (dom (ag_balances g))"
  shows "held g' t + part (token = t) (unat amount) = held g t" "finite (dom (ag_balances g'))"
proof -
  have a: "amount \<le> token_balance g token w" and g': "g' = set_token_balance token w (token_balance g token w - amount) g"
    using assms(1) by (auto simp: sub_balance_def Let_def split: if_splits)
  have "unat (token_balance g token w - amount) + unat amount = unat (token_balance g token w)"
    using a by (simp add: unat_sub128 word_le_nat_alt)
  then show "held g' t + part (token = t) (unat amount) = held g t"
    using held_set [OF assms(2), of token w "token_balance g token w - amount" t] by (auto simp: g' part_def split: if_splits)
  show "finite (dom (ag_balances g'))" using assms(2) by (simp add: g')
qed

lemma add_balance_held:
  assumes "finite (dom (ag_balances g))" "held g token + unat amount < 2 ^ 128"
  shows "held (add_balance token w amount g) t = held g t + part (token = t) (unat amount)" "finite (dom (ag_balances (add_balance token w amount g)))"
proof -
  have "unat (token_balance g token w) + unat amount < 2 ^ 128" using held_member [OF assms(1), of token w] assms(2) by linarith
  then have "unat (sat_add128 (token_balance g token w) amount) = unat (token_balance g token w) + unat amount" by (rule sat_add128_exact)
  then show "held (add_balance token w amount g) t = held g t + part (token = t) (unat amount)"
    using held_set [OF assms(1), of token w "sat_add128 (token_balance g token w) amount" t] by (auto simp: add_balance_def part_def split: if_splits)
  show "finite (dom (ag_balances (add_balance token w amount g)))" using assms(1) by (simp add: add_balance_def)
qed

lemma pooled_upd:
  assumes "finite (dom ps)" "ps pid = Some p"
  shows "pooled (ps(pid \<mapsto> p')) t + pool_holds pid p t = pooled ps t + pool_holds pid p' t"
  using map_sum_upd [OF assms(1), of "\<lambda>pid p. pool_holds pid p t" pid p'] assms(2) by (simp add: pooled_def)

lemma pooled_member: "finite (dom ps) \<Longrightarrow> ps pid = Some p \<Longrightarrow> pool_holds pid p t \<le> pooled ps t"
  using map_sum_member [of ps pid p "\<lambda>pid p. pool_holds pid p t"] by (simp add: pooled_def)

section \<open>Routes\<close>

definition step_in :: "swap_step \<Rightarrow> address" where
  "step_in s = (if st_a_to_b s then token_a (st_pair_id s) else token_b (st_pair_id s))"

definition step_out :: "swap_step \<Rightarrow> address" where
  "step_out s = (if st_a_to_b s then token_b (st_pair_id s) else token_a (st_pair_id s))"

fun route_between :: "swap_step list \<Rightarrow> address \<Rightarrow> address \<Rightarrow> bool" where
  "route_between [] x y \<longleftrightarrow> x = y"
| "route_between (s # ss) x y \<longleftrightarrow> step_in s = x \<and> route_between ss (step_out s) y"

lemma swap_pool_holds:
  assumes "swap p s = (Inr w, s')" "sp_a_to_b p = st_a_to_b step"
  shows "pool_holds (st_pair_id step) s' t + part (step_out step = t) (unat (sw_amount_out w)) =
    pool_holds (st_pair_id step) s t + part (step_in step = t) (unat (sp_amount_in p))"
  using swap_laws [of s p] unfolding assms(1)
  by (cases "st_a_to_b step") (auto simp: assms(2) reserves_for_def Let_def pool_holds_def step_in_def step_out_def part_def)

lemma swap_fails_holds: "swap p s = (Inl e, s') \<Longrightarrow> pool_holds pid s' t = pool_holds pid s t"
  using swap_laws [of s p] by (simp add: pair_value_def pool_holds_def)

lemma route_loop_pooled:
  assumes "route_loop m dl now steps amount fee ps = (Inr (out, f), ps')" "route_between steps x y" "finite (dom ps)"
  shows "pooled ps' t + part (y = t) (unat out) = pooled ps t + part (x = t) (unat amount)" "dom ps' = dom ps"
proof -
  have "pooled ps' t + part (y = t) (unat out) = pooled ps t + part (x = t) (unat amount) \<and> dom ps' = dom ps"
    using assms
  proof (induction m dl now steps amount fee ps arbitrary: x rule: route_loop.induct)
    case (2 m dl now step rest amount fee ps)
    obtain p where p: "ps (st_pair_id step) = Some p" using 2(2) by (auto split: option.splits)
    define sp where "sp = \<lparr>sp_a_to_b = st_a_to_b step, sp_amount_in = amount, sp_min_amount_out = if rest = [] then m else 0, sp_deadline = dl,
                sp_oracle_twap = 0, sp_block_timestamp = now\<rparr>"
    obtain r p' where sw: "swap sp p = (r, p')" by fastforce
    obtain w where w: "r = Inr w" using 2(2) sw by (auto simp: p sp_def Let_def split: sum.splits)
    define qs where "qs = ps(st_pair_id step \<mapsto> p')"
    have loop: "route_loop m dl now rest (sw_amount_out w) (sat_add128 fee (sw_protocol_fee w)) qs = (Inr (out, f), ps')"
      using 2(2) sw by (simp add: p sp_def [symmetric] w qs_def Let_def)
    have rb: "step_in step = x" "route_between rest (step_out step) y" using 2(3) by simp_all
    have d: "dom qs = dom ps" using p by (auto simp: qs_def)
    have "pooled ps' t + part (y = t) (unat out) = pooled qs t + part (step_out step = t) (unat (sw_amount_out w)) \<and> dom ps' = dom qs"
      using 2(1) [OF p refl refl sw [unfolded sp_def, symmetric] refl w, folded qs_def] loop rb(2) 2(4) d by simp
    moreover have "pooled qs t + pool_holds (st_pair_id step) p t = pooled ps t + pool_holds (st_pair_id step) p' t"
      unfolding qs_def by (rule pooled_upd [OF 2(4) p])
    moreover have "pool_holds (st_pair_id step) p' t + part (step_out step = t) (unat (sw_amount_out w)) =
        pool_holds (st_pair_id step) p t + part (step_in step = t) (unat amount)"
      using swap_pool_holds [OF sw [unfolded w], of step t] by (simp add: sp_def)
    ultimately show ?case using rb(1) d by simp
  qed simp
  then show "pooled ps' t + part (y = t) (unat out) = pooled ps t + part (x = t) (unat amount)" "dom ps' = dom ps" by blast+
qed

lemma best_route_mem: "best_route ps rs = Some r \<Longrightarrow> r \<in> set rs"
proof -
  have "foldl (\<lambda>b c. if simulate ps b \<le> simulate ps c then c else b) r0 rs \<in> insert r0 (set rs)" for r0 rs
  proof (induction rs arbitrary: r0)
    case (Cons a rs)
    show ?case using Cons.IH [of a] Cons.IH [of r0] by auto
  qed simp
  then show "best_route ps rs = Some r \<Longrightarrow> r \<in> set rs" by (cases rs) auto
qed

lemma pair_step:
  assumes "x \<noteq> y"
  shows "step_in \<lparr>st_pair_id = pair_id_new x y, st_a_to_b = (token_a (pair_id_new x y) = x)\<rparr> = x"
    "step_out \<lparr>st_pair_id = pair_id_new x y, st_a_to_b = (token_a (pair_id_new x y) = x)\<rparr> = y"
  using assms by (auto simp: step_in_def step_out_def pair_id_new_def)

lemma find_best_route_ok:
  assumes "find_best_route x y amount ps = Some r"
  shows "route_between (rt_steps r) x y" "rt_amount_in r = amount" "x \<noteq> y" "s \<in> set (rt_steps r) \<Longrightarrow> step_in s \<noteq> step_out s"
proof -
  have n: "x \<noteq> y" using assms by (auto simp: find_best_route_def split: if_splits)
  have "build_direct x y amount ps = Some r \<or> (\<exists>m. x \<noteq> m \<and> m \<noteq> y \<and> build_two_hop x m y amount ps = Some r)"
    using assms by (auto simp: find_best_route_def opt_list_def dest!: best_route_mem split: if_splits option.splits)
  then show "route_between (rt_steps r) x y" "rt_amount_in r = amount" "x \<noteq> y" "s \<in> set (rt_steps r) \<Longrightarrow> step_in s \<noteq> step_out s"
    using n pair_step by (auto simp: build_direct_def build_two_hop_def Let_def split: if_splits)
qed

section \<open>Operations\<close>

lemma set_pairs_simps [simp]:
  "dx_allowances (set_pairs ps d) = dx_allowances d" "dex_pairs (set_pairs ps d) = ps" "dx_lp_registry (set_pairs ps d) = dx_lp_registry d"
  by (simp_all add: set_pairs_def dex_pairs_def)

lemma record_volumes_pairs: "pf_pairs (fold (\<lambda>step. record_volume (st_pair_id step) amount) steps f) = pf_pairs f"
  by (induction steps arbitrary: f) (auto simp: record_volume_def split: option.splits)

lemma dex_buy_conserves:
  assumes "dex_buy trader x y amount m dl now bn d = (Inr ev, d')" "dex_finite d" "dex_total d y < 2 ^ 128"
  shows "dex_finite d' \<and> dex_total d' t = dex_total d t"
proof -
  have fin: "finite (dom (ag_balances (dx_allowances d)))" "finite (dom (dex_pairs d))" using assms(2) by (simp_all add: dex_finite_def)
  obtain route where route: "find_best_route x y amount (dex_pairs d) = Some route"
    using assms(1) by (auto simp: dex_buy_def Let_def split: if_splits option.splits)
  note ok = find_best_route_ok [OF route]
  obtain out fee ps where ex: "execute_route route m dl now (dex_pairs d) = (Inr (out, fee), ps)"
    using assms(1) route by (auto simp: dex_buy_def Let_def split: if_splits prod.splits sum.splits)
  obtain u g where sub: "sub_balance x trader amount (dx_allowances d) = (Inr u, g)"
    using assms(1) route ex by (auto simp: dex_buy_def Let_def then_st_def sbind_def on_balances_def split: if_splits prod.splits sum.splits)
  have a': "dx_allowances d' = add_balance y trader out g" "dex_pairs d' = ps"
    using assms(1) route ex sub
    by (auto simp: dex_buy_def Let_def then_st_def sbind_def on_balances_def smod_def sret_def dex_pairs_def set_pairs_def record_volumes_pairs split: if_splits)
  note p = route_loop_pooled [OF ex [unfolded execute_route_def] ok(1) fin(2)]
  note s = sub_balance_held [OF sub fin(1)]
  have "held g y + unat out < 2 ^ 128"
    using p(1) [of y] s(1) [of y] assms(3) ok(3) by (simp add: dex_total_def part_def)
  note ad = add_balance_held [OF s(2) this]
  show ?thesis
    using p(1) [of t] s(1) [of t] ad(1) [of trader t] ad(2) [of trader] p(2) fin(2) ok(2) by (simp add: dex_total_def dex_finite_def a')
qed

lemma add_liquidity_holds:
  assumes "add_liquidity p s = (Inr r, s')"
  shows "pool_holds pid s' t = pool_holds pid s t + part (token_a pid = t) (unat (al_used_a r)) + part (token_b pid = t) (unat (al_used_b r))"
proof -
  let ?s = "s\<lparr>pr_locked := True\<rparr>"
  obtain q where q: "add_liquidity_inner p ?s = (Inr r, q)" "s' = q\<lparr>pr_locked := False\<rparr>"
    using guarded_cases [OF assms [unfolded add_liquidity_def]] by auto
  have "unat (pr_reserve_a q) = unat (pr_reserve_a s) + unat (al_used_a r)" "unat (pr_reserve_b q) = unat (pr_reserve_b s) + unat (al_used_b r)"
    using q(1) by (auto simp: add_liquidity_inner_def checked128 Let_def unat_add128 split: sum.splits option.splits)
  then show ?thesis by (auto simp: pool_holds_def part_def q(2))
qed

lemma remove_liquidity_holds:
  assumes "remove_liquidity p s = (Inr r, s')"
  shows "pool_holds pid s' t + part (token_a pid = t) (unat (rl_amount_a r)) + part (token_b pid = t) (unat (rl_amount_b r)) = pool_holds pid s t"
proof -
  let ?s = "s\<lparr>pr_locked := True\<rparr>"
  obtain q where q: "remove_liquidity_inner p ?s = (Inr r, q)" "s' = q\<lparr>pr_locked := False\<rparr>"
    using guarded_cases [OF assms [unfolded remove_liquidity_def]] by auto
  note ok = remove_inner_ok [OF q(1), simplified]
  have "unat (pr_reserve_a q) + unat (rl_amount_a r) = unat (pr_reserve_a s)" "unat (pr_reserve_b q) + unat (rl_amount_b r) = unat (pr_reserve_b s)"
    using ok(4,5,7) by (simp_all add: pair_value_def word_le_nat_alt)
  then show ?thesis by (auto simp: pool_holds_def part_def q(2))
qed

lemma dex_add_conserves:
  assumes "dex_add_liquidity provider a b amount_a amount_b m dl now bn d = (Inr ev, d')" "dex_finite d"
  shows "dex_finite d' \<and> dex_total d' t = dex_total d t"
proof -
  let ?pid = "pair_id_new a b" and ?p = "\<lparr>ap_amount_a = amount_a, ap_amount_b = amount_b, ap_min_lp_out = m, ap_deadline = dl, ap_block_timestamp = now\<rparr>"
  have fin: "finite (dom (ag_balances (dx_allowances d)))" "finite (dom (dex_pairs d))" using assms(2) by (simp_all add: dex_finite_def)
  obtain s r s' where s: "dex_pairs d ?pid = Some s" "add_liquidity ?p s = (Inr r, s')"
    using assms(1) by (auto simp: dex_add_liquidity_def Let_def sbind_def on_pair_def split: if_splits prod.splits sum.splits option.splits)
  obtain u g where sa: "sub_balance (token_a ?pid) provider (al_used_a r) (dx_allowances d) = (Inr u, g)"
    using assms(1) s by (auto simp: dex_add_liquidity_def Let_def sbind_def then_st_def on_pair_def on_balances_def split: if_splits prod.splits sum.splits)
  obtain v h where sb: "sub_balance (token_b ?pid) provider (al_used_b r) g = (Inr v, h)"
    using assms(1) s sa by (auto simp: dex_add_liquidity_def Let_def sbind_def then_st_def on_pair_def on_balances_def split: if_splits prod.splits sum.splits)
  have d': "dx_allowances d' = h" "dex_pairs d' = (dex_pairs d)(?pid \<mapsto> s')"
    using assms(1) s sa sb
    by (auto simp: dex_add_liquidity_def Let_def sbind_def then_st_def on_pair_def on_balances_def smod_def sret_def set_pairs_def dex_pairs_def split: if_splits)
  note ha = sub_balance_held [OF sa fin(1)]
  note hb = sub_balance_held [OF sb ha(2)]
  show ?thesis
    using pooled_upd [OF fin(2) s(1), of s' t] add_liquidity_holds [OF s(2), of ?pid t] ha(1) [of t] hb(1) [of t] hb(2) fin(2) s(1)
    by (simp add: dex_total_def dex_finite_def d')
qed

lemma dex_remove_conserves:
  assumes "dex_remove_liquidity provider a b lp ma mb dl now d = (Inr r, d')" "dex_finite d" "\<forall>t. dex_total d t < 2 ^ 128"
  shows "dex_finite d' \<and> dex_total d' t = dex_total d t"
proof -
  let ?pid = "pair_id_new a b" and ?p = "\<lparr>rp_lp_amount = lp, rp_min_a_out = ma, rp_min_b_out = mb, rp_deadline = dl, rp_block_timestamp = now\<rparr>"
  have fin: "finite (dom (ag_balances (dx_allowances d)))" "finite (dom (dex_pairs d))" using assms(2) by (simp_all add: dex_finite_def)
  obtain s s' where s: "dex_pairs d ?pid = Some s" "remove_liquidity ?p s = (Inr r, s')"
    using assms(1) by (auto simp: dex_remove_liquidity_def Let_def sbind_def then_st_def on_pair_def on_lp_def smod_def sret_def split: if_splits prod.splits sum.splits option.splits)
  let ?g = "add_balance (token_a ?pid) provider (rl_amount_a r) (dx_allowances d)"
  have d': "dx_allowances d' = add_balance (token_b ?pid) provider (rl_amount_b r) ?g" "dex_pairs d' = (dex_pairs d)(?pid \<mapsto> s')"
    using assms(1) s
    by (auto simp: dex_remove_liquidity_def Let_def sbind_def then_st_def on_pair_def on_lp_def smod_def sret_def set_pairs_def dex_pairs_def
        split: if_splits prod.splits sum.splits)
  note u = pooled_upd [OF fin(2) s(1), of s'] and rh = remove_liquidity_holds [OF s(2), of ?pid]
  have "held (dx_allowances d) (token_a ?pid) + unat (rl_amount_a r) < 2 ^ 128"
    using spec [OF assms(3), of "token_a ?pid"] rh [of "token_a ?pid"] pooled_member [OF fin(2) s(1), of "token_a ?pid"] by (simp add: dex_total_def part_def)
  note ha = add_balance_held [OF fin(1) this]
  have "held ?g (token_b ?pid) + unat (rl_amount_b r) < 2 ^ 128"
    using spec [OF assms(3), of "token_b ?pid"] rh [of "token_b ?pid"] pooled_member [OF fin(2) s(1), of "token_b ?pid"] ha(1) [of provider "token_b ?pid"]
    by (simp add: dex_total_def part_def split: if_splits)
  note hb = add_balance_held [OF ha(2) this]
  show ?thesis
    using u [of t] rh [of t] ha(1) [of provider t] hb(1) [of provider t] hb(2) [of provider] fin(2) s(1)
    by (simp add: dex_total_def dex_finite_def d')
qed

lemma transfer_held:
  assumes "then_st (sub_balance token w amount) (smod (add_balance token v amount)) g = (Inr u, g')" "finite (dom (ag_balances g))" "held g token < 2 ^ 128"
  shows "held g' t = held g t" "finite (dom (ag_balances g'))"
proof -
  obtain x h where h: "sub_balance token w amount g = (Inr x, h)" "g' = add_balance token v amount h"
    using assms(1) by (auto simp: then_st_def sbind_def smod_def split: sum.splits prod.splits)
  note s = sub_balance_held [OF h(1) assms(2)]
  have "held h token + unat amount < 2 ^ 128" using s(1) [of token] assms(3) by (simp add: part_def)
  note a = add_balance_held [OF s(2) this]
  show "held g' t = held g t" "finite (dom (ag_balances g'))" using s(1) [of t] a by (simp_all add: h(2))
qed

section \<open>Conservation\<close>

datatype dex_call =
    DexCreatePool address address fee_tier address u128 u64
  | DexBuy address address address u128 u128 u64 u64 u64
  | DexAdd address address address u128 u128 u128 u64 u64 u64
  | DexRemove address address address u128 u128 u128 u64 u64
  | DexApprove address address address u128 u64
  | DexTransferFrom address address address address u128 u64
  | DexTransfer address address address u128

definition call_ok :: "('e, 'a) res \<times> dex_engine \<Rightarrow> dex_engine option" where
  "call_ok x = (case x of (Inl _, _) \<Rightarrow> None | (Inr _, d) \<Rightarrow> Some d)"

fun dex_exec :: "(bytes \<Rightarrow> bytes) \<Rightarrow> dex_call \<Rightarrow> dex_engine \<Rightarrow> dex_engine option" where
  "dex_exec sha3 (DexCreatePool a b tier creator bal bn) d = call_ok (dex_create_pool sha3 a b tier creator bal bn d)"
| "dex_exec sha3 (DexBuy trader x y amount m dl now bn) d = call_ok (dex_buy trader x y amount m dl now bn d)"
| "dex_exec sha3 (DexAdd provider a b amount_a amount_b m dl now bn) d = call_ok (dex_add_liquidity provider a b amount_a amount_b m dl now bn d)"
| "dex_exec sha3 (DexRemove provider a b lp ma mb dl now) d = call_ok (dex_remove_liquidity provider a b lp ma mb dl now d)"
| "dex_exec sha3 (DexApprove token w sp amount e) d = call_ok (on_balances (dex_approve token w sp amount e) d)"
| "dex_exec sha3 (DexTransferFrom token w dst sp amount now) d = call_ok (on_balances (dex_transfer_from token w dst sp amount now) d)"
| "dex_exec sha3 (DexTransfer token w dst amount) d = call_ok (on_balances (dex_transfer token w dst amount) d)"

fun dex_run :: "(bytes \<Rightarrow> bytes) \<Rightarrow> dex_call list \<Rightarrow> dex_engine \<Rightarrow> dex_engine option" where
  "dex_run sha3 [] d = Some d"
| "dex_run sha3 (c # cs) d = Option.bind (dex_exec sha3 c d) (dex_run sha3 cs)"

lemma create_pool_conserves:
  assumes "dex_create_pool sha3 a b tier creator bal bn d = (Inr x, d')" "dex_finite d"
  shows "dex_finite d' \<and> dex_total d' t = dex_total d t"
proof -
  let ?pid = "pair_id_new a b"
  have fin: "finite (dom (dex_pairs d))" using assms(2) by (simp add: dex_finite_def)
  have n: "dex_pairs d ?pid = None" and d': "dx_allowances d' = dx_allowances d" "dex_pairs d' = (dex_pairs d)(?pid \<mapsto> pair_new ?pid tier)"
    using assms(1) by (auto simp: dex_create_pool_def factory_create_pool_def Let_def dex_pairs_def split: if_splits)
  have "pooled ((dex_pairs d)(?pid \<mapsto> pair_new ?pid tier)) t = pooled (dex_pairs d) t"
    using map_sum_upd [OF fin, of "\<lambda>pid p. pool_holds pid p t" ?pid "pair_new ?pid tier"] n by (simp add: pooled_def pool_holds_def part_def pair_new_def)
  then show ?thesis using assms(2) by (simp add: dex_total_def dex_finite_def d')
qed

lemma registry_conserves:
  assumes "on_balances f d = (Inr u, d')" "dex_finite d"
    and "\<And>g'. f (dx_allowances d) = (Inr u, g') \<Longrightarrow> held g' t = held (dx_allowances d) t \<and> finite (dom (ag_balances g'))"
  shows "dex_finite d' \<and> dex_total d' t = dex_total d t"
proof -
  obtain g' where g': "f (dx_allowances d) = (Inr u, g')" "d' = d\<lparr>dx_allowances := g'\<rparr>"
    using assms(1) by (auto simp: on_balances_def Let_def split: prod.splits)
  then show ?thesis using assms(3) [OF g'(1)] assms(2) by (simp add: dex_total_def dex_finite_def dex_pairs_def)
qed

lemma spend_allowance_balances: "dex_spend_allowance token w sp amount now g = (r, g') \<Longrightarrow> ag_balances g' = ag_balances g"
  by (auto simp: dex_spend_allowance_def split: option.splits if_splits)

lemma dex_exec_conserves:
  assumes "dex_exec sha3 c d = Some d'" "dex_finite d" "\<forall>t. dex_total d t < 2 ^ 128"
  shows "dex_finite d' \<and> dex_total d' t = dex_total d t"
proof -
  have fin: "finite (dom (ag_balances (dx_allowances d)))" "held (dx_allowances d) token < 2 ^ 128" for token
    using assms(2) spec [OF assms(3), of token] by (simp_all add: dex_finite_def dex_total_def)
  have ok: "\<exists>r. x = (Inr r, d')" if "call_ok x = Some d'" for x :: "(dex_error, 'z) res \<times> dex_engine"
    using that by (auto simp: call_ok_def split: prod.splits sum.splits)
  show ?thesis
  proof (cases c)
    case (DexCreatePool a b tier creator bal bn)
    then obtain x where "dex_create_pool sha3 a b tier creator bal bn d = (Inr x, d')" using assms(1) by (auto dest!: ok)
    then show ?thesis by (rule create_pool_conserves [OF _ assms(2)])
  next
    case (DexBuy trader x y amount m dl now bn)
    then obtain ev where "dex_buy trader x y amount m dl now bn d = (Inr ev, d')" using assms(1) by (auto dest!: ok)
    then show ?thesis using assms(3) by (intro dex_buy_conserves [OF _ assms(2)]) simp_all
  next
    case (DexAdd provider a b amount_a amount_b m dl now bn)
    then obtain ev where "dex_add_liquidity provider a b amount_a amount_b m dl now bn d = (Inr ev, d')" using assms(1) by (auto dest!: ok)
    then show ?thesis by (rule dex_add_conserves [OF _ assms(2)])
  next
    case (DexRemove provider a b lp ma mb dl now)
    then obtain r where "dex_remove_liquidity provider a b lp ma mb dl now d = (Inr r, d')" using assms(1) by (auto dest!: ok)
    then show ?thesis by (rule dex_remove_conserves [OF _ assms(2,3)])
  next
    case (DexApprove token w sp amount e)
    then obtain u where "on_balances (dex_approve token w sp amount e) d = (Inr u, d')" using assms(1) by (auto dest!: ok)
    then show ?thesis by (rule registry_conserves [OF _ assms(2)]) (use fin in \<open>auto simp: dex_approve_def held_def split: if_splits\<close>)
  next
    case (DexTransferFrom token w dst sp amount now)
    then obtain u where u: "on_balances (dex_transfer_from token w dst sp amount now) d = (Inr u, d')" using assms(1) by (auto dest!: ok)
    show ?thesis
    proof (rule registry_conserves [OF u assms(2)])
      fix g' assume g': "dex_transfer_from token w dst sp amount now (dx_allowances d) = (Inr u, g')"
      show "held g' t = held (dx_allowances d) t \<and> finite (dom (ag_balances g'))"
      proof (cases "amount = 0")
        case False
        then obtain r h where h: "dex_spend_allowance token w sp amount now (dx_allowances d) = (Inr r, h)"
          "then_st (sub_balance token w amount) (smod (add_balance token dst amount)) h = (Inr u, g')"
          using g' by (auto simp: dex_transfer_from_def then_st_def sbind_def sfail_def split: if_splits prod.splits sum.splits)
        have b: "ag_balances h = ag_balances (dx_allowances d)" using spend_allowance_balances [OF h(1)] .
        then have e: "held h x = held (dx_allowances d) x" for x by (simp add: held_def)
        show ?thesis using transfer_held [OF h(2)] fin b unfolding e by simp
      qed (use g' fin in \<open>auto simp: dex_transfer_from_def sret_def sfail_def split: if_splits\<close>)
    qed
  next
    case (DexTransfer token w dst amount)
    then obtain u where u: "on_balances (dex_transfer token w dst amount) d = (Inr u, d')" using assms(1) by (auto dest!: ok)
    show ?thesis
    proof (rule registry_conserves [OF u assms(2)])
      fix g' assume g': "dex_transfer token w dst amount (dx_allowances d) = (Inr u, g')"
      show "held g' t = held (dx_allowances d) t \<and> finite (dom (ag_balances g'))"
        using g' fin transfer_held [of token w amount dst "dx_allowances d" u g'] by (auto simp: dex_transfer_def sret_def sfail_def split: if_splits)
    qed
  qed
qed

text \<open>C10. Tokens are conserved: along every sequence of purchases over one or two pools, deposits, withdrawals, transfers,
  approvals and pool creations that succeed, what the accounts and the pools hold of a token adds up
  to the same amount, whenever no token has a total beyond 128 bits.\<close>

theorem dex_conserves_tokens:
  assumes "dex_run sha3 calls d = Some d'" "dex_finite d" "\<forall>t. dex_total d t < 2 ^ 128"
  shows "dex_total d' t = dex_total d t"
  using assms
proof (induction calls arbitrary: d)
  case (Cons c cs)
  then obtain d1 where d1: "dex_exec sha3 c d = Some d1" "dex_run sha3 cs d1 = Some d'" by (auto simp: Option.bind_eq_Some_conv)
  note k = dex_exec_conserves [OF d1(1) Cons.prems(2,3)]
  then have "\<forall>t. dex_total d1 t < 2 ^ 128" using Cons.prems(3) by simp
  from Cons.IH [OF d1(2) _ this] k show ?case by simp
qed simp

definition demo_dex :: dex_engine where
  "demo_dex = set_pairs [pair_id_new [5] WZBX_ADDR \<mapsto> (pair_new (pair_id_new [5] WZBX_ADDR) Standard)\<lparr>pr_reserve_a := 1000000, pr_reserve_b := 1000000, pr_total_lp := 1000\<rparr>,
      pair_id_new WZBX_ADDR ZUSD_ADDR \<mapsto> (pair_new (pair_id_new WZBX_ADDR ZUSD_ADDR) Standard)\<lparr>pr_reserve_a := 1000000, pr_reserve_b := 1000000, pr_total_lp := 1000\<rparr>]
    (dex_new\<lparr>dx_allowances := set_token_balance [5] [9] 5000 registry_new\<rparr>)"

lemma demo_ids: "pair_id_new [5] WZBX_ADDR = \<lparr>token_a = WZBX_ADDR, token_b = [5]\<rparr>" "pair_id_new WZBX_ADDR ZUSD_ADDR = \<lparr>token_a = WZBX_ADDR, token_b = ZUSD_ADDR\<rparr>"
  "WZBX_ADDR \<noteq> ZUSD_ADDR" "WZBX_ADDR \<noteq> [5]" "ZUSD_ADDR \<noteq> [5]"
  by code_simp+

lemma demo_pairs: "dex_pairs demo_dex =
  [\<lparr>token_a = WZBX_ADDR, token_b = [5]\<rparr> \<mapsto> (pair_new \<lparr>token_a = WZBX_ADDR, token_b = [5]\<rparr> Standard)\<lparr>pr_reserve_a := 1000000, pr_reserve_b := 1000000, pr_total_lp := 1000\<rparr>,
   \<lparr>token_a = WZBX_ADDR, token_b = ZUSD_ADDR\<rparr> \<mapsto> (pair_new \<lparr>token_a = WZBX_ADDR, token_b = ZUSD_ADDR\<rparr> Standard)\<lparr>pr_reserve_a := 1000000, pr_reserve_b := 1000000, pr_total_lp := 1000\<rparr>]"
  unfolding demo_dex_def demo_ids by simp

lemma demo_balances: "ag_balances (dx_allowances demo_dex) = [([5], [9]) \<mapsto> 5000]" "token_balance (dx_allowances demo_dex) [5] [9] = 5000"
  by (simp_all add: demo_dex_def set_token_balance_def registry_new_def token_balance_def get0_def)

lemma demo_finite: "dex_finite demo_dex"
  by (simp add: dex_finite_def demo_pairs demo_balances)

lemma demo_total: "dex_total demo_dex t \<le> 2005000"
  by (auto simp: dex_total_def held_def pooled_def map_sum_def demo_pairs demo_balances pool_holds_def part_def demo_ids demo_ids(3-5) [symmetric])

lemma demo_route: "find_best_route [5] ZUSD_ADDR 1000 (dex_pairs demo_dex) =
  Some \<lparr>rt_steps = [\<lparr>st_pair_id = \<lparr>token_a = WZBX_ADDR, token_b = [5]\<rparr>, st_a_to_b = False\<rparr>, \<lparr>st_pair_id = \<lparr>token_a = WZBX_ADDR, token_b = ZUSD_ADDR\<rparr>, st_a_to_b = True\<rparr>],
    rt_amount_in = 1000\<rparr>"
proof -
  have "pair_id_new [5] ZUSD_ADDR = \<lparr>token_a = ZUSD_ADDR, token_b = [5]\<rparr>" by code_simp
  then show ?thesis
    using demo_ids(3-5) by (simp add: find_best_route_def build_direct_def build_two_hop_def Let_def demo_ids demo_pairs opt_list_def eq_commute [of _ "[5]"] eq_commute [of ZUSD_ADDR])
qed

lemma demo_swaps:
  "swap \<lparr>sp_a_to_b = False, sp_amount_in = 1000, sp_min_amount_out = 0, sp_deadline = 1, sp_oracle_twap = 0, sp_block_timestamp = 0\<rparr>
     ((pair_new i Standard)\<lparr>pr_reserve_a := 1000000, pr_reserve_b := 1000000, pr_total_lp := 1000\<rparr>) =
   (Inr \<lparr>sw_amount_out = 996, sw_lp_fee = 3, sw_protocol_fee = 0, sw_new_reserve_a = 999004, sw_new_reserve_b = 1001000\<rparr>,
    (pair_new i Standard)\<lparr>pr_reserve_a := 999004, pr_reserve_b := 1001000, pr_total_lp := 1000\<rparr>)"
  "swap \<lparr>sp_a_to_b = True, sp_amount_in = 996, sp_min_amount_out = m, sp_deadline = 1, sp_oracle_twap = 0, sp_block_timestamp = 0\<rparr>
     ((pair_new i Standard)\<lparr>pr_reserve_a := 1000000, pr_reserve_b := 1000000, pr_total_lp := 1000\<rparr>) =
   (if 992 < m then (Inl (Err (SlippageExceeded 992 m)), (pair_new i Standard)\<lparr>pr_reserve_a := 1000000, pr_reserve_b := 1000000, pr_total_lp := 1000\<rparr>)
    else (Inr \<lparr>sw_amount_out = 992, sw_lp_fee = 2, sw_protocol_fee = 0, sw_new_reserve_a = 1000996, sw_new_reserve_b = 999008\<rparr>,
    (pair_new i Standard)\<lparr>pr_reserve_a := 1000996, pr_reserve_b := 999008, pr_total_lp := 1000\<rparr>))"
  by (simp_all add: swap_def guarded_def circuit_check_def guard_acquire_def guard_release_def swap_inner_def swap_checks_def swap_settle_def pair_new_def circuit_new_def
      check_deadline_def reserves_for_def check_oracle_deviation_def check_price_impact_def check_reserve_drain_def check_slippage_def amount_out_of_def
      checked_mul128_def checked_add128_def checked_sub128_def sat_mul128_def sat_add128_def sat_sub128_def split_fee_def protocol_bps_def
      MAX_PRICE_IMPACT_BPS_def MAX_RESERVE_DRAIN_BPS_def Let_def)

theorem dex_conserves_tokens_witness:
  "\<exists>d'. dex_run id [DexBuy [9] [5] ZUSD_ADDR 1000 900 1 0 7] demo_dex = Some d' \<and> token_balance (dx_allowances d') ZUSD_ADDR [9] = 992 \<and>
     dex_total d' ZUSD_ADDR = dex_total demo_dex ZUSD_ADDR"
proof -
  have b: "\<forall>t. dex_total demo_dex t < 2 ^ 128"
  proof
    show "dex_total demo_dex t < 2 ^ 128" for t using demo_total [of t] by simp
  qed
  let ?r = "\<lparr>rt_steps = [\<lparr>st_pair_id = \<lparr>token_a = WZBX_ADDR, token_b = [5]\<rparr>, st_a_to_b = False\<rparr>, \<lparr>st_pair_id = \<lparr>token_a = WZBX_ADDR, token_b = ZUSD_ADDR\<rparr>, st_a_to_b = True\<rparr>],
    rt_amount_in = 1000\<rparr>"
  have n: "\<lparr>token_a = WZBX_ADDR, token_b = ZUSD_ADDR\<rparr> \<noteq> \<lparr>token_a = WZBX_ADDR, token_b = [5]\<rparr>" using demo_ids(5) by simp
  have "\<exists>ps. execute_route ?r 900 1 0 (dex_pairs demo_dex) = (Inr (992, 0), ps)"
    using n by (simp add: execute_route_def demo_pairs Let_def demo_swaps sat_add128_def)
  then have "\<exists>d'. dex_run id [DexBuy [9] [5] ZUSD_ADDR 1000 900 1 0 7] demo_dex = Some d' \<and> token_balance (dx_allowances d') ZUSD_ADDR [9] = 992"
    using demo_ids(5)
    by (auto simp: dex_buy_def demo_balances demo_route Let_def then_st_def sbind_def on_balances_def sub_balance_def smod_def sret_def
        call_ok_def add_balance_def token_balance_def set_token_balance_def get0_def sat_add128_def)
  then obtain d' where d': "dex_run id [DexBuy [9] [5] ZUSD_ADDR 1000 900 1 0 7] demo_dex = Some d'" "token_balance (dx_allowances d') ZUSD_ADDR [9] = 992" by blast
  from dex_conserves_tokens [OF d'(1) demo_finite b] d' show ?thesis by blast
qed

section \<open>A purchase that fails half way\<close>

lemma route_fails_pooled:
  assumes "route_loop m dl now [s] amount fee ps = (Inl e, ps')" "finite (dom ps)"
  shows "pooled ps' t = pooled ps t"
proof (cases "ps (st_pair_id s)")
  case (Some p)
  define sp where "sp = \<lparr>sp_a_to_b = st_a_to_b s, sp_amount_in = amount, sp_min_amount_out = m, sp_deadline = dl, sp_oracle_twap = 0, sp_block_timestamp = now\<rparr>"
  obtain r p' where sw: "swap sp p = (r, p')" by fastforce
  have r: "r = Inl e" "ps' = ps(st_pair_id s \<mapsto> p')" using assms(1) sw Some by (auto simp: sp_def Let_def split: sum.splits)
  show ?thesis using pooled_upd [OF assms(2) Some, of p' t] swap_fails_holds [OF sw [unfolded r(1)], of "st_pair_id s" t] by (simp add: r(2))
qed (use assms in simp)

text \<open>C40. A purchase over two pools is not atomic: when the second swap fails, for instance because the price has
  slipped, its error is returned and the trader's balances are untouched, but the first pool stays swapped.
  The amount of the input token in the exchange has grown by a payment nobody made, and what left
  the first pool of the intermediate token has disappeared from the pool's liquidity providers.\<close>

theorem dex_failed_buy_keeps_first_swap:
  assumes "find_best_route x y amount (dex_pairs d) = Some \<lparr>rt_steps = [s1, s2], rt_amount_in = amount\<rparr>"
    and "amount \<le> token_balance (dx_allowances d) x trader" "dex_finite d" "dex_pairs d (st_pair_id s1) = Some p"
    and "swap \<lparr>sp_a_to_b = st_a_to_b s1, sp_amount_in = amount, sp_min_amount_out = 0, sp_deadline = dl, sp_oracle_twap = 0, sp_block_timestamp = now\<rparr> p = (Inr w, p')"
    and "fst (route_loop m dl now [s2] (sw_amount_out w) (sat_add128 0 (sw_protocol_fee w)) ((dex_pairs d)(st_pair_id s1 \<mapsto> p'))) = Inl e"
  shows "\<exists>d'. dex_buy trader x y amount m dl now bn d = (map_err AmmFailed (Inl e), d') \<and> dx_allowances d' = dx_allowances d \<and>
    dex_total d' x = dex_total d x + unat amount \<and>
    0 < unat (sw_amount_out w) \<and> dex_total d' (step_out s1) + unat (sw_amount_out w) = dex_total d (step_out s1)"
proof -
  note ok = find_best_route_ok [OF assms(1), simplified]
  have i: "step_in s1 = x" "step_out s1 \<noteq> x" using ok(1) ok(4) [of s1] by auto
  have fin: "finite (dom (dex_pairs d))" using assms(3) by (simp add: dex_finite_def)
  let ?qs = "(dex_pairs d)(st_pair_id s1 \<mapsto> p')"
  obtain ps where ps: "route_loop m dl now [s2] (sw_amount_out w) (sat_add128 0 (sw_protocol_fee w)) ?qs = (Inl e, ps)"
    using assms(6) by (metis prod.collapse)
  have ex: "execute_route \<lparr>rt_steps = [s1, s2], rt_amount_in = amount\<rparr> m dl now (dex_pairs d) = (Inl e, ps)"
    using ps assms(4,5) by (simp add: execute_route_def Let_def)
  have "dex_buy trader x y amount m dl now bn d = (map_err AmmFailed (Inl e), set_pairs ps d)"
    using assms(1) leD [OF assms(2)] ex by (simp add: dex_buy_def Let_def)
  moreover have "pooled ps t + part (step_out s1 = t) (unat (sw_amount_out w)) = pooled (dex_pairs d) t + part (x = t) (unat amount)" for t
    using route_fails_pooled [OF ps] fin pooled_upd [OF fin assms(4), of p' t] swap_pool_holds [OF assms(5), of s1 t] i(1) by simp
  from this [of x] this [of "step_out s1"] have "dex_total (set_pairs ps d) x = dex_total d x + unat amount"
    "dex_total (set_pairs ps d) (step_out s1) + unat (sw_amount_out w) = dex_total d (step_out s1)" using i(2) by (simp_all add: dex_total_def part_def)
  moreover have "0 < unat (sw_amount_out w)" using swap_laws [of p] assms(5) by (force simp: Let_def split: prod.splits)
  ultimately show ?thesis by (metis set_pairs_simps(1))
qed

theorem dex_failed_buy_keeps_first_swap_witness:
  "\<exists>d'. dex_buy [9] [5] ZUSD_ADDR 1000 993 1 0 7 demo_dex = (Inl (Err (AmmFailed (SlippageExceeded 992 993))), d') \<and> token_balance (dx_allowances d') [5] [9] = 5000 \<and>
     dex_total d' [5] = dex_total demo_dex [5] + 1000"
proof -
  have n: "\<lparr>token_a = WZBX_ADDR, token_b = ZUSD_ADDR\<rparr> \<noteq> \<lparr>token_a = WZBX_ADDR, token_b = [5]\<rparr>" using demo_ids(5) by simp
  let ?i = "\<lparr>token_a = WZBX_ADDR, token_b = [5]\<rparr>"
  let ?p = "(pair_new ?i Standard)\<lparr>pr_reserve_a := 999004, pr_reserve_b := 1001000, pr_total_lp := 1000\<rparr>"
  have l: "(1000 :: u128) \<le> token_balance (dx_allowances demo_dex) [5] [9]" by (simp add: demo_balances)
  have p: "dex_pairs demo_dex (st_pair_id \<lparr>st_pair_id = ?i, st_a_to_b = False\<rparr>) = Some ((pair_new ?i Standard)\<lparr>pr_reserve_a := 1000000, pr_reserve_b := 1000000, pr_total_lp := 1000\<rparr>)"
    using n by (simp add: demo_pairs)
  have r: "fst (route_loop 993 1 0 [\<lparr>st_pair_id = \<lparr>token_a = WZBX_ADDR, token_b = ZUSD_ADDR\<rparr>, st_a_to_b = True\<rparr>] 996 (sat_add128 0 0) ((dex_pairs demo_dex)(?i \<mapsto> ?p))) =
      Inl (Err (SlippageExceeded 992 993))"
    using n by (simp add: demo_pairs Let_def demo_swaps(2))
  note c = dex_failed_buy_keeps_first_swap [OF demo_route l demo_finite p, of 1 0, simplified swap_step.select_convs, OF demo_swaps(1) [of ?i], simplified swap_result.select_convs, OF r, of 7]
  then obtain d' where "dex_buy [9] [5] ZUSD_ADDR 1000 993 1 0 7 demo_dex = (Inl (Err (AmmFailed (SlippageExceeded 992 993))), d')" "dx_allowances d' = dx_allowances demo_dex"
    "dex_total d' [5] = dex_total demo_dex [5] + unat (1000 :: u128)" by auto
  then show ?thesis using demo_balances(2) by simp
qed

end
