(* ===== verification/Spec2Isabelle.thy ===== *)
theory Spec2Isabelle
  imports Rlp Trie_Proof Evm_Word_Props Evm_Host_Props Evm_Jumpdest Evm_Data_Props Zrc20_Props
    Rewards_Props Block_Props Hotstuff_Props Dex_Props
begin

text \<open>
  \<^bold>\<open>Verification of the Zebvix chain\<close> (\<^verbatim>\<open>src/zbx-chain\<close>, a blockchain node written in Rust).

  \<^bold>\<open>The program.\<close>  A node orders blocks by HotStuff consensus (\<^verbatim>\<open>zbx-consensus\<close>), checks their headers
  (\<^verbatim>\<open>zbx-types\<close>), executes transactions in an EVM (\<^verbatim>\<open>zbx-evm\<close>), commits the state to a Merkle Patricia trie
  (\<^verbatim>\<open>zbx-trie\<close>, encoded by \<^verbatim>\<open>zbx-rlp\<close>), and pays fees and rewards (\<^verbatim>\<open>zbx-fee\<close>, \<^verbatim>\<open>zbx-rewards\<close>, over the
  256-bit integers of \<^verbatim>\<open>zbx-primitives\<close>).  Two native applications are the ZRC-20 token engine
  (\<^verbatim>\<open>zbx-contracts\<close>) and the exchange (\<^verbatim>\<open>zbx-pool\<close>).  The development models these crates function by
  function; paths below are relative to \<^verbatim>\<open>src/zbx-chain/crates\<close>.

  \<^bold>\<open>Conventions\<close> (Zbx_Prelude, Machine).  A function returning \<^verbatim>\<open>Result\<close> has type \<open>('e, 'a) res\<close>: a value, an
  error of the crate, a panic, or exhausted fuel.  A method on \<^verbatim>\<open>&mut self\<close> is a state computation
  \<open>('s, 'e, 'a) st\<close> that keeps the state reached when it fails, so partial updates are visible.  Machine
  integers are words: plain operators wrap as in a release build, and the saturating and checked operations are
  those of Machine.  Hash maps are maps, or association lists where the code iterates or counts them.

  \<^bold>\<open>Theories and source.\<close>
  \<^item> Rlp: \<^verbatim>\<open>zbx-rlp\<close>.  The stream encoder (\<open>begin_list\<close>, \<open>rlp_append\<close>, \<open>finalize_unbounded_list\<close>, \<open>rlp_out\<close>)
    and the decoder (\<open>as_bytes\<close>, \<open>item_count\<close>, \<open>rlp_at\<close>, \<open>decode_u64\<close>).  \<open>rlp_stream_encodes\<close>: the stream
    with its placeholders implements the recursive definition \<open>rlp_enc\<close>; \<open>rlp_list_roundtrip\<close> and
    \<open>rlp_decoder_total\<close>: decoding inverts encoding and never panics.
  \<^item> Nibbles, Trie_Node, Trie: \<^verbatim>\<open>nibbles.rs\<close>, \<^verbatim>\<open>node.rs\<close>, \<^verbatim>\<open>trie.rs\<close>, \<^verbatim>\<open>proof.rs\<close> of \<^verbatim>\<open>zbx-trie\<close>.  Mpt_Spec is the
    abstract tree without hashes, with the locale \<open>auth_map\<close> (a map whose root determines its contents)
    interpreted on it; Trie_Refine shows that the stored trie refines it; Trie_Props and Trie_Proof draw the
    consequences: \<open>trie_insert_lookup\<close>, \<open>trie_delete_lookup\<close>, \<open>trie_root_determined\<close>, \<open>trie_root_binding\<close>,
    \<open>verify_proof_sound\<close>, \<open>prove_verifies\<close>, and \<open>node_codec_roundtrip\<close> for the node codec.
  \<^item> Evm_Word (\<^verbatim>\<open>stack.rs\<close>), Evm_Gas (\<^verbatim>\<open>gas.rs\<close>, \<^verbatim>\<open>opcodes.rs\<close>, \<^verbatim>\<open>memory.rs\<close>, \<^verbatim>\<open>error.rs\<close>), Evm_Host (\<^verbatim>\<open>host.rs\<close>),
    Evm_Interp and Evm_Call (\<^verbatim>\<open>interpreter.rs\<close>): every instruction, sub-calls and creation.  The arithmetic is
    proved in Evm_Arith, Evm_Modular, Evm_Signed, Evm_Shift and summed up in Evm_Word_Props; the jump
    table in Evm_Jumpdest; memory and the copy instructions in Evm_Data_Props.  Evm_Frame holds the proof
    rules and the locale \<open>frame_rel\<close>, whose interpretations give gas accounting (Evm_Terminates) and control
    facts; Evm_Journal holds the contract of the Host trait as the locale \<open>journaled_host\<close>,
    interpreted on MockHost in Evm_Host_Props.  Results: \<open>evm_run_terminates\<close>, \<open>evm_gas_bounded\<close>,
    \<open>evm_static_frames_read_only\<close>, \<open>evm_failed_call_rolled_back\<close>, \<open>evm_call_moves_value\<close> (a CALL moves its value, and
    creates it when a contract calls itself) and the defect \<open>evm_copy_past_end_panics\<close>.
  \<^item> Zrc20 and Zrc20_Props: \<^verbatim>\<open>zbx-contracts/src/zrc20_token.rs\<close> under arbitrary sequences of calls:
    \<open>zrc20_supply_conserved\<close>, \<open>zrc20_controls_hold\<close>, \<open>zrc20_failed_transfer_from_spends\<close>.
  \<^item> Uint (\<^verbatim>\<open>zbx-primitives/src/uint.rs\<close>), Fees (\<^verbatim>\<open>zbx-fee\<close>), Rewards and Rewards_Props (\<^verbatim>\<open>zbx-rewards\<close> and the
    constants of \<^verbatim>\<open>zbx-types/src/lib.rs\<close>): the base fee rule, the split of rewards and fees, the
    subsidy against the supply cap.
  \<^item> Block and Block_Props: \<^verbatim>\<open>zbx-types/src/block.rs\<close>.  Validated header chains are determined by the newest hash
    (\<open>header_chain_determined\<close>); \<open>validation_fee_rule\<close> compares the fee rule of validation with that of Fees.
  \<^item> Vote, Vote_Props, Hotstuff, Hotstuff_Props: \<^verbatim>\<open>vote.rs\<close>, \<^verbatim>\<open>safety_rules.rs\<close>, \<^verbatim>\<open>block_store.rs\<close>, \<^verbatim>\<open>liveness.rs\<close>,
    \<^verbatim>\<open>hotstuff.rs\<close>, \<^verbatim>\<open>round_manager.rs\<close> of \<^verbatim>\<open>zbx-consensus\<close>.  A run is any sequence of messages.
    The locale \<open>quorum_rule\<close> gives intersecting quorums; \<open>accountable_safety\<close> convicts more than a third of the
    validators of conflicting commits from received votes, \<open>safety_rules_no_equivocation\<close> protects a validator
    within an epoch, and \<open>first_vote_decides_round\<close> and \<open>epoch_change_allows_equivocation\<close> are the limits found.
  \<^item> Amm and Amm_Props (\<^verbatim>\<open>error.rs\<close>, \<^verbatim>\<open>fee.rs\<close>, \<^verbatim>\<open>security.rs\<close>, \<^verbatim>\<open>pair.rs\<close> of \<^verbatim>\<open>zbx-pool\<close>): one pair;
    \<open>amm_swap_correct\<close>, \<open>amm_share_value\<close>, \<open>amm_first_deposit\<close>.  Dex and Dex_Props (the ledgers, the factory, the
    router and \<^verbatim>\<open>dex.rs\<close>): \<open>dex_conserves_tokens\<close>, \<open>dex_failed_buy_keeps_first_swap\<close>.
  \<^item> This theory: \<open>committed_blocks_agree\<close>, which joins voting, block store and header encoding.

  \<^bold>\<open>Parameters.\<close>  Keccak-256, SHA3-256, BLS signatures and the precompiled contracts come from cryptographic
  libraries and are arguments.  Theorems about hashed data assume that the hash has no collision
  among the byte strings that are stored or compared, never that it is injective; the witnesses
  instantiate it by concrete functions.

  \<^bold>\<open>Conditions on inputs.\<close>  The theorems on the trie are about tries that hold non-empty values (\<open>trie_ok\<close>; keys and
  values below \<open>2 ^ 32\<close> bytes): the code accepts empty values but loses them at branches, which \<open>trie_insert_lookup\<close>
  shows.  The balances of MockHost are taken to be words of 32 bytes, the token totals of the exchange
  to fit 128 bits.  The fee rules, the reward split and the decoder are described for all inputs.

  \<^bold>\<open>Fuel.\<close>  The recursive methods of the trie descend along stored nodes, which a corrupted database could make
  circular, so they carry a bound; the theorems assume a bound linear in the number of nibbles of the key and
  conclude that a value is returned.  The interpreter has a bound on steps and nested calls, and
  \<open>evm_run_terminates\<close> shows that all large enough bounds give the same result, which is not exhaustion.  All other
  loops are structural or have a termination proof.

  \<^bold>\<open>Not modelled.\<close>  Networking, storage engines, RPC, command line, metrics and the front ends are input and output
  around the code above.  Signature schemes, zero-knowledge and post-quantum crates are cryptography, of which the
  modelled code uses only interfaces.  The second virtual machines (\<^verbatim>\<open>zbx-vm\<close>, \<^verbatim>\<open>zbx-zvm\<close>, \<^verbatim>\<open>zbx-wasm\<close>), the second
  consensus driver (\<^verbatim>\<open>hotstuff2.rs\<close>), staking, the mempool, the oracles, lending, perpetuals, bridges
  and the other application crates are separate programs that the modelled crates do not call.
  Inside modelled crates: the trie iterator, the precompiles' bodies and PayID resolvers of \<^verbatim>\<open>zbx-evm\<close>,
  the token factory of \<^verbatim>\<open>zbx-pool\<close>, transactions and receipts of \<^verbatim>\<open>zbx-types\<close> (a type parameter of blocks),
  floating point displays, wall-clock instants, logging, and the file the safety state is written to.
\<close>

section \<open>Consensus and blocks\<close>

text \<open>C5. Agreement: two nodes with the same validator set and registered keys that commit in the same round have
  committed the same block header (its committee signature, which the hash leaves out, apart) unless more than a third of the validators can
  be convicted of equivocation from the votes the two nodes received; provided Keccak-256 does not
  collide on the encodings of the two headers.  It joins the voting of zbx-consensus, the
  block store and the header encoding of zbx-types.\<close>

theorem committed_blocks_agree:
  assumes "valset_new V = Inr vs" "distinct V"
    and "hs_run C ops (hotstuff_new x rules vs) = (es, s)" "\<forall>a. SetValidators a \<notin> set ops"
    and "hs_run C ops' (hotstuff_new x' rules' vs) = (es', s')" "\<forall>a. SetValidators a \<notin> set ops'"
    and "\<forall>a\<in>set V. hs_validator_pubkeys s a = hs_validator_pubkeys s' a"
    and "Committed b c \<in> set es" "Committed b' c' \<in> set es'" "qc_block_number c = qc_block_number c'"
    and "\<not> (\<exists>E\<subseteq>set V. length V < 3 * card E \<and> (\<forall>a\<in>E. convicts C ops ops' (qc_block_number c) a (hs_validator_pubkeys s a)))"
    and "wf_header (bl_header b)" "wf_header (bl_header b')"
    and "inj_on (cr_keccak C) {canonical_encode (bl_header b), canonical_encode (bl_header b')}"
  shows "unsigned_header (bl_header b) = unsigned_header (bl_header b')"
proof (rule header_hash_commits [OF assms(12,13)])
  have "qc_block_hash c = qc_block_hash c'" using conflict_convicts [OF assms(1-10)] assms(11) by blast
  moreover have "block_hash (cr_keccak C) b = qc_block_hash c" "block_hash (cr_keccak C) b' = qc_block_hash c'"
    using hs_run_store [OF assms(3) hotstuff_new_store] hs_run_store [OF assms(5) hotstuff_new_store] assms(8,9) by blast+
  ultimately show "header_hash (cr_keccak C) (bl_header b) = header_hash (cr_keccak C) (bl_header b')" by (simp add: block_hash_def)
qed (use assms(14) in \<open>auto dest: inj_onD\<close>)

theorem committed_blocks_agree_witness:
  "\<exists>es s es' s'. hs_run demo_crypto (demo_ops 1 []) demo_node = (es, s) \<and> Committed (demo_block 1 []) (demo_cert 1) \<in> set es \<and>
     hs_run demo_crypto (demo_ops 1 [3]) demo_node = (es', s') \<and> Committed (demo_block 1 [3]) (demo_cert 1) \<in> set es' \<and>
     unsigned_header (bl_header (demo_block 1 [])) = unsigned_header (bl_header (demo_block 1 [3]))"
proof -
  obtain es s where r: "hs_run demo_crypto (demo_ops 1 []) demo_node = (es, s)" "Committed (demo_block 1 []) (demo_cert 1) \<in> set es"
    "hs_validator_pubkeys s = [demo_val \<mapsto> [7]]" by (rule demo_commits)
  obtain es' s' where r': "hs_run demo_crypto (demo_ops 1 [3]) demo_node = (es', s')" "Committed (demo_block 1 [3]) (demo_cert 1) \<in> set es'"
    "hs_validator_pubkeys s' = [demo_val \<mapsto> [7]]" by (rule demo_commits)
  have n: "\<forall>a. SetValidators a \<notin> set (demo_ops 1 g)" for g by (simp add: demo_ops_def)
  have "\<not> convicts demo_crypto (demo_ops 1 []) (demo_ops 1 [3]) k a key" for k a key
    by (auto simp: convicts_def demo_ops_def evidence_verify_iff)
  then have e: "\<not> (\<exists>E\<subseteq>set [demo_val]. length [demo_val] < 3 * card E \<and>
      (\<forall>a\<in>E. convicts demo_crypto (demo_ops 1 []) (demo_ops 1 [3]) (qc_block_number (demo_cert 1)) a (hs_validator_pubkeys s a)))"
    by (metis all_not_in_conv card.empty mult_0_right not_less_zero)
  have w: "wf_header (bl_header (demo_block 1 g))" for g
    by (simp add: wf_header_def demo_block_def block_genesis_def zero_hash_def demo_val_def)
  have "unsigned_header (bl_header (demo_block 1 [])) = unsigned_header (bl_header (demo_block 1 [3]))"
    by (rule committed_blocks_agree [OF demo_set_new _ r(1) [unfolded demo_node_def] n r'(1) [unfolded demo_node_def] n _ r(2) r'(2) refl e w w])
      (simp_all add: r(3) r'(3) demo_crypto_def)
  with r r' show ?thesis by blast
qed

end
